(* ===== verification/Prelude.thy ===== *)
theory Prelude
  imports Main "HOL-Library.Word"
begin

text \<open>
  Shared vocabulary of the development: the machine types of the Rust sources, the outcome of
  a fallible call (a value, an error or a panic) with the \<open>?\<close> operator as \<open>and_then\<close>,
  little-endian byte strings, and the list facts used by more than one component.

  \<open>usize\<close> is \<open>nat\<close>: the sources run on 64-bit targets and every index in them is bounded
  by the length of an in-memory buffer.  Integers whose width matters are words.
\<close>

unbundle bit_operations_syntax

type_synonym u8 = "8 word"
type_synonym u16 = "16 word"
type_synonym u32 = "32 word"
type_synonym u64 = "64 word"
type_synonym bytes = "u8 list"


section \<open>Outcomes\<close>

text \<open>
  \<open>Result<T, E>\<close> of the sources, with a third case for a panic (an out-of-range index, an
  \<open>expect\<close> or \<open>unwrap\<close> that fails, an \<open>assert!\<close>, \<open>unimplemented!\<close>).
\<close>

datatype ('e, 'a) outcome = Ok 'a | Err 'e | Panic

text \<open>The \<open>?\<close> operator: continue with the value, or leave with the error.\<close>

primrec and_then :: "('e, 'a) outcome \<Rightarrow> ('a \<Rightarrow> ('e, 'b) outcome) \<Rightarrow> ('e, 'b) outcome" where
  "and_then (Ok x) f = f x"
| "and_then (Err e) f = Err e"
| "and_then Panic f = Panic"

text \<open>\<open>Result::map_err\<close>.\<close>

primrec map_err :: "('e \<Rightarrow> 'f) \<Rightarrow> ('e, 'a) outcome \<Rightarrow> ('f, 'a) outcome" where
  "map_err f (Ok x) = Ok x"
| "map_err f (Err e) = Err (f e)"
| "map_err f Panic = Panic"

text \<open>\<open>Option::ok_or\<close>.\<close>

primrec ok_or :: "'a option \<Rightarrow> 'e \<Rightarrow> ('e, 'a) outcome" where
  "ok_or None e = Err e"
| "ok_or (Some x) e = Ok x"

text \<open>Slice indexing panics out of range.\<close>

definition index :: "'a list \<Rightarrow> nat \<Rightarrow> ('e, 'a) outcome" where
  "index xs i = (if i < length xs then Ok (xs ! i) else Panic)"

lemma and_then_cong [fundef_cong]:
  "r = r' \<Longrightarrow> (\<And>x. r' = Ok x \<Longrightarrow> f x = f' x) \<Longrightarrow> and_then r f = and_then r' f'"
  by (cases r') auto

lemma and_then_eq_Ok [simp]:
  "and_then r f = Ok y \<longleftrightarrow> (\<exists>x. r = Ok x \<and> f x = Ok y)"
  by (cases r) auto

lemma and_then_eq_Err:
  "and_then r f = Err e \<longleftrightarrow> r = Err e \<or> (\<exists>x. r = Ok x \<and> f x = Err e)"
  by (cases r) auto

lemma and_then_eq_Panic:
  "and_then r f = Panic \<longleftrightarrow> r = Panic \<or> (\<exists>x. r = Ok x \<and> f x = Panic)"
  by (cases r) auto

lemma and_then_assoc: "and_then (and_then r f) g = and_then r (\<lambda>x. and_then (f x) g)"
  by (cases r) auto

lemma and_then_Ok [simp]: "and_then r Ok = r"
  by (cases r) auto

lemma map_err_eq_Ok [simp]: "map_err f r = Ok x \<longleftrightarrow> r = Ok x"
  by (cases r) auto

lemma map_err_eq_Panic [simp]: "map_err f r = Panic \<longleftrightarrow> r = Panic"
  by (cases r) auto

lemma ok_or_eq_Ok [simp]: "ok_or v e = Ok x \<longleftrightarrow> v = Some x"
  by (cases v) auto

lemma ok_or_not_Panic [simp]: "ok_or v e \<noteq> Panic"
  by (cases v) auto

lemma index_eq_Ok [simp]: "index xs i = Ok x \<longleftrightarrow> i < length xs \<and> xs ! i = x"
  by (auto simp: index_def)

lemma index_eq_Panic [simp]: "index xs i = Panic \<longleftrightarrow> length xs \<le> i"
  by (auto simp: index_def)

lemma index_not_Err [simp]: "index xs i \<noteq> Err e"
  by (auto simp: index_def)

lemma if_intro: "(c \<Longrightarrow> P a) \<Longrightarrow> (\<not> c \<Longrightarrow> P b) \<Longrightarrow> P (if c then a else b)"
  by simp

lemmas and_then_cases = and_then_eq_Ok and_then_eq_Err and_then_eq_Panic


section \<open>Safety of outcomes\<close>

text \<open>
  \<open>safe P r\<close>: the computation did not panic, and if it returned a value the value satisfies
  \<open>P\<close>.  The rules of the collection \<open>safe_rules\<close> follow the shape of a computation, so that the
  safety of a handler is found by \<open>intro\<close> from the safety of what it calls.
\<close>

named_theorems safe_rules

definition safe :: "('a \<Rightarrow> bool) \<Rightarrow> ('e, 'a) outcome \<Rightarrow> bool" where
  "safe P r \<longleftrightarrow> (case r of Ok x \<Rightarrow> P x | Err e \<Rightarrow> True | Panic \<Rightarrow> False)"

lemma safe_simps [simp]:
  "safe P (Ok x) \<longleftrightarrow> P x" "safe P (Err e)" "\<not> safe P Panic"
  by (simp_all add: safe_def)

lemma safe_alt: "safe P r \<longleftrightarrow> r \<noteq> Panic \<and> (\<forall>x. r = Ok x \<longrightarrow> P x)"
  by (cases r) simp_all

lemma safe_not_Panic: "safe P r \<Longrightarrow> r \<noteq> Panic"
  by auto

lemma safe_OkD: "safe P r \<Longrightarrow> r = Ok x \<Longrightarrow> P x"
  by simp

lemma safe_weaken: "safe Q r \<Longrightarrow> (\<And>x. Q x \<Longrightarrow> P x) \<Longrightarrow> safe P r"
  by (cases r) simp_all

lemma safe_Err [safe_rules]: "safe P (Err e)"
  by simp

lemma safe_and_then: "safe Q r \<Longrightarrow> (\<And>x. Q x \<Longrightarrow> safe P (f x)) \<Longrightarrow> safe P (and_then r f)"
  by (cases r) simp_all

lemma safe_if [safe_rules]: "(c \<Longrightarrow> safe P a) \<Longrightarrow> (\<not> c \<Longrightarrow> safe P b) \<Longrightarrow> safe P (if c then a else b)"
  by simp

lemma safe_Let [safe_rules]: "(\<And>y. y = x \<Longrightarrow> safe P (f y)) \<Longrightarrow> safe P (let y = x in f y)"
  by simp

lemma safe_case_prod [safe_rules]:
  "(\<And>a b. p = (a, b) \<Longrightarrow> safe P (f a b)) \<Longrightarrow> safe P (case p of (a, b) \<Rightarrow> f a b)"
  by (cases p) simp

lemma safe_map_err [simp]: "safe P (map_err f r) \<longleftrightarrow> safe P r"
  by (cases r) simp_all

lemma safe_ok_or [simp]: "safe P (ok_or v e) \<longleftrightarrow> (\<forall>x. v = Some x \<longrightarrow> P x)"
  by (cases v) simp_all

lemma safe_index [simp]: "safe P (index xs i) \<longleftrightarrow> i < length xs \<and> P (xs ! i)"
  by (auto simp: index_def)


section \<open>Little-endian byte strings\<close>

text \<open>The value of a little-endian byte string, and the \<open>n\<close> low bytes of a value.\<close>

fun le_nat :: "bytes \<Rightarrow> nat" where
  "le_nat [] = 0"
| "le_nat (b # bs) = unat b + 256 * le_nat bs"

fun le_bytes :: "nat \<Rightarrow> nat \<Rightarrow> bytes" where
  "le_bytes 0 v = []"
| "le_bytes (Suc n) v = word_of_nat (v mod 256) # le_bytes n (v div 256)"

lemma unat_u8_less: "unat (b :: u8) < 256"
  using unsigned_less [of b] by simp

lemma unat_word_of_nat_u8: "unat (word_of_nat n :: u8) = n mod 256"
  by (simp add: unat_of_nat)

lemma u8_and_low: "unat (b AND 0x7f :: u8) = unat b mod 128"
proof -
  have "unat (b AND 0x7f) = unat b AND 127"
    by (simp add: unsigned_and_eq)
  also have "\<dots> = take_bit 7 (unat b)"
    by (simp add: take_bit_eq_mask mask_eq_exp_minus_1)
  finally show ?thesis by (simp add: take_bit_eq_mod)
qed

lemma u8_low_bits: "b AND 0x7f = 0 \<longleftrightarrow> unat (b :: u8) mod 128 = 0"
  by (metis u8_and_low unat_eq_zero)

lemma u8_high_bit: "b AND 0x80 = 0 \<longleftrightarrow> unat (b :: u8) < 128"
proof -
  have "b AND 2 ^ 7 = 0 \<longleftrightarrow> \<not> bit b 7"
    by (rule and_exp_eq_0_iff_not_bit)
  moreover have "bit b 7 \<longleftrightarrow> bit (unat b) 7"
    by (simp add: bit_unsigned_iff)
  moreover have "bit (unat b) 7 \<longleftrightarrow> odd (unat b div 128)"
    by (simp add: bit_iff_odd)
  moreover have "unat b div 128 = (if unat b < 128 then 0 else 1)"
    using unat_u8_less [of b] by auto
  ultimately show ?thesis by simp
qed

lemma u8_set_high_bit: "unat (b :: u8) < 128 \<Longrightarrow> unat (b OR 0x80) = unat b + 128"
proof -
  assume b: "unat b < 128"
  then have "b AND 0x80 = 0" by (simp add: u8_high_bit)
  then have "b OR 0x80 = b + 0x80"
    by (simp add: disjunctive_add_eq_or)
  moreover have "unat (b + 0x80) = unat b + 128"
    using b by (simp add: unat_word_ariths)
  ultimately show ?thesis by simp
qed

lemma u8_and_high: "b AND 0x80 = (if unat (b :: u8) < 128 then 0 else 0x80)"
proof (cases "unat b < 128")
  case True
  then show ?thesis by (simp add: u8_high_bit)
next
  case False
  let ?c = "b AND 0x7f"
  have "unat ?c < 128" by (simp add: u8_and_low)
  then have "unat (?c OR 0x80) = unat ?c + 128" by (rule u8_set_high_bit)
  also have "\<dots> = unat b"
    using False unat_u8_less [of b] by (simp add: u8_and_low mod_if) arith
  finally have "b = ?c OR 0x80" by (metis unsigned_word_eqI)
  then have "b AND 0x80 = (?c OR 0x80) AND 0x80" by simp
  also have "\<dots> = 0x80" by (simp only: word_ao_absorbs)
  finally show ?thesis using False by simp
qed

lemma u8_mask_full [simp]: "b AND 0xff = (b :: u8)"
proof -
  have "b AND mask 8 = take_bit 8 b" by (simp only: take_bit_eq_mask)
  also have "\<dots> = b" by (rule take_bit_word_eq_self) simp
  finally show ?thesis by (simp add: mask_eq_exp_minus_1)
qed

lemma length_le_bytes [simp]: "length (le_bytes n v) = n"
  by (induction n arbitrary: v) auto

lemma le_bytes_numeral: "le_bytes (numeral k) v = word_of_nat (v mod 256) # le_bytes (pred_numeral k) (v div 256)"
  by (subst numeral_eq_Suc [of k]) (rule le_bytes.simps(2))

lemma le_nat_append: "le_nat (xs @ ys) = le_nat xs + 256 ^ length xs * le_nat ys"
  by (induction xs) (auto simp: algebra_simps)

lemma le_nat_less: "le_nat bs < 256 ^ length bs"
proof (induction bs)
  case Nil
  show ?case by simp
next
  case (Cons b bs)
  have "unat b + 256 * le_nat bs < 256 + 256 * le_nat bs"
    using unat_u8_less [of b] by linarith
  also have "\<dots> \<le> 256 * 256 ^ length bs"
    using Cons.IH by (metis Suc_leI mult_Suc_right mult_le_mono2)
  finally show ?case by simp
qed

lemma le_nat_le_bytes [simp]: "le_nat (le_bytes n v) = v mod 256 ^ n"
  by (induction n arbitrary: v) (auto simp: unat_word_of_nat_u8 mod_mult2_eq)

lemma le_bytes_le_nat [simp]: "le_bytes (length bs) (le_nat bs) = bs"
  by (induction bs) (auto simp: unat_u8_less)

lemma le_bytes_inj:
  assumes "length xs = length ys" and "le_nat xs = le_nat ys"
  shows "xs = ys"
  using assms le_bytes_le_nat by metis


section \<open>Lists\<close>

lemma take_length_append [simp]: "take (length xs) (xs @ ys) = xs"
  by simp

lemma drop_length_append [simp]: "drop (length xs) (xs @ ys) = ys"
  by simp

lemma append_take_eq: "length xs = n \<Longrightarrow> take n (xs @ ys) = xs \<and> drop n (xs @ ys) = ys"
  by auto

lemma list_all_nth_bytes: "list_all P xs \<Longrightarrow> i < length xs \<Longrightarrow> P (xs ! i)"
  by (simp add: list_all_length)

end
