(* ===== verification/Opcodes.thy ===== *)
theory Opcodes
  imports Prelude
begin

text \<open>
  The opcodes, verification flags and errors of the script interpreter
  (\<open>script/src/opcode.rs\<close>, \<open>script/src/flags.rs\<close>, \<open>script/src/error.rs\<close>).

  The Rust enum \<open>Opcode\<close> is \<open>repr(u8)\<close> with 188 field-less variants whose discriminants are
  consecutive, and the code compares opcodes through the derived order and through
  \<open>as u8\<close>.  An opcode is therefore its discriminant under a constructor, each variant an
  abbreviation with the source's name and number, and the derived order an instance of
  \<open>linorder\<close>.
\<close>

section \<open>Opcodes\<close>

datatype opcode = Opcode (discriminant: u8)

abbreviation OP_0 :: opcode where "OP_0 \<equiv> Opcode 0x00"
abbreviation OP_PUSHBYTES_1 :: opcode where "OP_PUSHBYTES_1 \<equiv> Opcode 0x01"
abbreviation OP_PUSHBYTES_2 :: opcode where "OP_PUSHBYTES_2 \<equiv> Opcode 0x02"
abbreviation OP_PUSHBYTES_3 :: opcode where "OP_PUSHBYTES_3 \<equiv> Opcode 0x03"
abbreviation OP_PUSHBYTES_4 :: opcode where "OP_PUSHBYTES_4 \<equiv> Opcode 0x04"
abbreviation OP_PUSHBYTES_5 :: opcode where "OP_PUSHBYTES_5 \<equiv> Opcode 0x05"
abbreviation OP_PUSHBYTES_6 :: opcode where "OP_PUSHBYTES_6 \<equiv> Opcode 0x06"
abbreviation OP_PUSHBYTES_7 :: opcode where "OP_PUSHBYTES_7 \<equiv> Opcode 0x07"
abbreviation OP_PUSHBYTES_8 :: opcode where "OP_PUSHBYTES_8 \<equiv> Opcode 0x08"
abbreviation OP_PUSHBYTES_9 :: opcode where "OP_PUSHBYTES_9 \<equiv> Opcode 0x09"
abbreviation OP_PUSHBYTES_10 :: opcode where "OP_PUSHBYTES_10 \<equiv> Opcode 0x0a"
abbreviation OP_PUSHBYTES_11 :: opcode where "OP_PUSHBYTES_11 \<equiv> Opcode 0x0b"
abbreviation OP_PUSHBYTES_12 :: opcode where "OP_PUSHBYTES_12 \<equiv> Opcode 0x0c"
abbreviation OP_PUSHBYTES_13 :: opcode where "OP_PUSHBYTES_13 \<equiv> Opcode 0x0d"
abbreviation OP_PUSHBYTES_14 :: opcode where "OP_PUSHBYTES_14 \<equiv> Opcode 0x0e"
abbreviation OP_PUSHBYTES_15 :: opcode where "OP_PUSHBYTES_15 \<equiv> Opcode 0x0f"
abbreviation OP_PUSHBYTES_16 :: opcode where "OP_PUSHBYTES_16 \<equiv> Opcode 0x10"
abbreviation OP_PUSHBYTES_17 :: opcode where "OP_PUSHBYTES_17 \<equiv> Opcode 0x11"
abbreviation OP_PUSHBYTES_18 :: opcode where "OP_PUSHBYTES_18 \<equiv> Opcode 0x12"
abbreviation OP_PUSHBYTES_19 :: opcode where "OP_PUSHBYTES_19 \<equiv> Opcode 0x13"
abbreviation OP_PUSHBYTES_20 :: opcode where "OP_PUSHBYTES_20 \<equiv> Opcode 0x14"
abbreviation OP_PUSHBYTES_21 :: opcode where "OP_PUSHBYTES_21 \<equiv> Opcode 0x15"
abbreviation OP_PUSHBYTES_22 :: opcode where "OP_PUSHBYTES_22 \<equiv> Opcode 0x16"
abbreviation OP_PUSHBYTES_23 :: opcode where "OP_PUSHBYTES_23 \<equiv> Opcode 0x17"
abbreviation OP_PUSHBYTES_24 :: opcode where "OP_PUSHBYTES_24 \<equiv> Opcode 0x18"
abbreviation OP_PUSHBYTES_25 :: opcode where "OP_PUSHBYTES_25 \<equiv> Opcode 0x19"
abbreviation OP_PUSHBYTES_26 :: opcode where "OP_PUSHBYTES_26 \<equiv> Opcode 0x1a"
abbreviation OP_PUSHBYTES_27 :: opcode where "OP_PUSHBYTES_27 \<equiv> Opcode 0x1b"
abbreviation OP_PUSHBYTES_28 :: opcode where "OP_PUSHBYTES_28 \<equiv> Opcode 0x1c"
abbreviation OP_PUSHBYTES_29 :: opcode where "OP_PUSHBYTES_29 \<equiv> Opcode 0x1d"
abbreviation OP_PUSHBYTES_30 :: opcode where "OP_PUSHBYTES_30 \<equiv> Opcode 0x1e"
abbreviation OP_PUSHBYTES_31 :: opcode where "OP_PUSHBYTES_31 \<equiv> Opcode 0x1f"
abbreviation OP_PUSHBYTES_32 :: opcode where "OP_PUSHBYTES_32 \<equiv> Opcode 0x20"
abbreviation OP_PUSHBYTES_33 :: opcode where "OP_PUSHBYTES_33 \<equiv> Opcode 0x21"
abbreviation OP_PUSHBYTES_34 :: opcode where "OP_PUSHBYTES_34 \<equiv> Opcode 0x22"
abbreviation OP_PUSHBYTES_35 :: opcode where "OP_PUSHBYTES_35 \<equiv> Opcode 0x23"
abbreviation OP_PUSHBYTES_36 :: opcode where "OP_PUSHBYTES_36 \<equiv> Opcode 0x24"
abbreviation OP_PUSHBYTES_37 :: opcode where "OP_PUSHBYTES_37 \<equiv> Opcode 0x25"
abbreviation OP_PUSHBYTES_38 :: opcode where "OP_PUSHBYTES_38 \<equiv> Opcode 0x26"
abbreviation OP_PUSHBYTES_39 :: opcode where "OP_PUSHBYTES_39 \<equiv> Opcode 0x27"
abbreviation OP_PUSHBYTES_40 :: opcode where "OP_PUSHBYTES_40 \<equiv> Opcode 0x28"
abbreviation OP_PUSHBYTES_41 :: opcode where "OP_PUSHBYTES_41 \<equiv> Opcode 0x29"
abbreviation OP_PUSHBYTES_42 :: opcode where "OP_PUSHBYTES_42 \<equiv> Opcode 0x2a"
abbreviation OP_PUSHBYTES_43 :: opcode where "OP_PUSHBYTES_43 \<equiv> Opcode 0x2b"
abbreviation OP_PUSHBYTES_44 :: opcode where "OP_PUSHBYTES_44 \<equiv> Opcode 0x2c"
abbreviation OP_PUSHBYTES_45 :: opcode where "OP_PUSHBYTES_45 \<equiv> Opcode 0x2d"
abbreviation OP_PUSHBYTES_46 :: opcode where "OP_PUSHBYTES_46 \<equiv> Opcode 0x2e"
abbreviation OP_PUSHBYTES_47 :: opcode where "OP_PUSHBYTES_47 \<equiv> Opcode 0x2f"
abbreviation OP_PUSHBYTES_48 :: opcode where "OP_PUSHBYTES_48 \<equiv> Opcode 0x30"
abbreviation OP_PUSHBYTES_49 :: opcode where "OP_PUSHBYTES_49 \<equiv> Opcode 0x31"
abbreviation OP_PUSHBYTES_50 :: opcode where "OP_PUSHBYTES_50 \<equiv> Opcode 0x32"
abbreviation OP_PUSHBYTES_51 :: opcode where "OP_PUSHBYTES_51 \<equiv> Opcode 0x33"
abbreviation OP_PUSHBYTES_52 :: opcode where "OP_PUSHBYTES_52 \<equiv> Opcode 0x34"
abbreviation OP_PUSHBYTES_53 :: opcode where "OP_PUSHBYTES_53 \<equiv> Opcode 0x35"
abbreviation OP_PUSHBYTES_54 :: opcode where "OP_PUSHBYTES_54 \<equiv> Opcode 0x36"
abbreviation OP_PUSHBYTES_55 :: opcode where "OP_PUSHBYTES_55 \<equiv> Opcode 0x37"
abbreviation OP_PUSHBYTES_56 :: opcode where "OP_PUSHBYTES_56 \<equiv> Opcode 0x38"
abbreviation OP_PUSHBYTES_57 :: opcode where "OP_PUSHBYTES_57 \<equiv> Opcode 0x39"
abbreviation OP_PUSHBYTES_58 :: opcode where "OP_PUSHBYTES_58 \<equiv> Opcode 0x3a"
abbreviation OP_PUSHBYTES_59 :: opcode where "OP_PUSHBYTES_59 \<equiv> Opcode 0x3b"
abbreviation OP_PUSHBYTES_60 :: opcode where "OP_PUSHBYTES_60 \<equiv> Opcode 0x3c"
abbreviation OP_PUSHBYTES_61 :: opcode where "OP_PUSHBYTES_61 \<equiv> Opcode 0x3d"
abbreviation OP_PUSHBYTES_62 :: opcode where "OP_PUSHBYTES_62 \<equiv> Opcode 0x3e"
abbreviation OP_PUSHBYTES_63 :: opcode where "OP_PUSHBYTES_63 \<equiv> Opcode 0x3f"
abbreviation OP_PUSHBYTES_64 :: opcode where "OP_PUSHBYTES_64 \<equiv> Opcode 0x40"
abbreviation OP_PUSHBYTES_65 :: opcode where "OP_PUSHBYTES_65 \<equiv> Opcode 0x41"
abbreviation OP_PUSHBYTES_66 :: opcode where "OP_PUSHBYTES_66 \<equiv> Opcode 0x42"
abbreviation OP_PUSHBYTES_67 :: opcode where "OP_PUSHBYTES_67 \<equiv> Opcode 0x43"
abbreviation OP_PUSHBYTES_68 :: opcode where "OP_PUSHBYTES_68 \<equiv> Opcode 0x44"
abbreviation OP_PUSHBYTES_69 :: opcode where "OP_PUSHBYTES_69 \<equiv> Opcode 0x45"
abbreviation OP_PUSHBYTES_70 :: opcode where "OP_PUSHBYTES_70 \<equiv> Opcode 0x46"
abbreviation OP_PUSHBYTES_71 :: opcode where "OP_PUSHBYTES_71 \<equiv> Opcode 0x47"
abbreviation OP_PUSHBYTES_72 :: opcode where "OP_PUSHBYTES_72 \<equiv> Opcode 0x48"
abbreviation OP_PUSHBYTES_73 :: opcode where "OP_PUSHBYTES_73 \<equiv> Opcode 0x49"
abbreviation OP_PUSHBYTES_74 :: opcode where "OP_PUSHBYTES_74 \<equiv> Opcode 0x4a"
abbreviation OP_PUSHBYTES_75 :: opcode where "OP_PUSHBYTES_75 \<equiv> Opcode 0x4b"
abbreviation OP_PUSHDATA1 :: opcode where "OP_PUSHDATA1 \<equiv> Opcode 0x4c"
abbreviation OP_PUSHDATA2 :: opcode where "OP_PUSHDATA2 \<equiv> Opcode 0x4d"
abbreviation OP_PUSHDATA4 :: opcode where "OP_PUSHDATA4 \<equiv> Opcode 0x4e"
abbreviation OP_1NEGATE :: opcode where "OP_1NEGATE \<equiv> Opcode 0x4f"
abbreviation OP_RESERVED :: opcode where "OP_RESERVED \<equiv> Opcode 0x50"
abbreviation OP_1 :: opcode where "OP_1 \<equiv> Opcode 0x51"
abbreviation OP_2 :: opcode where "OP_2 \<equiv> Opcode 0x52"
abbreviation OP_3 :: opcode where "OP_3 \<equiv> Opcode 0x53"
abbreviation OP_4 :: opcode where "OP_4 \<equiv> Opcode 0x54"
abbreviation OP_5 :: opcode where "OP_5 \<equiv> Opcode 0x55"
abbreviation OP_6 :: opcode where "OP_6 \<equiv> Opcode 0x56"
abbreviation OP_7 :: opcode where "OP_7 \<equiv> Opcode 0x57"
abbreviation OP_8 :: opcode where "OP_8 \<equiv> Opcode 0x58"
abbreviation OP_9 :: opcode where "OP_9 \<equiv> Opcode 0x59"
abbreviation OP_10 :: opcode where "OP_10 \<equiv> Opcode 0x5a"
abbreviation OP_11 :: opcode where "OP_11 \<equiv> Opcode 0x5b"
abbreviation OP_12 :: opcode where "OP_12 \<equiv> Opcode 0x5c"
abbreviation OP_13 :: opcode where "OP_13 \<equiv> Opcode 0x5d"
abbreviation OP_14 :: opcode where "OP_14 \<equiv> Opcode 0x5e"
abbreviation OP_15 :: opcode where "OP_15 \<equiv> Opcode 0x5f"
abbreviation OP_16 :: opcode where "OP_16 \<equiv> Opcode 0x60"
abbreviation OP_NOP :: opcode where "OP_NOP \<equiv> Opcode 0x61"
abbreviation OP_VER :: opcode where "OP_VER \<equiv> Opcode 0x62"
abbreviation OP_IF :: opcode where "OP_IF \<equiv> Opcode 0x63"
abbreviation OP_NOTIF :: opcode where "OP_NOTIF \<equiv> Opcode 0x64"
abbreviation OP_VERIF :: opcode where "OP_VERIF \<equiv> Opcode 0x65"
abbreviation OP_VERNOTIF :: opcode where "OP_VERNOTIF \<equiv> Opcode 0x66"
abbreviation OP_ELSE :: opcode where "OP_ELSE \<equiv> Opcode 0x67"
abbreviation OP_ENDIF :: opcode where "OP_ENDIF \<equiv> Opcode 0x68"
abbreviation OP_VERIFY :: opcode where "OP_VERIFY \<equiv> Opcode 0x69"
abbreviation OP_RETURN :: opcode where "OP_RETURN \<equiv> Opcode 0x6a"
abbreviation OP_TOALTSTACK :: opcode where "OP_TOALTSTACK \<equiv> Opcode 0x6b"
abbreviation OP_FROMALTSTACK :: opcode where "OP_FROMALTSTACK \<equiv> Opcode 0x6c"
abbreviation OP_2DROP :: opcode where "OP_2DROP \<equiv> Opcode 0x6d"
abbreviation OP_2DUP :: opcode where "OP_2DUP \<equiv> Opcode 0x6e"
abbreviation OP_3DUP :: opcode where "OP_3DUP \<equiv> Opcode 0x6f"
abbreviation OP_2OVER :: opcode where "OP_2OVER \<equiv> Opcode 0x70"
abbreviation OP_2ROT :: opcode where "OP_2ROT \<equiv> Opcode 0x71"
abbreviation OP_2SWAP :: opcode where "OP_2SWAP \<equiv> Opcode 0x72"
abbreviation OP_IFDUP :: opcode where "OP_IFDUP \<equiv> Opcode 0x73"
abbreviation OP_DEPTH :: opcode where "OP_DEPTH \<equiv> Opcode 0x74"
abbreviation OP_DROP :: opcode where "OP_DROP \<equiv> Opcode 0x75"
abbreviation OP_DUP :: opcode where "OP_DUP \<equiv> Opcode 0x76"
abbreviation OP_NIP :: opcode where "OP_NIP \<equiv> Opcode 0x77"
abbreviation OP_OVER :: opcode where "OP_OVER \<equiv> Opcode 0x78"
abbreviation OP_PICK :: opcode where "OP_PICK \<equiv> Opcode 0x79"
abbreviation OP_ROLL :: opcode where "OP_ROLL \<equiv> Opcode 0x7a"
abbreviation OP_ROT :: opcode where "OP_ROT \<equiv> Opcode 0x7b"
abbreviation OP_SWAP :: opcode where "OP_SWAP \<equiv> Opcode 0x7c"
abbreviation OP_TUCK :: opcode where "OP_TUCK \<equiv> Opcode 0x7d"
abbreviation OP_CAT :: opcode where "OP_CAT \<equiv> Opcode 0x7e"
abbreviation OP_SUBSTR :: opcode where "OP_SUBSTR \<equiv> Opcode 0x7f"
abbreviation OP_LEFT :: opcode where "OP_LEFT \<equiv> Opcode 0x80"
abbreviation OP_RIGHT :: opcode where "OP_RIGHT \<equiv> Opcode 0x81"
abbreviation OP_SIZE :: opcode where "OP_SIZE \<equiv> Opcode 0x82"
abbreviation OP_INVERT :: opcode where "OP_INVERT \<equiv> Opcode 0x83"
abbreviation OP_AND :: opcode where "OP_AND \<equiv> Opcode 0x84"
abbreviation OP_OR :: opcode where "OP_OR \<equiv> Opcode 0x85"
abbreviation OP_XOR :: opcode where "OP_XOR \<equiv> Opcode 0x86"
abbreviation OP_EQUAL :: opcode where "OP_EQUAL \<equiv> Opcode 0x87"
abbreviation OP_EQUALVERIFY :: opcode where "OP_EQUALVERIFY \<equiv> Opcode 0x88"
abbreviation OP_RESERVED1 :: opcode where "OP_RESERVED1 \<equiv> Opcode 0x89"
abbreviation OP_RESERVED2 :: opcode where "OP_RESERVED2 \<equiv> Opcode 0x8a"
abbreviation OP_1ADD :: opcode where "OP_1ADD \<equiv> Opcode 0x8b"
abbreviation OP_1SUB :: opcode where "OP_1SUB \<equiv> Opcode 0x8c"
abbreviation OP_2MUL :: opcode where "OP_2MUL \<equiv> Opcode 0x8d"
abbreviation OP_2DIV :: opcode where "OP_2DIV \<equiv> Opcode 0x8e"
abbreviation OP_NEGATE :: opcode where "OP_NEGATE \<equiv> Opcode 0x8f"
abbreviation OP_ABS :: opcode where "OP_ABS \<equiv> Opcode 0x90"
abbreviation OP_NOT :: opcode where "OP_NOT \<equiv> Opcode 0x91"
abbreviation OP_0NOTEQUAL :: opcode where "OP_0NOTEQUAL \<equiv> Opcode 0x92"
abbreviation OP_ADD :: opcode where "OP_ADD \<equiv> Opcode 0x93"
abbreviation OP_SUB :: opcode where "OP_SUB \<equiv> Opcode 0x94"
abbreviation OP_MUL :: opcode where "OP_MUL \<equiv> Opcode 0x95"
abbreviation OP_DIV :: opcode where "OP_DIV \<equiv> Opcode 0x96"
abbreviation OP_MOD :: opcode where "OP_MOD \<equiv> Opcode 0x97"
abbreviation OP_LSHIFT :: opcode where "OP_LSHIFT \<equiv> Opcode 0x98"
abbreviation OP_RSHIFT :: opcode where "OP_RSHIFT \<equiv> Opcode 0x99"
abbreviation OP_BOOLAND :: opcode where "OP_BOOLAND \<equiv> Opcode 0x9a"
abbreviation OP_BOOLOR :: opcode where "OP_BOOLOR \<equiv> Opcode 0x9b"
abbreviation OP_NUMEQUAL :: opcode where "OP_NUMEQUAL \<equiv> Opcode 0x9c"
abbreviation OP_NUMEQUALVERIFY :: opcode where "OP_NUMEQUALVERIFY \<equiv> Opcode 0x9d"
abbreviation OP_NUMNOTEQUAL :: opcode where "OP_NUMNOTEQUAL \<equiv> Opcode 0x9e"
abbreviation OP_LESSTHAN :: opcode where "OP_LESSTHAN \<equiv> Opcode 0x9f"
abbreviation OP_GREATERTHAN :: opcode where "OP_GREATERTHAN \<equiv> Opcode 0xa0"
abbreviation OP_LESSTHANOREQUAL :: opcode where "OP_LESSTHANOREQUAL \<equiv> Opcode 0xa1"
abbreviation OP_GREATERTHANOREQUAL :: opcode where "OP_GREATERTHANOREQUAL \<equiv> Opcode 0xa2"
abbreviation OP_MIN :: opcode where "OP_MIN \<equiv> Opcode 0xa3"
abbreviation OP_MAX :: opcode where "OP_MAX \<equiv> Opcode 0xa4"
abbreviation OP_WITHIN :: opcode where "OP_WITHIN \<equiv> Opcode 0xa5"
abbreviation OP_RIPEMD160 :: opcode where "OP_RIPEMD160 \<equiv> Opcode 0xa6"
abbreviation OP_SHA1 :: opcode where "OP_SHA1 \<equiv> Opcode 0xa7"
abbreviation OP_SHA256 :: opcode where "OP_SHA256 \<equiv> Opcode 0xa8"
abbreviation OP_HASH160 :: opcode where "OP_HASH160 \<equiv> Opcode 0xa9"
abbreviation OP_HASH256 :: opcode where "OP_HASH256 \<equiv> Opcode 0xaa"
abbreviation OP_CODESEPARATOR :: opcode where "OP_CODESEPARATOR \<equiv> Opcode 0xab"
abbreviation OP_CHECKSIG :: opcode where "OP_CHECKSIG \<equiv> Opcode 0xac"
abbreviation OP_CHECKSIGVERIFY :: opcode where "OP_CHECKSIGVERIFY \<equiv> Opcode 0xad"
abbreviation OP_CHECKMULTISIG :: opcode where "OP_CHECKMULTISIG \<equiv> Opcode 0xae"
abbreviation OP_CHECKMULTISIGVERIFY :: opcode where "OP_CHECKMULTISIGVERIFY \<equiv> Opcode 0xaf"
abbreviation OP_NOP1 :: opcode where "OP_NOP1 \<equiv> Opcode 0xb0"
abbreviation OP_CHECKLOCKTIMEVERIFY :: opcode where "OP_CHECKLOCKTIMEVERIFY \<equiv> Opcode 0xb1"
abbreviation OP_CHECKSEQUENCEVERIFY :: opcode where "OP_CHECKSEQUENCEVERIFY \<equiv> Opcode 0xb2"
abbreviation OP_NOP4 :: opcode where "OP_NOP4 \<equiv> Opcode 0xb3"
abbreviation OP_NOP5 :: opcode where "OP_NOP5 \<equiv> Opcode 0xb4"
abbreviation OP_NOP6 :: opcode where "OP_NOP6 \<equiv> Opcode 0xb5"
abbreviation OP_NOP7 :: opcode where "OP_NOP7 \<equiv> Opcode 0xb6"
abbreviation OP_NOP8 :: opcode where "OP_NOP8 \<equiv> Opcode 0xb7"
abbreviation OP_NOP9 :: opcode where "OP_NOP9 \<equiv> Opcode 0xb8"
abbreviation OP_NOP10 :: opcode where "OP_NOP10 \<equiv> Opcode 0xb9"
abbreviation OP_CHECKDATASIG :: opcode where "OP_CHECKDATASIG \<equiv> Opcode 0xba"
abbreviation OP_CHECKDATASIGVERIFY :: opcode where "OP_CHECKDATASIGVERIFY \<equiv> Opcode 0xbb"

instantiation opcode :: linorder
begin

definition less_eq_opcode :: "opcode \<Rightarrow> opcode \<Rightarrow> bool" where
  "less_eq_opcode a b \<longleftrightarrow> discriminant a \<le> discriminant b"

definition less_opcode :: "opcode \<Rightarrow> opcode \<Rightarrow> bool" where
  "less_opcode a b \<longleftrightarrow> discriminant a < discriminant b"

instance
  by standard (auto simp: less_eq_opcode_def less_opcode_def opcode.expand)

end

lemma Opcode_le [simp]: "Opcode a \<le> Opcode b \<longleftrightarrow> a \<le> b"
  by (simp add: less_eq_opcode_def)

lemma Opcode_less [simp]: "Opcode a < Opcode b \<longleftrightarrow> a < b"
  by (simp add: less_opcode_def)

definition from_u8 :: "u8 \<Rightarrow> opcode option" where
  "from_u8 u = (if u \<le> 0xbb then Some (Opcode u) else None)"


section \<open>Verification flags\<close>

text \<open>
  The flag structure; its \<open>Default\<close> has every field false, and the builder methods of the
  same names are record updates.
\<close>

record verification_flags =
  none_flag :: bool
  verify_p2sh :: bool
  verify_strictenc :: bool
  verify_dersig :: bool
  verify_low_s :: bool
  verify_nulldummy :: bool
  verify_sigpushonly :: bool
  verify_minimaldata :: bool
  verify_discourage_upgradable_nops :: bool
  verify_cleanstack :: bool
  verify_locktime :: bool
  verify_checksequence :: bool
  verify_witness :: bool
  verify_discourage_upgradable_witness_program :: bool
  verify_concat :: bool
  verify_split :: bool
  verify_and :: bool
  verify_or :: bool
  verify_xor :: bool
  verify_div :: bool
  verify_mod :: bool
  verify_bin2num :: bool
  verify_num2bin :: bool
  verify_checkdatasig :: bool

definition default_flags :: verification_flags where
  "default_flags = \<lparr>
     none_flag = False, verify_p2sh = False, verify_strictenc = False, verify_dersig = False,
     verify_low_s = False, verify_nulldummy = False, verify_sigpushonly = False,
     verify_minimaldata = False, verify_discourage_upgradable_nops = False,
     verify_cleanstack = False, verify_locktime = False, verify_checksequence = False,
     verify_witness = False, verify_discourage_upgradable_witness_program = False,
     verify_concat = False, verify_split = False, verify_and = False, verify_or = False,
     verify_xor = False, verify_div = False, verify_mod = False, verify_bin2num = False,
     verify_num2bin = False, verify_checkdatasig = False \<rparr>"


section \<open>Opcode classes\<close>

definition is_disabled :: "opcode \<Rightarrow> verification_flags \<Rightarrow> bool" where
  "is_disabled op flags =
     (if op = OP_CAT \<and> \<not> verify_concat flags then True
      else if op = OP_SUBSTR \<and> \<not> verify_split flags then True
      else if op = OP_AND \<and> \<not> verify_and flags then True
      else if op = OP_OR \<and> \<not> verify_or flags then True
      else if op = OP_XOR \<and> \<not> verify_xor flags then True
      else if op = OP_DIV \<and> \<not> verify_div flags then True
      else if op = OP_MOD \<and> \<not> verify_mod flags then True
      else if op = OP_RIGHT \<and> \<not> verify_bin2num flags then True
      else if op = OP_LEFT \<and> \<not> verify_num2bin flags then True
      else op \<in> {OP_INVERT, OP_2MUL, OP_2DIV, OP_MUL, OP_LSHIFT, OP_RSHIFT})"

definition is_countable :: "opcode \<Rightarrow> bool" where
  "is_countable op \<longleftrightarrow> op > OP_16"

definition is_simple_push :: "opcode \<Rightarrow> bool" where
  "is_simple_push op \<longleftrightarrow> op < OP_PUSHDATA1"

definition is_push_value :: "opcode \<Rightarrow> bool" where
  "is_push_value op \<longleftrightarrow> op \<ge> OP_1NEGATE \<and> op \<le> OP_16"

definition is_within_op_n :: "opcode \<Rightarrow> bool" where
  "is_within_op_n op \<longleftrightarrow> op \<ge> OP_1 \<and> op \<le> OP_16"

text \<open>\<open>decode_op_n\<close> asserts that the opcode is one of \<open>OP_1\<close> to \<open>OP_16\<close>.\<close>

definition decode_op_n :: "opcode \<Rightarrow> ('e, u8) outcome" where
  "decode_op_n op =
     (if is_within_op_n op then Ok (discriminant op - (discriminant OP_1 - 1)) else Panic)"


section \<open>Errors\<close>

datatype script_error =
    Unknown
  | EvalFalse
  | ReturnOpcode
  | ScriptSize
  | PushSize
  | OpCount
  | StackSize
  | NumberOverflow
  | NumberNotMinimallyEncoded
  | SigCount
  | PubkeyCount
  | InvalidOperandSize
  | Verify
  | EqualVerify
  | CheckSigVerify
  | CheckDataSigVerify
  | NumEqualVerify
  | BadOpcode
  | DisabledOpcode opcode
  | InvalidStackOperation
  | InvalidAltstackOperation
  | UnbalancedConditional
  | InvalidSplitRange
  | DivisionByZero
  | ImpossibleEncoding
  | NegativeLocktime
  | UnsatisfiedLocktime
  | SignatureHashtype
  | SignatureDer
  | SignatureIllegalForkId
  | SignatureMustUseForkId
  | Minimaldata
  | SignaturePushOnly
  | SignatureHighS
  | SignatureNullDummy
  | PubkeyType
  | Cleanstack
  | DiscourageUpgradableNops
  | DiscourageUpgradableWitnessProgram
  | WitnessProgramWrongLength
  | WitnessProgramWitnessEmpty
  | WitnessProgramMismatch
  | WitnessMalleated
  | WitnessMalleatedP2SH
  | WitnessUnexpected
  | WitnessPubKeyType

type_synonym 'a sres = "(script_error, 'a) outcome"


section \<open>Facts\<close>

lemma from_u8_discriminant: "from_u8 u = Some op \<Longrightarrow> discriminant op = u"
  by (auto simp: from_u8_def split: if_splits)

lemma from_u8_of_valid: "discriminant op \<le> 0xbb \<Longrightarrow> from_u8 (discriminant op) = Some op"
  by (cases op) (simp add: from_u8_def)

lemma decode_op_n_eq_Ok:
  "decode_op_n op = Ok n \<longleftrightarrow> is_within_op_n op \<and> n = discriminant op - 0x50"
  by (auto simp: decode_op_n_def)

lemma decode_op_n_range:
  assumes "decode_op_n op = Ok n"
  shows "1 \<le> unat n \<and> unat n \<le> 16"
proof -
  obtain d where op: "op = Opcode d" by (cases op)
  from assms have d: "0x51 \<le> d" "d \<le> 0x60" and n: "n = d - 0x50"
    by (auto simp: decode_op_n_eq_Ok is_within_op_n_def op)
  from d have "0x51 \<le> unat d" "unat d \<le> 0x60"
    by (simp_all add: word_le_nat_alt)
  moreover from calculation have "unat n = unat d - 0x50"
    unfolding n by (subst unat_sub) (simp_all add: word_le_nat_alt)
  ultimately show ?thesis by arith
qed

end
