(* ===== verification/Script_Stack.thy ===== *)
theory Script_Stack
  imports Opcodes
begin

text \<open>
  The interpreter's stack (\<open>script/src/stack.rs\<close>).  A \<open>Stack<T>\<close> is its vector: a list whose
  last element is the top of the stack.  The loops of the source are recursive functions
  over the vector they update, and every vector access keeps its panic.
\<close>

type_synonym 'a stack = "'a list"

section \<open>Vector primitives\<close>

text \<open>\<open>data[data.len() - k]\<close>: the subtraction and the access can both panic.\<close>

definition from_end :: "'a list \<Rightarrow> nat \<Rightarrow> 'a sres" where
  "from_end data k = (if k \<le> length data then index data (length data - k) else Panic)"

definition vec_remove :: "'a list \<Rightarrow> nat \<Rightarrow> ('a \<times> 'a list) sres" where
  "vec_remove data i =
     (if i < length data then Ok (data ! i, take i data @ drop (Suc i) data) else Panic)"

definition vec_insert :: "'a list \<Rightarrow> nat \<Rightarrow> 'a \<Rightarrow> 'a list sres" where
  "vec_insert data i v =
     (if i \<le> length data then Ok (take i data @ v # drop i data) else Panic)"

definition vec_swap :: "'a list \<Rightarrow> nat \<Rightarrow> nat \<Rightarrow> 'a list sres" where
  "vec_swap data a b =
     (if a < length data \<and> b < length data then Ok (data[a := data ! b, b := data ! a])
      else Panic)"

text \<open>\<open>swap_remove\<close> replaces the removed element by the last one.\<close>

definition vec_swap_remove :: "'a list \<Rightarrow> nat \<Rightarrow> 'a list sres" where
  "vec_swap_remove data i =
     (if i < length data then Ok (butlast (data[i := last data])) else Panic)"


section \<open>Stack operations\<close>

definition stack_require :: "'a stack \<Rightarrow> nat \<Rightarrow> unit sres" where
  "stack_require data len = (if length data < len then Err InvalidStackOperation else Ok ())"

definition stack_last :: "'a stack \<Rightarrow> 'a sres" where
  "stack_last data = (if data = [] then Err InvalidStackOperation else Ok (last data))"

text \<open>\<open>last_mut\<close> with the value written through the reference it returns.\<close>

definition stack_set_last :: "'a stack \<Rightarrow> 'a \<Rightarrow> 'a stack sres" where
  "stack_set_last data v =
     (if data = [] then Err InvalidStackOperation else Ok (butlast data @ [v]))"

definition stack_pop :: "'a stack \<Rightarrow> ('a \<times> 'a stack) sres" where
  "stack_pop data =
     (if data = [] then Err InvalidStackOperation else Ok (last data, butlast data))"

definition stack_push :: "'a stack \<Rightarrow> 'a \<Rightarrow> 'a stack" where
  "stack_push data v = data @ [v]"

definition stack_top :: "'a stack \<Rightarrow> nat \<Rightarrow> 'a sres" where
  "stack_top data i =
     and_then (stack_require data (i + 1)) (\<lambda>_. from_end data (i + 1))"

definition stack_remove :: "'a stack \<Rightarrow> nat \<Rightarrow> ('a \<times> 'a stack) sres" where
  "stack_remove data i =
     and_then (stack_require data (i + 1)) (\<lambda>_. vec_remove data (length data - (i + 1)))"

text \<open>The loop of \<open>drop\<close> pops \<open>j\<close> times and ignores what \<open>pop\<close> returns.\<close>

fun stack_drop_loop :: "nat \<Rightarrow> 'a stack \<Rightarrow> 'a stack" where
  "stack_drop_loop 0 data = data"
| "stack_drop_loop (Suc j) data = stack_drop_loop j (butlast data)"

definition stack_drop :: "'a stack \<Rightarrow> nat \<Rightarrow> 'a stack sres" where
  "stack_drop data i = and_then (stack_require data i) (\<lambda>_. Ok (stack_drop_loop i data))"

fun stack_clone_loop :: "nat \<Rightarrow> nat \<Rightarrow> 'a stack \<Rightarrow> 'a stack sres" where
  "stack_clone_loop 0 k data = Ok data"
| "stack_clone_loop (Suc j) k data =
     and_then (from_end data k) (\<lambda>v. stack_clone_loop j k (data @ [v]))"

definition stack_dup :: "'a stack \<Rightarrow> nat \<Rightarrow> 'a stack sres" where
  "stack_dup data i = and_then (stack_require data i) (\<lambda>_. stack_clone_loop i i data)"

text \<open>The loop of \<open>over\<close> runs while \<open>j > i\<close> from \<open>j = 2 * i\<close>, that is \<open>i\<close> times.\<close>

definition stack_over :: "'a stack \<Rightarrow> nat \<Rightarrow> 'a stack sres" where
  "stack_over data i =
     and_then (stack_require data (i * 2)) (\<lambda>_. stack_clone_loop (i * 2 - i) (i * 2) data)"

fun stack_rot_loop :: "nat \<Rightarrow> nat \<Rightarrow> 'a stack \<Rightarrow> 'a stack sres" where
  "stack_rot_loop 0 to_remove data = Ok data"
| "stack_rot_loop (Suc j) to_remove data =
     and_then (vec_remove data to_remove) (\<lambda>(v, data'). stack_rot_loop j to_remove (data' @ [v]))"

definition stack_rot :: "'a stack \<Rightarrow> nat \<Rightarrow> 'a stack sres" where
  "stack_rot data i =
     (let j = i * 3 in
      and_then (stack_require data j) (\<lambda>_.
        let to_remove = length data - j; limit = j - i in
        stack_rot_loop (j - limit) to_remove data))"

fun stack_swap_loop :: "nat \<Rightarrow> nat \<Rightarrow> nat \<Rightarrow> 'a stack \<Rightarrow> 'a stack sres" where
  "stack_swap_loop j 0 len data = Ok data"
| "stack_swap_loop j (Suc k) len data =
     and_then (vec_swap data (len - j) (len - Suc k)) (stack_swap_loop (j - 1) k len)"

definition stack_swap :: "'a stack \<Rightarrow> nat \<Rightarrow> 'a stack sres" where
  "stack_swap data i =
     and_then (stack_require data (i * 2)) (\<lambda>_. stack_swap_loop (i * 2) i (length data) data)"

definition stack_nip :: "'a stack \<Rightarrow> 'a stack sres" where
  "stack_nip data =
     and_then (stack_require data 2) (\<lambda>_. vec_swap_remove data (length data - 2))"

definition stack_tuck :: "'a stack \<Rightarrow> 'a stack sres" where
  "stack_tuck data =
     and_then (stack_require data 2) (\<lambda>_.
       and_then (index data (length data - 1)) (\<lambda>v. vec_insert data (length data - 2) v))"


section \<open>What the operations compute\<close>

lemma stack_require_Ok [simp]: "stack_require data n = Ok u \<longleftrightarrow> n \<le> length data"
  by (auto simp: stack_require_def)

lemma stack_require_not_Panic [simp]: "stack_require data n \<noteq> Panic"
  by (simp add: stack_require_def)

lemma stack_require_Err: "length data < n \<Longrightarrow> stack_require data n = Err InvalidStackOperation"
  by (simp add: stack_require_def)

lemma stack_last_Ok [simp]: "stack_last data = Ok v \<longleftrightarrow> data \<noteq> [] \<and> v = last data"
  by (auto simp: stack_last_def)

lemma stack_pop_Ok [simp]:
  "stack_pop data = Ok (v, data') \<longleftrightarrow> data \<noteq> [] \<and> v = last data \<and> data' = butlast data"
  by (auto simp: stack_pop_def)

lemma stack_top_eq:
  "stack_top data i =
     (if i < length data then Ok (data ! (length data - Suc i)) else Err InvalidStackOperation)"
  by (auto simp: stack_top_def stack_require_def from_end_def index_def)

lemma stack_remove_eq:
  "stack_remove data i =
     (if i < length data
      then Ok (data ! (length data - Suc i),
               take (length data - Suc i) data @ drop (length data - i) data)
      else Err InvalidStackOperation)"
  by (auto simp: stack_remove_def stack_require_def vec_remove_def Suc_diff_Suc)

lemma stack_drop_loop_eq: "stack_drop_loop j data = take (length data - j) data"
proof (induction j arbitrary: data)
  case (Suc j)
  then show ?case
    by (simp add: butlast_conv_take take_take min_def)
qed simp

lemma stack_drop_eq:
  "stack_drop data i =
     (if i \<le> length data then Ok (take (length data - i) data) else Err InvalidStackOperation)"
  by (auto simp: stack_drop_def stack_require_def stack_drop_loop_eq)

text \<open>
  Cloning \<open>k\<close> from the end over and over copies a window: each push moves the window
  by one.
\<close>

lemma stack_clone_loop_eq:
  assumes "k \<le> length data" and "j \<le> k"
  shows "stack_clone_loop j k data = Ok (data @ take j (drop (length data - k) data))"
  using assms
proof (induction j arbitrary: data k)
  case (Suc j)
  let ?n = "length data - k"
  have v: "from_end data k = Ok (data ! ?n)"
    using Suc.prems by (auto simp: from_end_def index_def)
  have "stack_clone_loop (Suc j) k data = stack_clone_loop j k (data @ [data ! ?n])"
    by (simp add: v)
  also have "\<dots> = Ok ((data @ [data ! ?n])
      @ take j (drop (length (data @ [data ! ?n]) - k) (data @ [data ! ?n])))"
    using Suc.prems by (intro Suc.IH) simp_all
  also have "drop (length (data @ [data ! ?n]) - k) (data @ [data ! ?n])
      = drop (Suc ?n) data @ [data ! ?n]"
    using Suc.prems by (simp add: Suc_diff_le)
  also have "take j (drop (Suc ?n) data @ [data ! ?n]) = take j (drop (Suc ?n) data)"
    using Suc.prems by (cases "j = k - 1") simp_all
  also have "(data @ [data ! ?n]) @ take j (drop (Suc ?n) data)
      = data @ take (Suc j) (drop ?n data)"
    using Suc.prems by (subst (2) Cons_nth_drop_Suc [symmetric]) simp_all
  finally show ?case .
qed simp

lemma stack_dup_eq:
  "stack_dup data i =
     (if i \<le> length data then Ok (data @ drop (length data - i) data)
      else Err InvalidStackOperation)"
  by (auto simp: stack_dup_def stack_require_def stack_clone_loop_eq)

lemma stack_over_eq:
  "stack_over data i =
     (if 2 * i \<le> length data then Ok (data @ take i (drop (length data - 2 * i) data))
      else Err InvalidStackOperation)"
  by (auto simp: stack_over_def stack_require_def stack_clone_loop_eq mult.commute)

lemma split_window:
  "n + i \<le> length data \<Longrightarrow> take n data @ take i (drop n data) @ drop (n + i) data = data"
  by (metis add.commute append_take_drop_id drop_drop)

text \<open>Moving the element at a fixed position to the end rotates everything above it.\<close>

lemma stack_rot_loop_eq:
  "stack_rot_loop (length a) (length pre) (pre @ a @ b) = Ok (pre @ b @ a)"
proof (induction a arbitrary: b)
  case (Cons x a)
  then show ?case using Cons.IH [of "b @ [x]"] by (simp add: vec_remove_def)
qed simp

lemma stack_rot_eq:
  "stack_rot data i =
     (if 3 * i \<le> length data
      then let n = length data - 3 * i in
        Ok (take n data @ drop (n + i) data @ take i (drop n data))
      else Err InvalidStackOperation)"
proof (cases "3 * i \<le> length data")
  case True
  let ?n = "length data - 3 * i"
  have "stack_rot data i = stack_rot_loop i ?n data"
    using True by (simp add: stack_rot_def stack_require_def Let_def mult.commute)
  also have "\<dots> = stack_rot_loop (length (take i (drop ?n data))) (length (take ?n data))
      (take ?n data @ take i (drop ?n data) @ drop (?n + i) data)"
    using True split_window [of ?n i data] by simp
  also have "\<dots> = Ok (take ?n data @ drop (?n + i) data @ take i (drop ?n data))"
    by (rule stack_rot_loop_eq)
  finally show ?thesis using True by (simp add: Let_def)
qed (simp add: stack_rot_def stack_require_def Let_def mult.commute)

text \<open>
  Each round exchanges the heads of two blocks of equal length and so moves the elements
  between them up by one.
\<close>

lemma vec_swap_blocks:
  "vec_swap (pre @ x # a @ m @ y # b) (length pre) (length pre + Suc (length a + length m))
   = Ok (pre @ y # a @ m @ x # b)"
  by (simp add: vec_swap_def nth_append list_update_append)

lemma stack_swap_loop_eq:
  assumes "length a = length b" and "len = length pre + length a + length m + length b"
  shows "stack_swap_loop (length a + length b + length m) (length b) len (pre @ a @ m @ b)
    = Ok (pre @ b @ m @ a)"
  using assms
proof (induction a b arbitrary: pre m rule: list_induct2)
  case (Cons x a y b)
  let ?data = "pre @ (x # a) @ m @ (y # b)"
  have "len - (length (x # a) + length (y # b) + length m) = length pre"
    and "len - Suc (length b) = length pre + Suc (length a + length m)"
    using Cons by simp_all
  then have "stack_swap_loop (length (x # a) + length (y # b) + length m) (length (y # b)) len ?data
      = stack_swap_loop (length a + length b + length (m @ [x])) (length b) len
          ((pre @ [y]) @ a @ (m @ [x]) @ b)"
    using vec_swap_blocks [of pre x a m y b] by simp
  also have "\<dots> = Ok ((pre @ [y]) @ b @ (m @ [x]) @ a)"
    using Cons.prems Cons.hyps by (intro Cons.IH) simp
  finally show ?case by simp
qed simp

lemma stack_swap_eq:
  "stack_swap data i =
     (if 2 * i \<le> length data
      then let n = length data - 2 * i in
        Ok (take n data @ drop (n + i) data @ take i (drop n data))
      else Err InvalidStackOperation)"
proof (cases "2 * i \<le> length data")
  case True
  let ?n = "length data - 2 * i"
  let ?pre = "take ?n data" and ?a = "take i (drop ?n data)" and ?b = "drop (?n + i) data"
  have l: "length ?a = i" "length ?b = i" "length ?pre = ?n" using True by simp_all
  have "stack_swap data i = stack_swap_loop (i * 2) i (length data) data"
    using True by (simp add: stack_swap_def stack_require_def mult.commute)
  also have "\<dots> = stack_swap_loop (length ?a + length ?b + length ([] :: 'a list)) (length ?b)
      (length data) (?pre @ ?a @ [] @ ?b)"
    using True split_window [of ?n i data] by (simp only: l) (simp add: mult_2_right)
  also have "\<dots> = Ok (?pre @ ?b @ [] @ ?a)"
    using True by (intro stack_swap_loop_eq) (simp_all add: l)
  finally show ?thesis using True by (simp add: Let_def)
qed (simp add: stack_swap_def stack_require_def mult.commute)

lemma two_on_top:
  assumes "2 \<le> length data"
  obtains pre a b where "data = pre @ [a, b]"
proof -
  from assms obtain xs b where d: "data = xs @ [b]" by (cases data rule: rev_cases) auto
  moreover from assms obtain pre a where "xs = pre @ [a]" unfolding d by (cases xs rule: rev_cases) auto
  ultimately show thesis by (intro that) simp
qed

lemma stack_nip_eq: "stack_nip (pre @ [a, b]) = Ok (pre @ [b])"
  by (simp add: stack_nip_def stack_require_def vec_swap_remove_def list_update_append butlast_append)

lemma stack_tuck_eq: "stack_tuck (pre @ [a, b]) = Ok (pre @ [b, a, b])"
  by (simp add: stack_tuck_def stack_require_def index_def vec_insert_def nth_append)


section \<open>Stack manipulation\<close>

text \<open>
  What the manipulation opcodes mean on the stack: with too few elements each of them
  fails, and otherwise the loops of the source, which index, remove and push one element
  at a time, rearrange whole blocks at the top.
\<close>

definition rearranged :: "nat \<Rightarrow> ('a list \<Rightarrow> 'a list) \<Rightarrow> 'a stack \<Rightarrow> 'a stack sres" where
  "rearranged n f data =
     (if n \<le> length data
      then Ok (take (length data - n) data @ f (drop (length data - n) data))
      else Err InvalidStackOperation)"

lemma nip_tuck_rearranged:
  "stack_nip data = rearranged 2 (\<lambda>w. [w ! 1]) data"
  "stack_tuck data = rearranged 2 (\<lambda>w. [w ! 1, w ! 0, w ! 1]) data"
proof (atomize (full), cases "2 \<le> length data")
  case True
  then obtain pre a b where d: "data = pre @ [a, b]" by (rule two_on_top)
  show "stack_nip data = rearranged 2 (\<lambda>w. [w ! 1]) data \<and>
    stack_tuck data = rearranged 2 (\<lambda>w. [w ! 1, w ! 0, w ! 1]) data"
    unfolding d by (simp add: stack_nip_eq stack_tuck_eq rearranged_def)
qed (simp add: stack_nip_def stack_tuck_def stack_require_def rearranged_def)

text \<open>
  The stack primitives never panic, whatever the stack and the block size, and they
  compute the rearrangements their names stand for: \<open>drop\<close> removes the top block, \<open>dup\<close>
  repeats it, \<open>over\<close> copies the second block to the top, \<open>rot\<close> moves the third block to the
  top, \<open>swap\<close> exchanges the two top blocks, \<open>nip\<close> removes the second element and \<open>tuck\<close>
  copies the top element below it; a stack that is too short is refused with
  \<open>InvalidStackOperation\<close>.
\<close>

theorem stack_manipulation:
  "stack_drop data i = rearranged i (\<lambda>_. []) data \<and>
   stack_dup data i = rearranged i (\<lambda>w. w @ w) data \<and>
   stack_over data i = rearranged (2 * i) (\<lambda>w. w @ take i w) data \<and>
   stack_rot data i = rearranged (3 * i) (\<lambda>w. drop i w @ take i w) data \<and>
   stack_swap data i = rearranged (2 * i) (\<lambda>w. drop i w @ take i w) data \<and>
   stack_nip data = rearranged 2 (\<lambda>w. [w ! 1]) data \<and>
   stack_tuck data = rearranged 2 (\<lambda>w. [w ! 1, w ! 0, w ! 1]) data"
proof (intro conjI)
  show "stack_drop data i = rearranged i (\<lambda>_. []) data"
    by (simp add: stack_drop_eq rearranged_def)
  show "stack_dup data i = rearranged i (\<lambda>w. w @ w) data"
    by (simp add: stack_dup_eq rearranged_def flip: append_assoc)
  show "stack_over data i = rearranged (2 * i) (\<lambda>w. w @ take i w) data"
    by (simp add: stack_over_eq rearranged_def flip: append_assoc)
  show "stack_rot data i = rearranged (3 * i) (\<lambda>w. drop i w @ take i w) data"
    by (simp add: stack_rot_eq rearranged_def Let_def add.commute)
  show "stack_swap data i = rearranged (2 * i) (\<lambda>w. drop i w @ take i w) data"
    by (simp add: stack_swap_eq rearranged_def Let_def add.commute)
  show "stack_nip data = rearranged 2 (\<lambda>w. [w ! 1]) data"
    and "stack_tuck data = rearranged 2 (\<lambda>w. [w ! 1, w ! 0, w ! 1]) data"
    by (rule nip_tuck_rearranged)+
qed

end
