(* ===== verification/Script_Num.thy ===== *)
theory Script_Num
  imports Opcodes "HOL-Library.Signed_Division"
begin

text \<open>
  Script numbers (\<open>script/src/num.rs\<close>): little-endian sign-magnitude byte strings of at most
  four bytes (five for lock times), computed with in an \<open>i64\<close>.

  A \<open>Num\<close> is the \<open>int\<close> held by its \<open>i64\<close>.  Arithmetic that leaves the \<open>i64\<close> range is a
  panic, as in a build with overflow checks; the bounds below show that operands read from
  the stack never come near it.
\<close>

section \<open>Definitions\<close>

type_synonym num = int

definition i64_range :: "int \<Rightarrow> bool" where
  "i64_range v \<longleftrightarrow> - (2 ^ 63) \<le> v \<and> v < 2 ^ 63"

definition checked_i64 :: "int \<Rightarrow> num sres" where
  "checked_i64 v = (if i64_range v then Ok v else Panic)"

text \<open>\<open>result |= (item as i64) << (8 * i)\<close>, byte after byte.\<close>

fun or_shifted :: "nat \<Rightarrow> int \<Rightarrow> bytes \<Rightarrow> int" where
  "or_shifted i result [] = result"
| "or_shifted i result (item # items) =
     or_shifted (Suc i) (result OR signed_take_bit 63 (push_bit (8 * i) (uint item))) items"

text \<open>
  A shift by 64 bits or more panics, which the loop reaches on the ninth byte; every caller
  passes a \<open>max_size\<close> of four or five.
\<close>

definition from_slice :: "bytes \<Rightarrow> bool \<Rightarrow> nat \<Rightarrow> num sres" where
  "from_slice data require_minimal max_size =
     (if length data > max_size then Err NumberOverflow
      else if data = [] then Ok 0
      else if require_minimal \<and> last data AND 0x7f = 0 \<and>
              (length data \<le> 1 \<or> data ! (length data - 2) AND 0x80 = 0)
      then Err NumberNotMinimallyEncoded
      else if length data > 8 then Panic
      else let result = or_shifted 0 0 data in
        if last data AND 0x80 \<noteq> 0
        then checked_i64 (- (result AND NOT (signed_take_bit 63 (push_bit (8 * (length data - 1)) 0x80))))
        else Ok result)"

text \<open>
  \<open>minimally_encode\<close> trims a byte string to its minimal form before it is read: the last
  byte carries the sign and is folded into (or kept above) the highest non-zero byte.
\<close>

definition minimally_encode :: "bytes \<Rightarrow> nat \<Rightarrow> num sres" where
  "minimally_encode data max_size =
     (if data = [] then from_slice data True max_size
      else let lst = last data in
        if lst \<noteq> 0x00 \<and> lst \<noteq> 0x80 then from_slice data True max_size
        else if length data = 1 then from_slice [] True max_size
        else if data ! (length data - 2) AND 0x80 = 0x80 then from_slice data True max_size
        else let trimmed = rev (dropWhile (\<lambda>x. x = 0x00) (rev (take (length data - 1) data))) in
          if trimmed = [] then from_slice [] True max_size
          else let second_last = last trimmed in
            if second_last AND 0x80 = 0x80 then from_slice (trimmed @ [lst]) True max_size
            else from_slice (butlast trimmed @ [second_last OR lst]) True max_size)"

text \<open>The bytes of the absolute value, lowest first, without leading zeros.\<close>

fun abs_bytes :: "nat \<Rightarrow> bytes" where
  "abs_bytes absvalue =
     (if absvalue > 0 then (word_of_nat absvalue AND 0xff) # abs_bytes (absvalue div 256) else [])"

declare abs_bytes.simps [simp del]

definition num_to_bytes :: "num \<Rightarrow> bytes sres" where
  "num_to_bytes value =
     (if value = 0 then Ok []
      else let negative = value < 0 in
        and_then (if negative then checked_i64 (- value) else Ok value) (\<lambda>absvalue.
          let result = abs_bytes (nat absvalue) in
          if last result AND 0x80 \<noteq> 0
          then Ok (result @ [if negative then 0x80 else 0])
          else if negative then Ok (butlast result @ [last result OR 0x80])
          else Ok result))"

definition is_negative :: "num \<Rightarrow> bool" where
  "is_negative value \<longleftrightarrow> value < 0"

definition is_zero :: "num \<Rightarrow> bool" where
  "is_zero value \<longleftrightarrow> value = 0"

definition num_abs :: "num \<Rightarrow> num sres" where
  "num_abs value = (if value < 0 then checked_i64 (- value) else Ok value)"

definition num_bitand :: "num \<Rightarrow> num \<Rightarrow> num" where
  "num_bitand a b = a AND b"

definition num_add :: "num \<Rightarrow> num \<Rightarrow> num sres" where
  "num_add a b = checked_i64 (a + b)"

definition num_sub :: "num \<Rightarrow> num \<Rightarrow> num sres" where
  "num_sub a b = checked_i64 (a - b)"

definition num_neg :: "num \<Rightarrow> num sres" where
  "num_neg a = checked_i64 (- a)"

text \<open>Rust's \<open>/\<close> and \<open>%\<close> on \<open>i64\<close> truncate towards zero and panic on a zero divisor.\<close>

definition num_div :: "num \<Rightarrow> num \<Rightarrow> num sres" where
  "num_div a b = (if b = 0 then Panic else checked_i64 (a sdiv b))"

definition num_rem :: "num \<Rightarrow> num \<Rightarrow> num sres" where
  "num_rem a b = (if b = 0 then Panic else if \<not> i64_range (a sdiv b) then Panic else Ok (a smod b))"

definition num_from_bool :: "bool \<Rightarrow> num" where
  "num_from_bool b = (if b then 1 else 0)"

definition num_from_usize :: "nat \<Rightarrow> num" where
  "num_from_usize i = signed_take_bit 63 (int i)"

definition num_to_u32 :: "num \<Rightarrow> u32" where
  "num_to_u32 n = word_of_int n"

definition num_to_usize :: "num \<Rightarrow> nat" where
  "num_to_usize n = nat (take_bit 64 n)"


section \<open>Sign-magnitude values\<close>

text \<open>The number a byte string denotes: its highest bit is the sign, the rest the magnitude.\<close>

definition sign_magnitude :: "bytes \<Rightarrow> int" where
  "sign_magnitude data =
     (if data = [] then 0
      else if 128 \<le> unat (last data)
      then - (int (le_nat data) - 2 ^ (8 * length data - 1))
      else int (le_nat data))"

text \<open>Minimal form: no byte could be dropped, and zero is the empty string.\<close>

definition minimal :: "bytes \<Rightarrow> bool" where
  "minimal data \<longleftrightarrow>
     data = [] \<or> unat (last data) mod 128 \<noteq> 0 \<or>
     (1 < length data \<and> 128 \<le> unat (data ! (length data - 2)))"

text \<open>The byte string \<open>minimally_encode\<close> reads in place of its argument.\<close>

definition minimal_form :: "bytes \<Rightarrow> bytes" where
  "minimal_form data =
     (if data = [] then data
      else if last data \<noteq> 0x00 \<and> last data \<noteq> 0x80 then data
      else if length data = 1 then []
      else if data ! (length data - 2) AND 0x80 = 0x80 then data
      else let trimmed = rev (dropWhile (\<lambda>x. x = 0x00) (rev (take (length data - 1) data))) in
        if trimmed = [] then []
        else if last trimmed AND 0x80 = 0x80 then trimmed @ [last data]
        else butlast trimmed @ [last trimmed OR last data])"


section \<open>Reading\<close>

lemma i64_range_iff: "i64_range v \<longleftrightarrow> - 9223372036854775808 \<le> v \<and> v < 9223372036854775808"
  by (simp add: i64_range_def)

lemma signed_take_bit_63: "0 \<le> x \<Longrightarrow> x < 2 ^ 63 \<Longrightarrow> signed_take_bit 63 x = (x :: int)"
  by (rule signed_take_bit_int_eq_self) simp_all

lemma or_shifted_eq:
  assumes "i + length data \<le> 7" and "0 \<le> result" and "result < 2 ^ (8 * i)"
  shows "or_shifted i result data = result + 2 ^ (8 * i) * int (le_nat data)"
  using assms
proof (induction i result data rule: or_shifted.induct)
  case (1 i result)
  show ?case by simp
next
  case (2 i result item items)
  let ?s = "push_bit (8 * i) (uint item)"
  have item: "uint item < 256" "0 \<le> uint item"
    using unsigned_less [of item, where 'a = int] by simp_all
  have s_eq: "?s = 2 ^ (8 * i) * uint item"
    by (simp add: push_bit_eq_mult)
  have "2 ^ (8 * i) * uint item < 2 ^ (8 * i) * 2 ^ 8"
    using item by (intro mult_strict_left_mono) simp_all
  also have "(2 :: int) ^ (8 * i) * 2 ^ 8 = 2 ^ (8 * Suc i)"
    by (simp only: power_add [symmetric] mult_Suc_right add.commute)
  finally have s_less: "?s < 2 ^ (8 * Suc i)" unfolding s_eq .
  also have "(2 :: int) ^ (8 * Suc i) \<le> 2 ^ 63"
    using "2.prems"(1) by (intro power_increasing) simp_all
  finally have "signed_take_bit 63 ?s = ?s"
    using item by (intro signed_take_bit_63) (simp_all add: s_eq)
  moreover have "result OR ?s = result + ?s"
  proof -
    have "result = take_bit (8 * i) result"
      using "2.prems" by (simp add: take_bit_int_eq_self)
    then show ?thesis
      by (metis concat_bit_def concat_bit_eq)
  qed
  ultimately have step: "result OR signed_take_bit 63 ?s = result + ?s" by simp
  have "result + ?s < 2 ^ (8 * Suc i)"
  proof -
    have "result + ?s < 2 ^ (8 * i) + 2 ^ (8 * i) * uint item"
      using "2.prems"(3) by (simp add: s_eq)
    also have "\<dots> = 2 ^ (8 * i) * (uint item + 1)"
      by (simp add: algebra_simps)
    also have "\<dots> \<le> 2 ^ (8 * i) * 2 ^ 8"
      using item by (intro mult_left_mono) simp_all
    finally show ?thesis by (simp add: power_add)
  qed
  with "2.IH" "2.prems" item
  have "or_shifted (Suc i) (result + ?s) items = result + ?s + 2 ^ (8 * Suc i) * int (le_nat items)"
    unfolding step by (simp add: s_eq)
  then show ?case
    unfolding or_shifted.simps step unfolding s_eq by (simp add: algebra_simps power_add)
qed

lemma le_nat_last_split:
  "data \<noteq> [] \<Longrightarrow> le_nat data = le_nat (butlast data) + 256 ^ (length data - 1) * unat (last data)"
  using le_nat_append [of "butlast data" "[last data]"] by simp

lemma top_bit_power:
  "data \<noteq> [] \<Longrightarrow> (2 :: 'a :: comm_semiring_1) ^ (8 * length data - 1) = 256 ^ (length data - 1) * 128"
proof -
  assume "data \<noteq> []"
  then have "8 * length data - 1 = 8 * (length data - 1) + 7" by (cases data) simp_all
  then show ?thesis by (simp add: power_add power_mult)
qed

lemma le_nat_top_bit:
  assumes "data \<noteq> []"
  shows "128 \<le> unat (last data) \<longleftrightarrow> 2 ^ (8 * length data - 1) \<le> le_nat data"
proof -
  let ?n = "length data - 1"
  have p: "(2 :: nat) ^ (8 * length data - 1) = 256 ^ ?n * 128"
    by (rule top_bit_power [OF assms])
  have low: "le_nat (butlast data) < 256 ^ ?n"
    using le_nat_less [of "butlast data"] by simp
  show ?thesis
  proof
    assume "128 \<le> unat (last data)"
    then have "256 ^ ?n * 128 \<le> 256 ^ ?n * unat (last data)" by simp
    then show "2 ^ (8 * length data - 1) \<le> le_nat data"
      unfolding p le_nat_last_split [OF assms] by linarith
  next
    assume le: "2 ^ (8 * length data - 1) \<le> le_nat data"
    show "128 \<le> unat (last data)"
    proof (rule ccontr)
      assume "\<not> 128 \<le> unat (last data)"
      then have "unat (last data) + 1 \<le> 128" by simp
      then have "256 ^ ?n * (unat (last data) + 1) \<le> 256 ^ ?n * 128"
        by (rule mult_le_mono2)
      with low have "le_nat data < 256 ^ ?n * 128"
        unfolding le_nat_last_split [OF assms] distrib_left by linarith
      with le p show False by simp
    qed
  qed
qed

lemma clear_top_bit:
  assumes "data \<noteq> []" and "length data \<le> 7" and "128 \<le> unat (last data)"
  shows "int (le_nat data) AND NOT (signed_take_bit 63 (push_bit (8 * (length data - 1)) 0x80))
       = int (le_nat data) - 2 ^ (8 * length data - 1)"
proof -
  let ?k = "8 * length data - 1"
  have k: "8 * (length data - 1) + 7 = ?k" using assms(1) by (cases data) simp_all
  have "push_bit (8 * (length data - 1)) (0x80 :: int) = push_bit (8 * (length data - 1)) (push_bit 7 1)"
    by simp
  also have "\<dots> = push_bit ?k 1"
    by (simp only: push_bit_push_bit k)
  finally have pb: "push_bit (8 * (length data - 1)) (0x80 :: int) = push_bit ?k 1" .
  have "signed_take_bit 63 (push_bit ?k (1 :: int)) = push_bit ?k 1"
  proof (rule signed_take_bit_63)
    have "?k < 63" using assms(2) by simp
    then have "(2 :: int) ^ ?k < 2 ^ 63" by (rule power_strict_increasing) simp
    then show "push_bit ?k (1 :: int) < 2 ^ 63" by (simp only: push_bit_eq_mult mult_1)
  qed (simp add: push_bit_eq_mult)
  then have "int (le_nat data) AND NOT (signed_take_bit 63 (push_bit (8 * (length data - 1)) 0x80))
      = unset_bit ?k (int (le_nat data))"
    unfolding pb by (simp add: unset_bit_eq_and_not)
  also have "\<dots> = int (le_nat data) - of_bool (bit (int (le_nat data)) ?k) * 2 ^ ?k"
    by (rule unset_bit_eq)
  also have "of_bool (bit (int (le_nat data)) ?k) = (1 :: int)"
  proof -
    have "2 ^ ?k \<le> le_nat data" using assms le_nat_top_bit by blast
    moreover have "le_nat data < 2 * 2 ^ ?k"
    proof -
      have "le_nat data < 256 ^ length data" by (rule le_nat_less)
      also have "(256 :: nat) ^ length data = 2 ^ (8 * length data)" by (simp add: power_mult)
      also have "8 * length data = Suc ?k" using assms(1) by (cases data) simp_all
      finally show ?thesis by (simp only: power_Suc)
    qed
    ultimately have "le_nat data div 2 ^ ?k = 1"
      by (intro div_nat_eqI) simp_all
    then have "bit (le_nat data) ?k" by (simp add: bit_iff_odd)
    then show ?thesis by (simp only: bit_of_nat_iff_bit of_bool_eq)
  qed
  finally show ?thesis by simp
qed


lemma from_slice_eq:
  assumes "length data \<le> max_size" and "length data \<le> 7"
  shows "from_slice data require_minimal max_size =
    (if require_minimal \<and> \<not> minimal data then Err NumberNotMinimallyEncoded
     else Ok (sign_magnitude data))"
proof (cases "data = []")
  case True
  then show ?thesis by (simp add: from_slice_def minimal_def sign_magnitude_def)
next
  case False
  have loop: "or_shifted 0 0 data = int (le_nat data)"
    using or_shifted_eq [of 0 data 0] assms(2) by simp
  have bound: "le_nat data < 2 ^ 56"
  proof -
    have "le_nat data < 256 ^ length data" by (rule le_nat_less)
    also have "(256 :: nat) ^ length data \<le> 256 ^ 7"
      using assms(2) by (rule power_increasing) simp
    finally show ?thesis by simp
  qed
  have guard: "last data AND 0x7f = 0 \<and> (length data \<le> 1 \<or> data ! (length data - 2) AND 0x80 = 0)
      \<longleftrightarrow> \<not> minimal data"
    using False by (auto simp: minimal_def u8_low_bits u8_high_bit)
  have lens: "\<not> max_size < length data" "\<not> 8 < length data" using assms by simp_all
  show ?thesis
  proof (cases "require_minimal \<and> \<not> minimal data")
    case True
    then show ?thesis unfolding from_slice_def guard using False lens by simp
  next
    case ok: False
    show ?thesis
    proof (cases "128 \<le> unat (last data)")
      case True
      then have "2 ^ (8 * length data - 1) \<le> int (le_nat data)"
        using le_nat_top_bit [OF False] by (metis of_nat_le_iff of_nat_numeral of_nat_power)
      moreover have "int (le_nat data) < 9223372036854775808"
        using bound by simp
      moreover have "(0 :: int) < 2 ^ (8 * length data - 1)" by simp
      ultimately have "i64_range (- (int (le_nat data) - 2 ^ (8 * length data - 1)))"
        unfolding i64_range_iff by (intro conjI) linarith+
      moreover have "last data AND 0x80 \<noteq> 0" using True by (simp add: u8_high_bit)
      ultimately show ?thesis
        unfolding from_slice_def guard loop clear_top_bit [OF False assms(2) True] Let_def checked_i64_def
          sign_magnitude_def
        using False lens ok True by simp
    next
      case low: False
      then have "last data AND 0x80 = 0" by (simp add: u8_high_bit)
      then show ?thesis
        unfolding from_slice_def guard loop Let_def sign_magnitude_def using False lens ok low by simp
    qed
  qed
qed

lemma from_slice_not_Panic: "max_size \<le> 7 \<Longrightarrow> from_slice data m max_size \<noteq> Panic"
  by (cases "length data \<le> max_size") (auto simp: from_slice_eq, simp add: from_slice_def)

lemma from_slice_eq_Ok:
  assumes "max_size \<le> 7"
  shows "from_slice data m max_size = Ok v \<longleftrightarrow>
    length data \<le> max_size \<and> (m \<longrightarrow> minimal data) \<and> v = sign_magnitude data"
proof (cases "length data \<le> max_size")
  case True
  with assms show ?thesis by (auto simp: from_slice_eq)
next
  case False
  then show ?thesis by (simp add: from_slice_def)
qed

lemma sign_magnitude_bound:
  assumes "data \<noteq> []"
  shows "\<bar>sign_magnitude data\<bar> < 2 ^ (8 * length data - 1)"
proof -
  let ?k = "8 * length data - 1"
  have k: "8 * length data = Suc ?k" using assms by (cases data) simp_all
  have "le_nat data < 256 ^ length data" by (rule le_nat_less)
  also have "(256 :: nat) ^ length data = 2 ^ (8 * length data)" by (simp add: power_mult)
  finally have upper: "le_nat data < 2 * 2 ^ ?k" using k by (metis power_Suc)
  have int_pow: "int (2 ^ ?k) = 2 ^ ?k" by simp
  show ?thesis
  proof (cases "128 \<le> unat (last data)")
    case True
    then have "2 ^ ?k \<le> le_nat data" using le_nat_top_bit [OF assms] by blast
    with upper have "\<bar>int (le_nat data) - int (2 ^ ?k)\<bar> < int (2 ^ ?k)" by linarith
    with True assms show ?thesis by (simp add: sign_magnitude_def)
  next
    case False
    then have "le_nat data < 2 ^ ?k" using le_nat_top_bit [OF assms] by simp
    then have "int (le_nat data) < int (2 ^ ?k)" by (simp only: of_nat_less_iff)
    with False assms show ?thesis by (simp add: sign_magnitude_def)
  qed
qed

lemma from_slice_range:
  assumes "from_slice data m max_size = Ok v" and "max_size \<le> 7"
  shows "\<bar>v\<bar> < 2 ^ (8 * max_size - 1)"
proof (cases "data = []")
  case True
  with assms show ?thesis by (simp add: from_slice_def)
next
  case False
  from assms have len: "length data \<le> max_size" and v: "v = sign_magnitude data"
    by (simp_all add: from_slice_eq_Ok)
  have "\<bar>v\<bar> < 2 ^ (8 * length data - 1)" unfolding v by (rule sign_magnitude_bound [OF False])
  also have "(2 :: int) ^ (8 * length data - 1) \<le> 2 ^ (8 * max_size - 1)"
    using len by (intro power_increasing) simp_all
  finally show ?thesis .
qed


section \<open>Writing\<close>

lemma abs_bytes_0 [simp]: "abs_bytes 0 = []"
  by (simp add: abs_bytes.simps)

lemma abs_bytes_pos: "0 < n \<Longrightarrow> abs_bytes n = word_of_nat n # abs_bytes (n div 256)"
  by (subst abs_bytes.simps) simp

lemma abs_bytes_eq_Nil [simp]: "abs_bytes n = [] \<longleftrightarrow> n = 0"
  by (cases "n = 0") (simp_all add: abs_bytes_pos)

lemma le_nat_abs_bytes [simp]: "le_nat (abs_bytes n) = n"
proof (induction n rule: abs_bytes.induct)
  case (1 n)
  then show ?case
    by (cases "n = 0") (simp_all add: abs_bytes_pos unat_word_of_nat_u8)
qed

lemma last_abs_bytes: "0 < n \<Longrightarrow> last (abs_bytes n) \<noteq> 0"
proof (induction n rule: abs_bytes.induct)
  case (1 n)
  show ?case
  proof (cases "n div 256 = 0")
    case True
    then have "n < 256" by simp
    with "1.prems" True have "unat (word_of_nat n :: u8) \<noteq> 0" by (simp add: unat_word_of_nat_u8)
    then have "(word_of_nat n :: u8) \<noteq> 0" by (metis unat_0)
    with "1.prems" True show ?thesis by (simp add: abs_bytes_pos)
  next
    case False
    with 1 show ?thesis by (simp add: abs_bytes_pos)
  qed
qed

lemma abs_bytes_le_nat: "xs = [] \<or> last xs \<noteq> 0 \<Longrightarrow> abs_bytes (le_nat xs) = xs"
proof (induction xs)
  case Nil
  show ?case by simp
next
  case (Cons b xs)
  have pos: "0 < le_nat (b # xs)"
  proof (cases "xs = []")
    case True
    with Cons.prems have "unat b \<noteq> 0" by (simp add: unat_eq_zero)
    then show ?thesis by simp
  next
    case False
    with Cons have "abs_bytes (le_nat xs) \<noteq> []" by simp
    then show ?thesis by simp
  qed
  have "abs_bytes (le_nat xs) = xs"
    using Cons by (cases "xs = []") simp_all
  moreover have "le_nat (b # xs) div 256 = le_nat xs" using unat_u8_less [of b] by simp
  moreover have "(word_of_nat (le_nat (b # xs)) :: u8) = b"
  proof -
    have "unat (word_of_nat (le_nat (b # xs)) :: u8) = le_nat (b # xs) mod 256"
      by (rule unat_word_of_nat_u8)
    also have "\<dots> = unat b" using unat_u8_less [of b] by simp
    finally show ?thesis by (rule unsigned_word_eqI)
  qed
  ultimately show ?case using pos by (simp add: abs_bytes_pos del: le_nat.simps)
qed

lemma length_abs_bytes: "n < 256 ^ k \<Longrightarrow> length (abs_bytes n) \<le> k"
proof (induction k arbitrary: n)
  case 0
  then show ?case by simp
next
  case (Suc k)
  show ?case
  proof (cases "n = 0")
    case False
    have "n div 256 < 256 ^ k" using Suc.prems by (simp add: less_mult_imp_div_less mult.commute)
    with Suc.IH False show ?thesis by (simp add: abs_bytes_pos)
  qed simp
qed

text \<open>The magnitude is the byte string with its highest bit cleared.\<close>

lemma sign_magnitude_split:
  assumes "data \<noteq> []"
  shows "sign_magnitude data =
    (if 128 \<le> unat (last data) then - 1 else 1) * int (le_nat (butlast data @ [last data AND 0x7f]))"
proof -
  let ?b = "last data"
  have low: "le_nat (butlast data @ [?b AND 0x7f])
      = le_nat (butlast data) + 256 ^ (length data - 1) * (unat ?b mod 128)"
    by (simp add: le_nat_append u8_and_low)
  have "le_nat data = le_nat (butlast data) + 256 ^ (length data - 1) * unat ?b"
    by (rule le_nat_last_split [OF assms])
  also have "unat ?b = unat ?b mod 128 + (if 128 \<le> unat ?b then 128 else 0)"
    using unat_u8_less [of ?b] by (auto simp: mod_if)
  finally have "le_nat data = le_nat (butlast data @ [?b AND 0x7f])
      + 256 ^ (length data - 1) * (if 128 \<le> unat ?b then 128 else 0)"
    unfolding low distrib_left by simp
  then show ?thesis
    using assms top_bit_power [OF assms, where 'a = int] by (simp add: sign_magnitude_def)
qed

lemma minimal_zero_top:
  assumes "minimal data" and "data \<noteq> []" and "unat (last data) mod 128 = 0"
  shows "butlast data \<noteq> [] \<and> 128 \<le> unat (last (butlast data))"
proof -
  from assms have "1 < length data" and "128 \<le> unat (data ! (length data - 2))"
    by (auto simp: minimal_def)
  then show ?thesis
    by (auto simp: last_conv_nth nth_butlast numeral_2_eq_2 simp flip: length_greater_0_conv)
qed

lemma minimal_magnitude_pos:
  assumes "minimal data" and "data \<noteq> []"
  shows "0 < le_nat (butlast data @ [last data AND 0x7f])"
proof (cases "unat (last data) mod 128 = 0")
  case True
  have "butlast data \<noteq> []" and "128 \<le> unat (last (butlast data))"
    using minimal_zero_top [OF assms True] by simp_all
  then have "0 < le_nat (butlast data)" using le_nat_last_split [of "butlast data"] by simp
  then show ?thesis by (simp add: le_nat_append)
next
  case False
  then show ?thesis by (simp add: le_nat_append u8_and_low)
qed

text \<open>Writing a magnitude and a sign: the sign bit is put on the last byte, or on a new one.\<close>

definition put_sign :: "bool \<Rightarrow> bytes \<Rightarrow> bytes" where
  "put_sign negative result =
     (if 128 \<le> unat (last result) then result @ [if negative then 0x80 else 0]
      else if negative then butlast result @ [last result OR 0x80] else result)"

lemma num_to_bytes_put_sign:
  assumes "\<bar>v\<bar> < 2 ^ 63" and "v \<noteq> 0"
  shows "num_to_bytes v = Ok (put_sign (v < 0) (abs_bytes (nat \<bar>v\<bar>)))"
proof -
  have abs: "(if v < 0 then checked_i64 (- v) else Ok v) = Ok \<bar>v\<bar>"
    using assms by (auto simp: checked_i64_def i64_range_def)
  show ?thesis
    using assms(2) unfolding num_to_bytes_def abs Let_def and_then.simps put_sign_def
    by (simp add: u8_high_bit not_less)
qed

text \<open>The number that a number's bytes denote is the number, and the bytes are minimal.\<close>

lemma le_nat_snoc_0: "le_nat (xs @ [0]) = le_nat xs"
  by (simp add: le_nat_append)

lemma put_sign_sound:
  assumes "r \<noteq> []" and "last r \<noteq> 0"
  shows "sign_magnitude (put_sign negative r) = (if negative then - 1 else 1) * int (le_nat r)"
    and "minimal (put_sign negative r)"
proof -
  have nz: "unat (last r) \<noteq> 0" using assms(2) by (simp add: unat_eq_zero)
  have r: "butlast r @ [last r] = r" using assms(1) by simp
  have low: "last r AND 0x7f = last r" "(last r OR 0x80) AND 0x7f = last r" if "\<not> 128 \<le> unat (last r)"
    using that
    by (auto intro!: unsigned_word_eqI [where 'a = nat] simp: u8_and_low u8_set_high_bit)
  have ne: "put_sign negative r \<noteq> []" using assms(1) by (simp add: put_sign_def)
  show "sign_magnitude (put_sign negative r) = (if negative then - 1 else 1) * int (le_nat r)"
    using assms(1) low unfolding sign_magnitude_split [OF ne]
    by (auto simp: put_sign_def le_nat_snoc_0 u8_set_high_bit r)
  show "minimal (put_sign negative r)"
    using assms(1) nz
    by (auto simp: minimal_def put_sign_def u8_set_high_bit nth_append last_conv_nth)
qed

lemma length_put_sign: "r \<noteq> [] \<Longrightarrow> length (put_sign negative r) \<le> Suc (length r)"
  by (simp add: put_sign_def)

lemma num_to_bytes_sound:
  assumes "\<bar>v\<bar> < 2 ^ 63"
  obtains bs where "num_to_bytes v = Ok bs" and "sign_magnitude bs = v" and "minimal bs"
    and "length bs \<le> 9"
proof (cases "v = 0")
  case True
  then show thesis
    by (intro that [of "[]"]) (simp_all add: num_to_bytes_def sign_magnitude_def minimal_def)
next
  case False
  let ?r = "abs_bytes (nat \<bar>v\<bar>)"
  let ?bs = "put_sign (v < 0) ?r"
  have r: "?r \<noteq> []" "last ?r \<noteq> 0" using False by (simp_all add: last_abs_bytes)
  have "nat \<bar>v\<bar> < 256 ^ 8" using assms by simp
  then have "length ?r \<le> 8" by (rule length_abs_bytes)
  with length_put_sign [OF r(1), of "v < 0"] have "length ?bs \<le> 9" by simp
  moreover have "num_to_bytes v = Ok ?bs" by (rule num_to_bytes_put_sign [OF assms False])
  moreover have "sign_magnitude ?bs = v" using put_sign_sound(1) [OF r, of "v < 0"] by simp
  moreover have "minimal ?bs" by (rule put_sign_sound(2) [OF r])
  ultimately show thesis by (intro that)
qed

lemma put_sign_minimal:
  assumes "minimal data" and "data \<noteq> []"
  shows "put_sign (128 \<le> unat (last data)) (abs_bytes (le_nat (butlast data @ [last data AND 0x7f]))) = data"
proof (cases "unat (last data) mod 128 = 0")
  case True
  have ne: "butlast data \<noteq> []" and top: "128 \<le> unat (last (butlast data))"
    using minimal_zero_top [OF assms True] by simp_all
  have "le_nat (butlast data @ [last data AND 0x7f]) = le_nat (butlast data)"
    using True by (simp add: le_nat_append u8_and_low)
  moreover have "abs_bytes (le_nat (butlast data)) = butlast data"
    using top by (intro abs_bytes_le_nat) auto
  moreover have "(if 128 \<le> unat (last data) then 0x80 else 0) = last data"
    using True unat_u8_less [of "last data"]
    by (intro unsigned_word_eqI [where 'a = nat]) (auto simp: mod_if split: if_splits)
  ultimately show ?thesis using top assms(2) by (simp add: put_sign_def)
next
  case False
  let ?c = "last data AND 0x7f"
  have "?c \<noteq> 0" using False by (simp add: u8_low_bits)
  then have "abs_bytes (le_nat (butlast data @ [?c])) = butlast data @ [?c]"
    by (intro abs_bytes_le_nat) simp
  moreover have "\<not> 128 \<le> unat ?c" by (simp add: u8_and_low not_le)
  moreover have "(if 128 \<le> unat (last data) then ?c OR 0x80 else ?c) = last data"
    using unat_u8_less [of "last data"]
    by (intro unsigned_word_eqI [where 'a = nat]) (auto simp: u8_set_high_bit u8_and_low mod_if)
  ultimately show ?thesis using assms(2) by (auto simp: put_sign_def)
qed

text \<open>A minimal byte string is the encoding of the number it denotes.\<close>

lemma num_to_bytes_of_minimal:
  assumes "minimal data" and "length data \<le> 7"
  shows "num_to_bytes (sign_magnitude data) = Ok data"
proof (cases "data = []")
  case True
  then show ?thesis by (simp add: sign_magnitude_def num_to_bytes_def)
next
  case False
  let ?m = "le_nat (butlast data @ [last data AND 0x7f])"
  let ?v = "sign_magnitude data"
  have m: "0 < ?m" by (rule minimal_magnitude_pos [OF assms(1) False])
  have v: "nat \<bar>?v\<bar> = ?m" "?v < 0 \<longleftrightarrow> 128 \<le> unat (last data)" "?v \<noteq> 0"
    using m unfolding sign_magnitude_split [OF False] by auto
  have "\<bar>?v\<bar> < 2 ^ (8 * length data - 1)" by (rule sign_magnitude_bound [OF False])
  also have "(2 :: int) ^ (8 * length data - 1) \<le> 2 ^ 63"
    using assms(2) by (intro power_increasing) simp_all
  finally have "num_to_bytes ?v = Ok (put_sign (?v < 0) (abs_bytes (nat \<bar>?v\<bar>)))"
    using v(3) by (rule num_to_bytes_put_sign)
  then show ?thesis by (simp only: v(1,2) put_sign_minimal [OF assms(1) False])
qed


section \<open>Minimal form\<close>

lemma minimally_encode_from_slice:
  "minimally_encode data max_size = from_slice (minimal_form data) True max_size"
  by (simp add: minimally_encode_def minimal_form_def Let_def)

lemma le_nat_strip_zeros: "le_nat (rev (dropWhile (\<lambda>x. x = 0) (rev xs))) = le_nat xs"
  by (induction xs rule: rev_induct) (simp_all add: le_nat_snoc_0)

lemma last_strip_zeros:
  "rev (dropWhile (\<lambda>x. x = 0) (rev xs)) \<noteq> [] \<Longrightarrow> last (rev (dropWhile (\<lambda>x. x = 0) (rev xs))) \<noteq> (0 :: u8)"
  using hd_dropWhile [of "\<lambda>x. x = 0" "rev xs"] by (simp add: last_rev)

lemma sign_byte:
  assumes "data \<noteq> []" and "last data = 0x00 \<or> last data = 0x80"
  shows "sign_magnitude data = (if last data = 0x80 then - 1 else 1) * int (le_nat (butlast data))"
  using assms(2) unfolding sign_magnitude_split [OF assms(1)] by (auto simp: le_nat_snoc_0)

lemma minimal_form_cases:
  assumes "data \<noteq> []" and "last data = 0x00 \<or> last data = 0x80" and "length data \<noteq> 1"
    and "\<not> 128 \<le> unat (data ! (length data - 2))"
  defines "trimmed \<equiv> rev (dropWhile (\<lambda>x. x = 0x00) (rev (butlast data)))"
  shows "minimal_form data = (if trimmed = [] then [] else put_sign (last data = 0x80) trimmed)"
proof -
  have t: "rev (dropWhile (\<lambda>x. x = 0x00) (rev (take (length data - 1) data))) = trimmed"
    by (simp add: trimmed_def butlast_conv_take)
  show ?thesis
    unfolding minimal_form_def t Let_def put_sign_def
    using assms(1-4) by (auto simp: u8_and_high)
qed

lemma minimal_form_sound:
  "sign_magnitude (minimal_form data) = sign_magnitude data \<and> minimal (minimal_form data)"
proof (cases "data = [] \<or> \<not> (last data = 0x00 \<or> last data = 0x80)")
  case True
  moreover have "unat (last data) mod 128 \<noteq> 0" if "last data \<noteq> 0" "last data \<noteq> 0x80"
  proof
    assume "unat (last data) mod 128 = 0"
    then have "unat (last data) = 0 \<or> unat (last data) = 128"
      using unat_u8_less [of "last data"] by (auto simp: mod_if split: if_splits)
    then have "unat (last data) = unat (0 :: u8) \<or> unat (last data) = unat (0x80 :: u8)" by simp
    with that show False by (metis unsigned_word_eqI)
  qed
  ultimately show ?thesis by (auto simp: minimal_form_def minimal_def)
next
  case False
  then have ne: "data \<noteq> []" and sgn: "last data = 0x00 \<or> last data = 0x80" by auto
  show ?thesis
  proof (cases "length data = 1 \<or> 128 \<le> unat (data ! (length data - 2))")
    case True
    with ne sgn show ?thesis
      by (cases data rule: rev_cases)
        (auto simp: minimal_form_def minimal_def sign_magnitude_def u8_and_high)
  next
    case False
    define t where "t = rev (dropWhile (\<lambda>x. x = 0x00) (rev (butlast data)))"
    have val: "sign_magnitude data = (if last data = 0x80 then - 1 else 1) * int (le_nat t)"
      unfolding t_def le_nat_strip_zeros by (rule sign_byte [OF ne sgn])
    have form: "minimal_form data = (if t = [] then [] else put_sign (last data = 0x80) t)"
      unfolding t_def using False by (intro minimal_form_cases ne sgn) auto
    show ?thesis
    proof (cases "t = []")
      case True
      then show ?thesis unfolding form val by (simp add: sign_magnitude_def minimal_def)
    next
      case False
      then have "last t \<noteq> 0" unfolding t_def by (rule last_strip_zeros)
      with False show ?thesis unfolding form val by (simp add: put_sign_sound)
    qed
  qed
qed

lemma minimally_encode_not_Panic: "max_size \<le> 7 \<Longrightarrow> minimally_encode data max_size \<noteq> Panic"
  by (simp add: minimally_encode_from_slice from_slice_not_Panic)

lemma minimally_encode_eq_Ok:
  "max_size \<le> 7 \<Longrightarrow> minimally_encode data max_size = Ok v \<longleftrightarrow>
     length (minimal_form data) \<le> max_size \<and> v = sign_magnitude data"
  using minimal_form_sound [of data]
  by (auto simp: minimally_encode_from_slice from_slice_eq_Ok)


section \<open>Lengths\<close>

lemma minimal_lower_bound:
  assumes "minimal data" and "data \<noteq> []"
  shows "2 ^ (8 * (length data - 1) - 1) \<le> \<bar>sign_magnitude data\<bar>"
proof -
  let ?n = "length data - 1"
  have m: "\<bar>sign_magnitude data\<bar> = int (le_nat (butlast data) + 256 ^ ?n * (unat (last data) mod 128))"
  proof -
    have abs: "\<bar>(if c then - 1 else 1) * int x\<bar> = int x" for c x by simp
    show ?thesis
      unfolding sign_magnitude_split [OF assms(2)] abs by (simp add: le_nat_append u8_and_low)
  qed
  have "2 ^ (8 * ?n - 1) \<le> le_nat (butlast data) + 256 ^ ?n * (unat (last data) mod 128)"
  proof (cases "unat (last data) mod 128 = 0")
    case True
    note top = minimal_zero_top [OF assms True]
    then have "2 ^ (8 * length (butlast data) - 1) \<le> le_nat (butlast data)"
      using le_nat_top_bit by blast
    then show ?thesis by simp
  next
    case False
    have "(2 :: nat) ^ (8 * ?n - 1) \<le> 2 ^ (8 * ?n)" by (rule power_increasing) simp_all
    also have "\<dots> = 256 ^ ?n" by (simp add: power_mult)
    also have "\<dots> \<le> 256 ^ ?n * (unat (last data) mod 128)" using False by simp
    finally show ?thesis by simp
  qed
  then show ?thesis unfolding m by (metis of_nat_le_iff of_nat_numeral of_nat_power)
qed

lemma minimal_length_iff:
  assumes "minimal data"
  shows "length data \<le> k \<longleftrightarrow> \<bar>sign_magnitude data\<bar> < 2 ^ (8 * k - 1)"
proof (cases "data = []")
  case True
  then show ?thesis by (simp add: sign_magnitude_def)
next
  case False
  show ?thesis
  proof
    assume "length data \<le> k"
    then have "(2 :: int) ^ (8 * length data - 1) \<le> 2 ^ (8 * k - 1)"
      by (intro power_increasing) simp_all
    then show "\<bar>sign_magnitude data\<bar> < 2 ^ (8 * k - 1)"
      using sign_magnitude_bound [OF False] by linarith
  next
    assume bound: "\<bar>sign_magnitude data\<bar> < 2 ^ (8 * k - 1)"
    show "length data \<le> k"
    proof (rule ccontr)
      assume "\<not> length data \<le> k"
      then have "(2 :: int) ^ (8 * k - 1) \<le> 2 ^ (8 * (length data - 1) - 1)"
        by (intro power_increasing) simp_all
      with bound minimal_lower_bound [OF assms False] show False by linarith
    qed
  qed
qed


section \<open>Operands and results\<close>

text \<open>A value of a four-byte operand, and of a result of one operation on such operands.\<close>

definition operand :: "num \<Rightarrow> bool" where
  "operand v \<longleftrightarrow> \<bar>v\<bar> < 2 ^ 31"

definition result_num :: "num \<Rightarrow> bool" where
  "result_num v \<longleftrightarrow> \<bar>v\<bar> < 2 ^ 39"

lemma from_slice_operand: "from_slice data m 4 = Ok v \<Longrightarrow> operand v"
  using from_slice_range [of data m 4 v] by (simp add: operand_def)

lemma minimally_encode_operand: "minimally_encode data 4 = Ok v \<Longrightarrow> operand v"
  unfolding minimally_encode_from_slice by (rule from_slice_operand)

lemma operand_result: "operand v \<Longrightarrow> result_num v"
  by (simp add: operand_def result_num_def)

lemma num_from_bool_result [simp]: "result_num (num_from_bool b)" "operand (num_from_bool b)"
  by (simp_all add: num_from_bool_def result_num_def operand_def)

lemma checked_i64_result: "result_num v \<Longrightarrow> checked_i64 v = Ok v"
  by (auto simp: checked_i64_def i64_range_def result_num_def)

lemma operand_arith:
  assumes "operand a" and "operand b"
  shows "num_add a b = Ok (a + b)" "result_num (a + b)"
    and "num_sub a b = Ok (a - b)" "result_num (a - b)"
    and "num_neg a = Ok (- a)" "result_num (- a)"
    and "num_abs a = Ok \<bar>a\<bar>" "result_num \<bar>a\<bar>"
  using assms
  by (simp_all add: num_add_def num_sub_def num_neg_def num_abs_def checked_i64_def i64_range_iff
      operand_def result_num_def abs_if split: if_splits)

lemma abs_sdiv: "\<bar>a sdiv b\<bar> = \<bar>a\<bar> div \<bar>b :: int\<bar>"
  by (cases "b = 0"; cases "a = 0")
    (simp_all add: signed_divide_int_def abs_mult abs_sgn_eq pos_imp_zdiv_nonneg_iff)

lemma abs_sdiv_le: "\<bar>a sdiv b\<bar> \<le> \<bar>a :: int\<bar>"
  using zdiv_mono2 [of "\<bar>a\<bar>" 1 "\<bar>b\<bar>"] by (cases "b = 0") (simp_all add: abs_sdiv)

lemma abs_smod_le: "\<bar>a smod b\<bar> \<le> \<bar>a :: int\<bar>"
proof (cases "b = 0")
  case False
  have "\<bar>a\<bar> mod \<bar>b\<bar> \<le> \<bar>a\<bar>" by (rule zmod_le_nonneg_dividend) simp
  with False show ?thesis by (simp add: signed_modulo_int_def abs_mult abs_sgn_eq)
qed (simp add: signed_modulo_int_def abs_mult abs_sgn_eq)

lemma operand_div:
  assumes "operand a" and "b \<noteq> 0"
  shows "num_div a b = Ok (a sdiv b)" "result_num (a sdiv b)"
    and "num_rem a b = Ok (a smod b)" "result_num (a smod b)"
proof -
  have "\<bar>a sdiv b\<bar> < 2147483648" and "\<bar>a smod b\<bar> < 2147483648"
    using assms(1) abs_sdiv_le [of a b] abs_smod_le [of a b] unfolding operand_def by simp_all
  then show "num_div a b = Ok (a sdiv b)" "result_num (a sdiv b)"
    "num_rem a b = Ok (a smod b)" "result_num (a smod b)"
    using assms(2)
    by (simp_all add: num_div_def num_rem_def checked_i64_def i64_range_iff result_num_def abs_if
        split: if_splits)
qed

lemma result_num_to_bytes:
  assumes "result_num v"
  obtains bs where "num_to_bytes v = Ok bs" and "length bs \<le> 5"
proof -
  have "\<bar>v\<bar> < 2 ^ 63" using assms by (simp add: result_num_def)
  then obtain bs where "num_to_bytes v = Ok bs" "sign_magnitude bs = v" "minimal bs"
    by (rule num_to_bytes_sound)
  with assms minimal_length_iff [of bs 5] show thesis
    by (intro that) (simp_all add: result_num_def)
qed


section \<open>Properties\<close>

text \<open>
  C30. Script numbers are encoded canonically: with minimal encoding required, \<open>from_slice\<close>
  accepts a byte string as the number \<open>v\<close> exactly when \<open>to_bytes\<close> writes that very byte
  string for \<open>v\<close> and \<open>v\<close> fits in \<open>k\<close> bytes.  So reading what was written gives the number
  back, no two byte strings are the same number, and an operand is in the range
  \<open>[-2^31 + 1 .. 2^31 - 1]\<close> that the documentation of \<open>Num\<close> promises (\<open>k = 4\<close>).
\<close>

theorem num_codec_canonical:
  assumes "k \<le> 7"
  shows "from_slice data True k = Ok v \<longleftrightarrow> num_to_bytes v = Ok data \<and> \<bar>v\<bar> < 2 ^ (8 * k - 1)"
proof
  assume r: "from_slice data True k = Ok v"
  then have "length data \<le> k" "minimal data" "v = sign_magnitude data"
    using assms by (simp_all add: from_slice_eq_Ok)
  with assms minimal_length_iff [of data k] show "num_to_bytes v = Ok data \<and> \<bar>v\<bar> < 2 ^ (8 * k - 1)"
    by (simp add: num_to_bytes_of_minimal)
next
  assume w: "num_to_bytes v = Ok data \<and> \<bar>v\<bar> < 2 ^ (8 * k - 1)"
  have "(2 :: int) ^ (8 * k - 1) \<le> 2 ^ 63" using assms by (intro power_increasing) simp_all
  with w have "\<bar>v\<bar> < 2 ^ 63" by linarith
  then obtain bs where "num_to_bytes v = Ok bs" "sign_magnitude bs = v" "minimal bs"
    by (rule num_to_bytes_sound)
  with w assms show "from_slice data True k = Ok v"
    by (auto simp: from_slice_eq_Ok minimal_length_iff)
qed

theorem num_codec_canonical_witness: "from_slice [0xff, 0x80] True 4 = Ok (- 255)"
proof -
  have "num_to_bytes (- 255) = Ok [0xff, 0x80]" by code_simp
  then show ?thesis using num_codec_canonical [of 4 "[0xff, 0x80]" "- 255"] by simp
qed

text \<open>
  \<open>OP_BIN2NUM\<close>'s \<open>minimally_encode\<close> accepts any byte string, minimally encoded or not,
  whose sign-magnitude value fits in \<open>k\<close> bytes, returns exactly that value, and refuses
  every other.
\<close>

theorem minimally_encode_value:
  assumes "k \<le> 7"
  shows "minimally_encode data k =
    (if \<bar>sign_magnitude data\<bar> < 2 ^ (8 * k - 1) then Ok (sign_magnitude data)
     else Err NumberOverflow)"
proof -
  have "minimal (minimal_form data)" and v: "sign_magnitude (minimal_form data) = sign_magnitude data"
    using minimal_form_sound by simp_all
  then show ?thesis
    using assms minimal_length_iff [of "minimal_form data" k]
    unfolding minimally_encode_from_slice
    by (cases "length (minimal_form data) \<le> k") (simp_all add: from_slice_eq, simp add: from_slice_def)
qed

theorem minimally_encode_value_witness:
  "minimally_encode [0x05, 0x00, 0x00, 0x00, 0x80] 4 = Ok (- 5)"
proof -
  have "sign_magnitude [0x05, 0x00, 0x00, 0x00, 0x80] = - 5" by (simp add: sign_magnitude_def)
  then show ?thesis
    using minimally_encode_value [of 4 "[0x05, 0x00, 0x00, 0x00, 0x80]"] by simp
qed

end
