(* ===== verification/Keys.thy ===== *)
theory Keys
  imports Prelude
begin

text \<open>
  Hashes and keys (\<open>crypto/src/lib.rs\<close>, \<open>keys/src\<close>).

  The digest functions come from an external crate and are a parameter of the development:
  a \<open>hasher\<close> bundles RIPEMD-160, SHA-1 and SHA-256.  Their results have the fixed sizes of
  the Rust types \<open>H160\<close> and \<open>H256\<close>, which is all the development assumes of them.  The
  double hashes and the checksum are defined from them as in the source.  The elliptic-curve
  library is the second parameter, \<open>secp256k1\<close>.
\<close>

section \<open>Digests\<close>

typedef hasher =
  "{(ripemd :: bytes \<Rightarrow> bytes, s1 :: bytes \<Rightarrow> bytes, s2 :: bytes \<Rightarrow> bytes).
     (\<forall>d. length (ripemd d) = 20) \<and> (\<forall>d. length (s1 d) = 20) \<and> (\<forall>d. length (s2 d) = 32)}"
  by (intro exI [of _ "(\<lambda>_. replicate 20 0, \<lambda>_. replicate 20 0, \<lambda>_. replicate 32 0)"]) simp

definition ripemd160 :: "hasher \<Rightarrow> bytes \<Rightarrow> bytes" where
  "ripemd160 h = fst (Rep_hasher h)"

definition sha1 :: "hasher \<Rightarrow> bytes \<Rightarrow> bytes" where
  "sha1 h = fst (snd (Rep_hasher h))"

definition sha256 :: "hasher \<Rightarrow> bytes \<Rightarrow> bytes" where
  "sha256 h = snd (snd (Rep_hasher h))"

text \<open>A concrete instance, for evaluation: every digest is the input, cut or padded.\<close>

definition pad :: "nat \<Rightarrow> bytes \<Rightarrow> bytes" where
  "pad n d = take n (d @ replicate n 0)"

lemma length_pad [simp]: "length (pad n d) = n"
  by (simp add: pad_def)

definition padding_hasher :: hasher where
  "padding_hasher = Abs_hasher (pad 20, pad 20, pad 32)"

definition dhash160 :: "hasher \<Rightarrow> bytes \<Rightarrow> bytes" where
  "dhash160 h input = ripemd160 h (sha256 h input)"

definition dhash256 :: "hasher \<Rightarrow> bytes \<Rightarrow> bytes" where
  "dhash256 h input = sha256 h (sha256 h input)"

definition checksum :: "hasher \<Rightarrow> bytes \<Rightarrow> bytes" where
  "checksum h data = take 4 (dhash256 h data)"

lemma length_digests [simp]:
  "length (ripemd160 h d) = 20" "length (sha1 h d) = 20" "length (sha256 h d) = 32"
  using Rep_hasher [of h] by (auto simp: ripemd160_def sha1_def sha256_def)

lemma length_dhash160 [simp]: "length (dhash160 h d) = 20"
  by (simp add: dhash160_def)

lemma length_dhash256 [simp]: "length (dhash256 h d) = 32"
  by (simp add: dhash256_def)

lemma length_checksum [simp]: "length (checksum h d) = 4"
  by (simp add: checksum_def)

lemma padding_hasher_digests [simp]:
  "ripemd160 padding_hasher d = pad 20 d"
  "sha1 padding_hasher d = pad 20 d"
  "sha256 padding_hasher d = pad 32 d"
  by (simp_all add: ripemd160_def sha1_def sha256_def padding_hasher_def Abs_hasher_inverse)


section \<open>Public keys\<close>

datatype keys_error =
    InvalidPublic | InvalidSecret | InvalidMessage | InvalidSignature | InvalidNetwork
  | InvalidChecksum | InvalidPrivate | InvalidAddress | FailedKeyGeneration

datatype public_key = Normal bytes | Compressed bytes

primrec public_bytes :: "public_key \<Rightarrow> bytes" where
  "public_bytes (Normal hash) = hash"
| "public_bytes (Compressed hash) = hash"

definition public_from_slice :: "bytes \<Rightarrow> (keys_error, public_key) outcome" where
  "public_from_slice data =
     (if length data = 33 then Ok (Compressed data)
      else if length data = 65 then Ok (Normal data)
      else Err InvalidPublic)"

definition address_hash :: "hasher \<Rightarrow> public_key \<Rightarrow> bytes" where
  "address_hash h public = dhash160 h (public_bytes public)"

text \<open>
  The calls \<open>Public::verify\<close> makes into the elliptic-curve library, each with the error of
  that library; parsed keys, signatures and messages are kept as the bytes they came from.
\<close>

datatype secp_error =
    SecpIncorrectSignature | SecpInvalidMessage | SecpInvalidPublicKey | SecpInvalidSignature
  | SecpInvalidSecretKey | SecpInvalidRecoveryId

record secp256k1 =
  pubkey_from_slice :: "bytes \<Rightarrow> secp_error + bytes"
  signature_from_der_lax :: "bytes \<Rightarrow> secp_error + bytes"
  normalize_s :: "bytes \<Rightarrow> bytes"
  message_from_slice :: "bytes \<Rightarrow> secp_error + bytes"
  ecdsa_verify :: "bytes \<Rightarrow> bytes \<Rightarrow> bytes \<Rightarrow> secp_error + unit"

primrec keys_error_from :: "secp_error \<Rightarrow> keys_error" where
  "keys_error_from SecpInvalidPublicKey = InvalidPublic"
| "keys_error_from SecpInvalidSecretKey = InvalidSecret"
| "keys_error_from SecpInvalidMessage = InvalidMessage"
| "keys_error_from SecpIncorrectSignature = InvalidSignature"
| "keys_error_from SecpInvalidSignature = InvalidSignature"
| "keys_error_from SecpInvalidRecoveryId = InvalidSignature"

text \<open>\<open>?\<close> on a result of the library, which converts its error.\<close>

primrec from_secp :: "secp_error + 'a \<Rightarrow> (keys_error, 'a) outcome" where
  "from_secp (Inl e) = Err (keys_error_from e)"
| "from_secp (Inr x) = Ok x"

definition public_verify ::
  "secp256k1 \<Rightarrow> public_key \<Rightarrow> bytes \<Rightarrow> bytes \<Rightarrow> (keys_error, bool) outcome" where
  "public_verify secp self message signature =
     and_then (from_secp (pubkey_from_slice secp (public_bytes self))) (\<lambda>public.
     and_then (from_secp (signature_from_der_lax secp signature)) (\<lambda>sig.
     let sig = normalize_s secp sig in
     and_then (from_secp (message_from_slice secp message)) (\<lambda>msg.
     case ecdsa_verify secp msg sig public of
       Inr _ \<Rightarrow> Ok True
     | Inl x \<Rightarrow> (if x = SecpIncorrectSignature then Ok False else Err (keys_error_from x)))))"

lemma from_secp_safe [simp]: "safe (\<lambda>_. True) (from_secp r)"
  by (cases r) simp_all

lemma public_verify_safe: "safe (\<lambda>_. True) (public_verify secp self message signature)"
  unfolding public_verify_def Let_def
  by (intro safe_and_then [OF from_secp_safe]) (simp split: sum.splits)


section \<open>Addresses and private keys\<close>

datatype key_network = Mainnet | Testnet

datatype address_type = P2PKH | P2SH

record address =
  addr_kind :: address_type
  addr_network :: key_network
  addr_hash :: bytes

record private_key =
  priv_network :: key_network
  priv_secret :: bytes
  priv_compressed :: bool

definition address_version :: "key_network \<Rightarrow> address_type \<Rightarrow> u8" where
  "address_version network kind =
     (case (network, kind) of
        (Mainnet, P2PKH) \<Rightarrow> 0
      | (Mainnet, P2SH) \<Rightarrow> 5
      | (Testnet, P2PKH) \<Rightarrow> 111
      | (Testnet, P2SH) \<Rightarrow> 196)"

definition address_layout :: "hasher \<Rightarrow> address \<Rightarrow> bytes" where
  "address_layout h a =
     (let result = address_version (addr_network a) (addr_kind a) # addr_hash a in
      result @ checksum h result)"

definition address_from_layout :: "hasher \<Rightarrow> bytes \<Rightarrow> (keys_error, address) outcome" where
  "address_from_layout h data =
     (if length data \<noteq> 25 then Err InvalidAddress
      else if drop 21 data \<noteq> checksum h (take 21 data) then Err InvalidChecksum
      else and_then
        (if data ! 0 = 0 then Ok (Mainnet, P2PKH)
         else if data ! 0 = 5 then Ok (Mainnet, P2SH)
         else if data ! 0 = 111 then Ok (Testnet, P2PKH)
         else if data ! 0 = 196 then Ok (Testnet, P2SH)
         else Err InvalidAddress) (\<lambda>(network, kind).
        Ok \<lparr> addr_kind = kind, addr_network = network, addr_hash = take 20 (drop 1 data) \<rparr>))"

definition private_layout :: "hasher \<Rightarrow> private_key \<Rightarrow> bytes" where
  "private_layout h p =
     (let network_byte = (case priv_network p of Mainnet \<Rightarrow> 128 | Testnet \<Rightarrow> 239);
          result = network_byte # priv_secret p @ (if priv_compressed p then [1] else []) in
      result @ checksum h result)"

definition private_from_layout :: "hasher \<Rightarrow> bytes \<Rightarrow> (keys_error, private_key) outcome" where
  "private_from_layout h data =
     and_then
       (if length data = 37 then Ok False
        else if length data = 38 then Ok True
        else Err InvalidPrivate) (\<lambda>compressed.
     if compressed \<and> data ! (length data - 5) \<noteq> 1 then Err InvalidPrivate
     else if drop (length data - 4) data \<noteq> checksum h (take (length data - 4) data)
     then Err InvalidChecksum
     else and_then
       (if data ! 0 = 128 then Ok Mainnet
        else if data ! 0 = 239 then Ok Testnet
        else Err InvalidPrivate) (\<lambda>network.
       Ok \<lparr> priv_network = network, priv_secret = take 32 (drop 1 data),
            priv_compressed = compressed \<rparr>))"


section \<open>The layout interface\<close>

text \<open>
  \<open>DisplayLayout\<close> (\<open>keys/src/display.rs\<close>): a value is written to bytes and read back.  The
  trait's users rely on the two directions of the round trip.
\<close>

locale display_layout =
  fixes valid :: "'a \<Rightarrow> bool"
    and layout :: "'a \<Rightarrow> bytes"
    and from_layout :: "bytes \<Rightarrow> (keys_error, 'a) outcome"
  assumes from_layout_layout: "valid a \<Longrightarrow> from_layout (layout a) = Ok a"
    and layout_from_layout: "from_layout data = Ok a \<Longrightarrow> valid a \<and> layout a = data"
begin

lemma accepts_iff: "from_layout data = Ok a \<longleftrightarrow> valid a \<and> data = layout a"
  using from_layout_layout layout_from_layout by blast

lemma layout_injective: "valid a \<Longrightarrow> valid b \<Longrightarrow> layout a = layout b \<Longrightarrow> a = b"
  using from_layout_layout by (metis outcome.inject(1))

end

text \<open>The sizes of \<open>AddressHash\<close> (\<open>H160\<close>) and \<open>Secret\<close> (\<open>H256\<close>).\<close>

definition address_sized :: "address \<Rightarrow> bool" where
  "address_sized a \<longleftrightarrow> length (addr_hash a) = 20"

definition private_sized :: "private_key \<Rightarrow> bool" where
  "private_sized p \<longleftrightarrow> length (priv_secret p) = 32"

lemma address_from_layout_layout:
  "address_sized a \<Longrightarrow> address_from_layout h (address_layout h a) = Ok a"
  by (cases a; cases "addr_network a"; cases "addr_kind a")
    (simp_all add: address_sized_def address_from_layout_def address_layout_def
      address_version_def Let_def)

lemma address_layout_from_layout:
  assumes "address_from_layout h data = Ok a"
  shows "address_sized a \<and> address_layout h a = data"
proof -
  from assms have len: "length data = 25" and cs: "drop 21 data = checksum h (take 21 data)"
    by (auto simp: address_from_layout_def split: if_splits)
  have split: "take 21 data = data ! 0 # take 20 (drop 1 data)"
    using len by (cases data) simp_all
  have "address_version (addr_network a) (addr_kind a) = data ! 0 \<and> addr_hash a = take 20 (drop 1 data)"
    using assms by (auto simp: address_from_layout_def address_version_def split: if_splits)
  then have "address_layout h a = take 21 data @ drop 21 data" and "length (addr_hash a) = 20"
    using len by (simp_all add: address_layout_def Let_def cs split)
  then show ?thesis by (simp add: address_sized_def)
qed

interpretation address_layout: display_layout address_sized "address_layout h" "address_from_layout h" for h
  by unfold_locales (auto simp: address_from_layout_layout dest: address_layout_from_layout)

lemma private_from_layout_layout:
  "private_sized p \<Longrightarrow> private_from_layout h (private_layout h p) = Ok p"
  by (cases p; cases "priv_network p"; cases "priv_compressed p")
    (simp_all add: private_sized_def private_from_layout_def private_layout_def Let_def nth_append)

lemma private_layout_from_layout:
  assumes "private_from_layout h data = Ok p"
  shows "private_sized p \<and> private_layout h p = data"
proof -
  let ?n = "length data - 4"
  from assms have len: "length data = (if priv_compressed p then 38 else 37)"
    and cs: "drop ?n data = checksum h (take ?n data)"
    and one: "priv_compressed p \<Longrightarrow> data ! 33 = 1"
    and net: "(case priv_network p of Mainnet \<Rightarrow> 128 | Testnet \<Rightarrow> 239) = data ! 0"
    and secret: "priv_secret p = take 32 (drop 1 data)"
    by (auto simp: private_from_layout_def split: if_splits)
  have "take ?n data = data ! 0 # take 32 (drop 1 data) @ (if priv_compressed p then [1] else [])"
    using len one
    apply (intro nth_equalityI)
     apply (auto simp: nth_Cons' nth_append)
    subgoal for i by (cases "i = 33") simp_all
    done
  then have "private_layout h p = take ?n data @ drop ?n data"
    unfolding private_layout_def Let_def net secret cs by simp
  with len secret show ?thesis by (simp add: private_sized_def)
qed

interpretation private_layout: display_layout private_sized "private_layout h" "private_from_layout h" for h
  by unfold_locales (auto simp: private_from_layout_layout dest: private_layout_from_layout)


section \<open>Properties\<close>

text \<open>
  Addresses and private keys survive their display layout in both directions: a byte
  string parses as an address (a private key) exactly when it is the layout of that
  address (key) with a hash of 20 (a secret of 32) bytes.  So no two byte strings stand for
  the same address, and a wrong checksum, version or length is always refused.
\<close>

theorem layouts_round_trip:
  "(address_from_layout h data = Ok a \<longleftrightarrow> address_sized a \<and> data = address_layout h a) \<and>
   (private_from_layout h data = Ok p \<longleftrightarrow> private_sized p \<and> data = private_layout h p)"
  by (simp add: address_layout.accepts_iff private_layout.accepts_iff)

end
