(* ===== verification/Script.thy ===== *)
theory Script
  imports Opcodes Script_Num Keys
begin

text \<open>
  Scripts as byte strings (\<open>script/src/script.rs\<close>) and the script builder
  (\<open>script/src/builder.rs\<close>): decoding one instruction, the loops that walk over a script,
  the recognisers of the standard output types and the signature-operation counters.

  A \<open>Script\<close> is its bytes.  The loops advance a position by the decoded instruction's
  \<open>step\<close>, which is what makes them terminate.
\<close>

section \<open>Limits and types\<close>

definition MAX_SCRIPT_ELEMENT_SIZE :: nat where "MAX_SCRIPT_ELEMENT_SIZE = 520"
definition MAX_OPS_PER_SCRIPT :: nat where "MAX_OPS_PER_SCRIPT = 201"
definition MAX_PUBKEYS_PER_MULTISIG :: nat where "MAX_PUBKEYS_PER_MULTISIG = 20"
definition MAX_SCRIPT_SIZE :: nat where "MAX_SCRIPT_SIZE = 10000"

lemmas script_limits =
  MAX_SCRIPT_ELEMENT_SIZE_def MAX_OPS_PER_SCRIPT_def MAX_PUBKEYS_PER_MULTISIG_def
  MAX_SCRIPT_SIZE_def

type_synonym script = bytes

datatype script_class =
    NonStandard | PubKey | PubKeyHash | ScriptHash | Multisig | NullData
  | WitnessScript | WitnessKey

record script_address =
  sa_kind :: address_type
  sa_hash :: bytes

definition new_p2pkh :: "bytes \<Rightarrow> script_address" where
  "new_p2pkh hash = \<lparr> sa_kind = P2PKH, sa_hash = hash \<rparr>"

definition new_p2sh :: "bytes \<Rightarrow> script_address" where
  "new_p2sh hash = \<lparr> sa_kind = P2SH, sa_hash = hash \<rparr>"

record instruction =
  opcode_of :: opcode
  step_of :: nat
  data_of :: "bytes option"


section \<open>Decoding an instruction\<close>

definition get_opcode :: "script \<Rightarrow> nat \<Rightarrow> opcode sres" where
  "get_opcode data position = and_then (index data position) (\<lambda>b. ok_or (from_u8 b) BadOpcode)"

definition script_take :: "script \<Rightarrow> nat \<Rightarrow> nat \<Rightarrow> bytes sres" where
  "script_take data offset len =
     (if offset + len > length data then Err BadOpcode else Ok (take len (drop offset data)))"

fun read_usize_fold :: "nat \<Rightarrow> nat \<Rightarrow> bytes \<Rightarrow> nat" where
  "read_usize_fold i acc [] = acc"
| "read_usize_fold i acc (x # xs) = read_usize_fold (Suc i) (acc + push_bit (i * 8) (unat x)) xs"

definition read_usize :: "bytes \<Rightarrow> nat \<Rightarrow> nat sres" where
  "read_usize data sz =
     (if length data < sz then Err BadOpcode else Ok (read_usize_fold 0 0 (take sz data)))"

definition get_instruction :: "script \<Rightarrow> nat \<Rightarrow> instruction sres" where
  "get_instruction data position =
     and_then (get_opcode data position) (\<lambda>opcode.
       if opcode = OP_PUSHDATA1 \<or> opcode = OP_PUSHDATA2 \<or> opcode = OP_PUSHDATA4 then
         let len = (if opcode = OP_PUSHDATA1 then 1 else if opcode = OP_PUSHDATA2 then 2 else 4) in
         and_then (script_take data (position + 1) len) (\<lambda>slice.
         and_then (read_usize slice len) (\<lambda>n.
         and_then (script_take data (position + 1 + len) n) (\<lambda>bytes.
           Ok \<lparr> opcode_of = opcode, step_of = len + n + 1, data_of = Some bytes \<rparr>)))
       else if opcode \<le> OP_PUSHBYTES_75 then
         and_then (script_take data (position + 1) (unat (discriminant opcode))) (\<lambda>bytes.
           Ok \<lparr> opcode_of = opcode, step_of = unat (discriminant opcode) + 1,
                data_of = Some bytes \<rparr>)
       else Ok \<lparr> opcode_of = opcode, step_of = 1, data_of = None \<rparr>)"


section \<open>Facts about one instruction\<close>

lemma read_usize_fold_eq: "read_usize_fold i acc xs = acc + 256 ^ i * le_nat xs"
proof (induction xs arbitrary: i acc)
  case (Cons x xs)
  have "(2 :: nat) ^ (i * 8) = 256 ^ i" by (simp add: power_mult mult.commute [of i])
  then show ?case by (simp add: Cons.IH push_bit_eq_mult algebra_simps)
qed simp

lemma read_usize_eq: "length data = sz \<Longrightarrow> read_usize data sz = Ok (le_nat data)"
  by (simp add: read_usize_def read_usize_fold_eq)

lemma script_take_Ok [simp]:
  "script_take data offset len = Ok bytes \<longleftrightarrow>
     offset + len \<le> length data \<and> bytes = take len (drop offset data)"
  by (auto simp: script_take_def)

lemma script_take_not_Panic [simp]: "script_take data offset len \<noteq> Panic"
  by (simp add: script_take_def)

lemma read_usize_not_Panic [simp]: "read_usize data sz \<noteq> Panic"
  by (simp add: read_usize_def)

lemma get_opcode_Ok:
  "get_opcode data position = Ok op \<longleftrightarrow> position < length data \<and> from_u8 (data ! position) = Some op"
  by (auto simp: get_opcode_def)

lemma get_opcode_Panic: "get_opcode data position = Panic \<longleftrightarrow> length data \<le> position"
  by (auto simp: get_opcode_def and_then_eq_Panic)

lemma get_instruction_Panic: "get_instruction data position = Panic \<longleftrightarrow> length data \<le> position"
  by (auto simp: get_instruction_def and_then_eq_Panic get_opcode_Panic Let_def)

lemma get_instruction_bounds:
  assumes "get_instruction data position = Ok i"
  shows "0 < step_of i" and "position + step_of i \<le> length data" and "position < length data"
    and "data_of i = Some d \<Longrightarrow> length d < step_of i"
  using assms
  by (auto simp: get_instruction_def get_opcode_Ok Let_def split: if_splits)

lemma get_instruction_opcode:
  "get_instruction data position = Ok i \<Longrightarrow> from_u8 (data ! position) = Some (opcode_of i)"
  by (auto simp: get_instruction_def get_opcode_Ok Let_def split: if_splits)

text \<open>An instruction is decoded from its own bytes only.\<close>

lemma index_drop: "index (drop n xs) i = index xs (n + i)"
  by (auto simp: index_def)

lemma get_opcode_drop: "get_opcode (drop n data) position = get_opcode data (n + position)"
  by (simp add: get_opcode_def index_drop)

lemma script_take_drop:
  "n \<le> length data \<Longrightarrow> script_take (drop n data) offset len = script_take data (n + offset) len"
  by (auto simp: script_take_def add.commute)

lemma get_instruction_drop:
  "n \<le> length data \<Longrightarrow> get_instruction (drop n data) position = get_instruction data (n + position)"
  by (simp only: get_instruction_def get_opcode_drop script_take_drop add.assoc)

lemma get_opcode_append:
  "get_opcode data position = Ok op \<Longrightarrow> get_opcode (data @ rest) position = Ok op"
  by (simp add: get_opcode_Ok nth_append)

lemma script_take_append:
  "script_take data offset len = Ok d \<Longrightarrow> script_take (data @ rest) offset len = Ok d"
  by simp

lemma and_then_mono:
  assumes "and_then r f = Ok y" and "\<And>x. r = Ok x \<Longrightarrow> r' = Ok x"
    and "\<And>x. f x = Ok y \<Longrightarrow> f' x = Ok y"
  shows "and_then r' f' = Ok y"
  using assms by (cases r) simp_all

lemma get_instruction_append:
  assumes "get_instruction data position = Ok i"
  shows "get_instruction (data @ rest) position = Ok i"
  using assms unfolding get_instruction_def Let_def
  apply (rule and_then_mono)
   apply (erule get_opcode_append)
  subgoal for op
    by (cases "op = OP_PUSHDATA1 \<or> op = OP_PUSHDATA2 \<or> op = OP_PUSHDATA4"; cases "op \<le> OP_PUSHBYTES_75")
      (simp_all only: if_True if_False, (erule and_then_mono script_take_append | assumption)+)
  done


section \<open>Walking over a script\<close>

text \<open>
  The loops leave on any decoding error; below the end of the script decoding does not
  panic (\<open>get_instruction_Panic\<close>), so the \<open>_\<close> arms stand for errors only.
\<close>

function is_push_only_from :: "script \<Rightarrow> nat \<Rightarrow> bool" where
  "is_push_only_from data pc =
     (if pc < length data then
        case get_instruction data pc of
          Ok instruction \<Rightarrow>
            if opcode_of instruction > OP_16 then False
            else is_push_only_from data (pc + step_of instruction)
        | _ \<Rightarrow> False
      else True)"
  by pat_completeness auto
termination
  by (relation "measure (\<lambda>(data, pc). length data - pc)") (auto dest: get_instruction_bounds)

definition is_push_only :: "script \<Rightarrow> bool" where
  "is_push_only data = is_push_only_from data 0"

function without_separators_from :: "script \<Rightarrow> nat \<Rightarrow> bytes \<Rightarrow> bytes" where
  "without_separators_from data pc result =
     (if pc < length data then
        case get_instruction data pc of
          Ok instruction \<Rightarrow>
            without_separators_from data (pc + step_of instruction)
              (if opcode_of instruction \<noteq> OP_CODESEPARATOR
               then result @ take (step_of instruction) (drop pc data) else result)
        | _ \<Rightarrow> without_separators_from data (pc + 1) (result @ [data ! pc])
      else result)"
  by pat_completeness auto
termination
  by (relation "measure (\<lambda>(data, pc, result). length data - pc)") (auto dest: get_instruction_bounds)

definition without_separators :: "script \<Rightarrow> script" where
  "without_separators data = without_separators_from data 0 []"

definition is_sig_opcode :: "bool \<Rightarrow> opcode \<Rightarrow> bool" where
  "is_sig_opcode checkdatasig_active opcode \<longleftrightarrow>
     opcode = OP_CHECKSIG \<or> opcode = OP_CHECKSIGVERIFY \<or>
     (opcode = OP_CHECKDATASIG \<or> opcode = OP_CHECKDATASIGVERIFY) \<and> checkdatasig_active"

definition is_multisig_opcode :: "opcode \<Rightarrow> bool" where
  "is_multisig_opcode opcode \<longleftrightarrow> opcode = OP_CHECKMULTISIG \<or> opcode = OP_CHECKMULTISIGVERIFY"

text \<open>One round of the counting loop: how much an opcode adds after \<open>last_opcode\<close>.\<close>

definition sigops_of :: "bool \<Rightarrow> bool \<Rightarrow> opcode \<Rightarrow> opcode \<Rightarrow> nat sres" where
  "sigops_of checkdatasig_active serialized_script last_opcode opcode =
     (if is_sig_opcode checkdatasig_active opcode then Ok 1
      else if is_multisig_opcode opcode then
        if serialized_script \<and> is_within_op_n last_opcode
        then and_then (decode_op_n last_opcode) (\<lambda>n. Ok (unat n))
        else Ok MAX_PUBKEYS_PER_MULTISIG
      else Ok 0)"

function sigops_count_from :: "bool \<Rightarrow> bool \<Rightarrow> script \<Rightarrow> nat \<Rightarrow> opcode \<Rightarrow> nat \<Rightarrow> nat sres" where
  "sigops_count_from cds serialized data pc last_opcode count =
     (if pc < length data then
        case get_instruction data pc of
          Ok instruction \<Rightarrow>
            and_then (sigops_of cds serialized last_opcode (opcode_of instruction)) (\<lambda>n.
              sigops_count_from cds serialized data (pc + step_of instruction)
                (opcode_of instruction) (count + n))
        | _ \<Rightarrow> Ok count
      else Ok count)"
  by pat_completeness auto
termination
  by (relation "measure (\<lambda>(cds, serialized, data, pc, last_opcode, count). length data - pc)")
    (auto dest: get_instruction_bounds)

definition sigops_count :: "script \<Rightarrow> bool \<Rightarrow> bool \<Rightarrow> nat sres" where
  "sigops_count data checkdatasig_active serialized_script =
     sigops_count_from checkdatasig_active serialized_script data 0 OP_0 0"

declare is_push_only_from.simps [simp del] without_separators_from.simps [simp del]
  sigops_count_from.simps [simp del]


section \<open>Recognisers\<close>

definition is_pay_to_public_key_hash :: "script \<Rightarrow> bool" where
  "is_pay_to_public_key_hash data \<longleftrightarrow>
     length data = 25 \<and>
     data ! 0 = discriminant OP_DUP \<and>
     data ! 1 = discriminant OP_HASH160 \<and>
     data ! 2 = discriminant OP_PUSHBYTES_20 \<and>
     data ! 23 = discriminant OP_EQUALVERIFY \<and>
     data ! 24 = discriminant OP_CHECKSIG"

definition is_pay_to_public_key :: "script \<Rightarrow> bool" where
  "is_pay_to_public_key data =
     (if data = [] then False
      else if data ! 0 = discriminant OP_PUSHBYTES_33
        then length data = 35 \<and> data ! (35 - 1) = discriminant OP_CHECKSIG
      else if data ! 0 = discriminant OP_PUSHBYTES_65
        then length data = 67 \<and> data ! (67 - 1) = discriminant OP_CHECKSIG
      else False)"

definition is_pay_to_script_hash :: "script \<Rightarrow> bool" where
  "is_pay_to_script_hash data \<longleftrightarrow>
     length data = 23 \<and>
     data ! 0 = discriminant OP_HASH160 \<and>
     data ! 1 = discriminant OP_PUSHBYTES_20 \<and>
     data ! 22 = discriminant OP_EQUAL"

definition is_pay_to_witness_key_hash :: "script \<Rightarrow> bool" where
  "is_pay_to_witness_key_hash data \<longleftrightarrow>
     length data = 22 \<and>
     data ! 0 = discriminant OP_0 \<and>
     data ! 1 = discriminant OP_PUSHBYTES_20"

definition is_pay_to_witness_script_hash :: "script \<Rightarrow> bool" where
  "is_pay_to_witness_script_hash data \<longleftrightarrow>
     length data = 34 \<and>
     data ! 0 = discriminant OP_0 \<and>
     data ! 1 = discriminant OP_PUSHBYTES_32"

definition parse_witness_program :: "script \<Rightarrow> (u8 \<times> bytes) option" where
  "parse_witness_program data =
     (if length data < 4 \<or> length data > 42 \<or> length data \<noteq> unat (data ! 1) + 2 then None
      else case from_u8 (data ! 0) of
        None \<Rightarrow> None
      | Some x \<Rightarrow>
          if x = OP_0 then Some (0, drop 2 data)
          else if x \<ge> OP_1 \<and> x \<le> OP_16
          then Some (discriminant x - discriminant OP_1 + 1, drop 2 data)
          else None)"

definition is_witness_commitment_script :: "script \<Rightarrow> bool" where
  "is_witness_commitment_script script \<longleftrightarrow>
     length script \<ge> 38 \<and>
     script ! 0 = discriminant OP_RETURN \<and>
     script ! 1 = 0x24 \<and> script ! 2 = 0xAA \<and> script ! 3 = 0x21 \<and>
     script ! 4 = 0xA9 \<and> script ! 5 = 0xED"

definition subscript :: "script \<Rightarrow> nat \<Rightarrow> script sres" where
  "subscript data from_pos = (if from_pos \<le> length data then Ok (drop from_pos data) else Panic)"

definition is_null_data_script :: "script \<Rightarrow> bool" where
  "is_null_data_script data \<longleftrightarrow>
     data \<noteq> [] \<and> data ! 0 = discriminant OP_RETURN \<and> is_push_only (drop 1 data)"

text \<open>
  The key counter of \<open>is_multisig_script\<close> is a \<open>u8\<close>; \<open>Err ()\<close> is the early \<open>return false\<close>.
\<close>

function multisig_keys_from :: "script \<Rightarrow> nat \<Rightarrow> u8 \<Rightarrow> (unit, u8) outcome" where
  "multisig_keys_from data pc keys =
     (if pc < length data - 2 then
        case get_instruction data pc of
          Ok instruction \<Rightarrow>
            if opcode_of instruction = OP_PUSHBYTES_33 \<or> opcode_of instruction = OP_PUSHBYTES_65
            then if keys = 0xff then Panic
              else multisig_keys_from data (pc + step_of instruction) (keys + 1)
            else Err ()
        | _ \<Rightarrow> Err ()
      else Ok keys)"
  by pat_completeness auto
termination
  by (relation "measure (\<lambda>(data, pc, keys). length data - pc)") (auto dest: get_instruction_bounds)

declare multisig_keys_from.simps [simp del]

definition multisig_count_at :: "script \<Rightarrow> nat \<Rightarrow> u8 option" where
  "multisig_count_at data position =
     (case get_opcode data position of
        Ok o' \<Rightarrow>
          if o' = OP_0 then Some 0
          else if o' \<ge> OP_1 \<and> o' \<le> OP_16
          then Some (discriminant o' - (discriminant OP_1 - 1))
          else None
      | _ \<Rightarrow> None)"

definition is_multisig_script :: "script \<Rightarrow> bool sres" where
  "is_multisig_script data =
     (if length data < 3 then Ok False
      else case multisig_count_at data 0 of
        None \<Rightarrow> Ok False
      | Some siglen \<Rightarrow>
          (case multisig_count_at data (length data - 2) of
             None \<Rightarrow> Ok False
           | Some keylen \<Rightarrow>
               if siglen > keylen then Ok False
               else if data ! (length data - 1) \<noteq> discriminant OP_CHECKMULTISIG then Ok False
               else (case multisig_keys_from data 1 0 of
                       Ok keys \<Rightarrow> Ok (keys = keylen)
                     | Err _ \<Rightarrow> Ok False
                     | Panic \<Rightarrow> Panic)))"

definition script_type :: "script \<Rightarrow> script_class sres" where
  "script_type data =
     (if is_pay_to_public_key data then Ok PubKey
      else if is_pay_to_public_key_hash data then Ok PubKeyHash
      else if is_pay_to_script_hash data then Ok ScriptHash
      else and_then (is_multisig_script data) (\<lambda>multisig.
        if multisig then Ok Multisig
        else if is_null_data_script data then Ok NullData
        else if is_pay_to_witness_key_hash data then Ok WitnessKey
        else if is_pay_to_witness_script_hash data then Ok WitnessScript
        else Ok NonStandard))"

definition num_signatures_required :: "script \<Rightarrow> u8 sres" where
  "num_signatures_required data =
     and_then (is_multisig_script data) (\<lambda>multisig.
       Ok (if multisig
           then if data ! 0 = discriminant OP_0 then 0 else data ! 0 - discriminant OP_1 + 1
           else 1))"


text \<open>
  \<open>unreachable!()\<close> and the two \<open>expect\<close>s of \<open>extract_destinations\<close> are panics here.
\<close>

function multisig_destinations_from ::
  "hasher \<Rightarrow> script \<Rightarrow> nat \<Rightarrow> script_address list \<Rightarrow> (keys_error, script_address list) outcome" where
  "multisig_destinations_from h data pc addresses =
     (if pc < length data - 2 then
        case get_instruction data pc of
          Ok instruction \<Rightarrow>
            (case data_of instruction of
               None \<Rightarrow> Panic
             | Some d \<Rightarrow>
                 and_then (public_from_slice d) (\<lambda>public.
                   multisig_destinations_from h data (pc + step_of instruction)
                     (addresses @ [new_p2pkh (address_hash h public)])))
        | _ \<Rightarrow> Panic
      else Ok addresses)"
  by pat_completeness auto
termination
  by (relation "measure (\<lambda>(h, data, pc, addresses). length data - pc)")
    (auto dest: get_instruction_bounds)

declare multisig_destinations_from.simps [simp del]

definition extract_destinations :: "hasher \<Rightarrow> script \<Rightarrow> (keys_error, script_address list) outcome" where
  "extract_destinations h data =
     (case script_type data of
        Ok t \<Rightarrow>
          (case t of
             PubKey \<Rightarrow>
               and_then
                 (if data ! 0 = discriminant OP_PUSHBYTES_33 then public_from_slice (take 33 (drop 1 data))
                  else if data ! 0 = discriminant OP_PUSHBYTES_65 then public_from_slice (take 65 (drop 1 data))
                  else Panic) (\<lambda>public. Ok [new_p2pkh (address_hash h public)])
           | PubKeyHash \<Rightarrow> Ok [new_p2pkh (take 20 (drop 3 data))]
           | ScriptHash \<Rightarrow> Ok [new_p2sh (take 20 (drop 2 data))]
           | Multisig \<Rightarrow> multisig_destinations_from h data 1 []
           | _ \<Rightarrow> Ok [])
      | _ \<Rightarrow> Panic)"

text \<open>
  \<open>find_and_delete\<close> runs while \<open>current < end - len\<close>, where \<open>len\<close> is not zero and at most \<open>end\<close>.
\<close>

function find_and_delete_from :: "script \<Rightarrow> bytes \<Rightarrow> nat \<Rightarrow> bytes \<Rightarrow> bytes" where
  "find_and_delete_from self data current result =
     (if data \<noteq> [] \<and> current < length self - length data then
        if take (length data) (drop current self) \<noteq> data
        then find_and_delete_from self data (current + 1) (result @ [self ! current])
        else find_and_delete_from self data (current + length data) result
      else result @ drop current self)"
  by pat_completeness auto
termination
  by (relation "measure (\<lambda>(self, data, current, result). length self - current)")
    (auto intro!: diff_less_mono2)

declare find_and_delete_from.simps [simp del]

definition find_and_delete :: "script \<Rightarrow> bytes \<Rightarrow> script" where
  "find_and_delete self data =
     (if length data > length self \<or> length data = 0 then self
      else find_and_delete_from self data 0 [])"

text \<open>
  \<open>self.iter().last()\<close>.  The iterator does not advance over an instruction it cannot decode
  and yields the same error for ever, so that \<open>last\<close> does not return: that is the value
  \<open>None\<close>.
\<close>

partial_function (option) iter_last ::
  "script \<Rightarrow> nat \<Rightarrow> instruction sres option \<Rightarrow> instruction sres option option" where
  "iter_last data position item =
     (if length data \<le> position then Some item
      else case get_instruction data position of
        Ok instruction \<Rightarrow> iter_last data (position + step_of instruction) (Some (Ok instruction))
      | r \<Rightarrow> iter_last data position (Some r))"

definition pay_to_script_hash_sigops :: "script \<Rightarrow> bool \<Rightarrow> script \<Rightarrow> nat sres option" where
  "pay_to_script_hash_sigops self checkdatasig_active prev_out =
     (if \<not> is_pay_to_script_hash prev_out then Some (Ok 0)
      else if self = [] \<or> \<not> is_push_only self then Some (Ok 0)
      else case iter_last self 0 None of
        None \<Rightarrow> None
      | Some item \<Rightarrow> Some
          (case item of
             Some (Ok instruction) \<Rightarrow>
               (case data_of instruction of
                  Some script \<Rightarrow> sigops_count script checkdatasig_active True
                | None \<Rightarrow> Panic)
           | _ \<Rightarrow> Panic))"


section \<open>The builder\<close>

type_synonym builder = bytes

definition push_opcode :: "builder \<Rightarrow> opcode \<Rightarrow> builder" where
  "push_opcode b opcode = b @ [discriminant opcode]"

definition push_bool :: "builder \<Rightarrow> bool \<Rightarrow> builder" where
  "push_bool b value = (if value then b @ [discriminant OP_1] else b @ [discriminant OP_0])"

definition push_bytes :: "builder \<Rightarrow> bytes \<Rightarrow> builder sres" where
  "push_bytes b bytes =
     (let len = length bytes in
      if len < 1 \<or> len > 75 then Panic
      else case from_u8 (word_of_nat (unat (discriminant OP_PUSHBYTES_1) + len - 1)) of
        None \<Rightarrow> Panic
      | Some opcode \<Rightarrow> Ok (b @ discriminant opcode # bytes))"

definition push_data :: "builder \<Rightarrow> bytes \<Rightarrow> builder sres" where
  "push_data b data =
     (let len = length data in
      if len < unat (discriminant OP_PUSHDATA1) then Ok (b @ word_of_nat len # data)
      else if len < 0x100 then Ok (b @ discriminant OP_PUSHDATA1 # word_of_nat len # data)
      else if len < 0x10000
      then Ok (b @ [discriminant OP_PUSHDATA2, word_of_nat len, word_of_nat (drop_bit 8 len)] @ data)
      else if len < 0x100000000
      then Ok (b @ [discriminant OP_PUSHDATA4, word_of_nat len, word_of_nat (drop_bit 8 len),
                    word_of_nat (drop_bit 16 len), word_of_nat (drop_bit 24 len)] @ data)
      else Panic)"

definition push_num :: "builder \<Rightarrow> num \<Rightarrow> builder sres" where
  "push_num b n = and_then (num_to_bytes n) (push_data b)"

definition return_bytes :: "builder \<Rightarrow> bytes \<Rightarrow> builder sres" where
  "return_bytes b bytes =
     (let len = length bytes in
      if len < 1 \<or> len > 75 then Panic
      else case from_u8 (word_of_nat (unat (discriminant OP_PUSHBYTES_1) + len - 1)) of
        None \<Rightarrow> Panic
      | Some opcode \<Rightarrow> Ok (b @ discriminant OP_RETURN # discriminant opcode # bytes))"

definition push_invalid_opcode :: "builder \<Rightarrow> builder" where
  "push_invalid_opcode b = b @ [0xff]"

definition build_p2pkh :: "bytes \<Rightarrow> script sres" where
  "build_p2pkh hash =
     and_then (push_bytes (push_opcode (push_opcode [] OP_DUP) OP_HASH160) hash) (\<lambda>b.
       Ok (push_opcode (push_opcode b OP_EQUALVERIFY) OP_CHECKSIG))"

definition build_p2sh :: "bytes \<Rightarrow> script sres" where
  "build_p2sh hash =
     and_then (push_bytes (push_opcode [] OP_HASH160) hash) (\<lambda>b. Ok (push_opcode b OP_EQUAL))"

definition build_nulldata :: "bytes \<Rightarrow> script sres" where
  "build_nulldata bytes = push_bytes (push_opcode [] OP_RETURN) bytes"

end
