(* ===== verification/Sighash.thy ===== *)
theory Sighash
  imports Script
begin

text \<open>
  Signature versions and signature hash types (\<open>script/src/sign.rs\<close>), and the interface
  through which the interpreter checks signatures and lock times (\<open>script/src/verify.rs\<close>).
\<close>

section \<open>Hash types\<close>

datatype signature_version = Base | WitnessV0 | ForkId

datatype sighash_base = SighashAll | SighashNone | SighashSingle

primrec sighash_base_u32 :: "sighash_base \<Rightarrow> u32" where
  "sighash_base_u32 SighashAll = 1"
| "sighash_base_u32 SighashNone = 2"
| "sighash_base_u32 SighashSingle = 3"

record sighash =
  base :: sighash_base
  anyone_can_pay :: bool
  fork_id :: bool

definition sighash_to_u32 :: "sighash \<Rightarrow> u32" where
  "sighash_to_u32 s =
     (let b = sighash_base_u32 (base s);
          b = (if anyone_can_pay s then b OR 0x80 else b) in
      if fork_id s then b OR 0x40 else b)"

definition sighash_is_defined :: "signature_version \<Rightarrow> u32 \<Rightarrow> bool" where
  "sighash_is_defined version u =
     (let u = (if version = ForkId then u AND NOT (0x40 OR 0x80) else u AND NOT 0x80) in
      u = 1 \<or> u = 2 \<or> u = 3)"

definition sighash_from_u32 :: "signature_version \<Rightarrow> u32 \<Rightarrow> sighash" where
  "sighash_from_u32 version u =
     \<lparr> base =
         (if u AND 0x1f = 2 then SighashNone
          else if u AND 0x1f = 3 then SighashSingle
          else SighashAll),
       anyone_can_pay = u AND 0x80 = 0x80,
       fork_id = version = ForkId \<and> u AND 0x40 = 0x40 \<rparr>"


section \<open>The checker interface\<close>

text \<open>
  The trait \<open>SignatureChecker\<close>.  An implementation may panic, so its methods return outcomes;
  they have no error of their own.
\<close>

record signature_checker =
  verify_signature_with :: "bytes \<Rightarrow> public_key \<Rightarrow> bytes \<Rightarrow> bool sres"
  check_signature_with :: "bytes \<Rightarrow> public_key \<Rightarrow> script \<Rightarrow> u32 \<Rightarrow> signature_version \<Rightarrow> bool sres"
  check_lock_time :: "num \<Rightarrow> bool sres"
  check_sequence :: "num \<Rightarrow> bool sres"

text \<open>What the interpreter relies on: every call of the checker answers.\<close>

locale signature_checking =
  fixes checker :: signature_checker
  assumes verify_answers: "\<exists>b. verify_signature_with checker sig pk hash = Ok b"
    and check_answers: "\<exists>b. check_signature_with checker sig pk code hash_type version = Ok b"
    and lock_time_answers: "\<exists>b. check_lock_time checker n = Ok b"
    and sequence_answers: "\<exists>b. check_sequence checker n = Ok b"

text \<open>\<open>public.verify(hash, signature).unwrap_or(false)\<close>\<close>

definition verify_or_false :: "secp256k1 \<Rightarrow> bytes \<Rightarrow> public_key \<Rightarrow> bytes \<Rightarrow> bool sres" where
  "verify_or_false secp signature public hash =
     (case public_verify secp public hash signature of
        Ok b \<Rightarrow> Ok b
      | Err _ \<Rightarrow> Ok False
      | Panic \<Rightarrow> Panic)"

definition noop_signature_checker :: "secp256k1 \<Rightarrow> signature_checker" where
  "noop_signature_checker secp =
     \<lparr> verify_signature_with = verify_or_false secp,
       check_signature_with = (\<lambda>_ _ _ _ _. Ok False),
       check_lock_time = (\<lambda>_. Ok False),
       check_sequence = (\<lambda>_. Ok False) \<rparr>"

lemma verify_or_false_answers: "\<exists>b. verify_or_false secp signature public hash = Ok b"
  using public_verify_safe [of secp public hash signature]
  by (cases "public_verify secp public hash signature") (auto simp: verify_or_false_def)

interpretation noop_checker: signature_checking "noop_signature_checker secp" for secp
  by unfold_locales (auto simp: noop_signature_checker_def verify_or_false_answers)

end
