(* ===== verification/Chain_Constants.thy ===== *)
theory Chain_Constants
  imports Prelude
begin

text \<open>The constants of \<open>chain/src/constants.rs\<close>.\<close>

definition SEQUENCE_FINAL :: u32 where "SEQUENCE_FINAL = 0xffffffff"
definition SEQUENCE_LOCKTIME_DISABLE_FLAG :: u32 where
  "SEQUENCE_LOCKTIME_DISABLE_FLAG = push_bit 31 1"
definition SEQUENCE_LOCKTIME_TYPE_FLAG :: u32 where "SEQUENCE_LOCKTIME_TYPE_FLAG = push_bit 22 1"
definition SEQUENCE_LOCKTIME_MASK :: u32 where "SEQUENCE_LOCKTIME_MASK = 0x0000ffff"
definition LOCKTIME_THRESHOLD :: u32 where "LOCKTIME_THRESHOLD = 500000000"
definition SATOSHIS_IN_COIN :: u64 where "SATOSHIS_IN_COIN = 100000000"

end
