(* ===== verification/Interpreter.thy ===== *)
theory Interpreter
  imports Script_Stack Sighash Chain_Constants
begin

text \<open>
  The script interpreter (\<open>script/src/interpreter.rs\<close>): the encoding checks, one definition
  per arm of the interpreter's \<open>match opcode\<close>, the evaluation loop, witness programs and
  \<open>verify_script\<close>.

  The state that the arms change is the record \<open>machine\<close>; the position and the operation
  count are changed by the loop only.  What an arm reads besides is in \<open>eval_env\<close>.  Every
  slice access, subtraction, \<open>assert!\<close>, \<open>expect\<close> and \<open>unimplemented!\<close> of the source that can
  panic is a \<open>Panic\<close> here.
\<close>

section \<open>Encoding checks\<close>

definition check_signature ::
  "signature_checker \<Rightarrow> bytes \<Rightarrow> bytes \<Rightarrow> script \<Rightarrow> signature_version \<Rightarrow> bool sres" where
  "check_signature checker script_sig public script_code version =
     (case public_from_slice public of
        Ok public \<Rightarrow>
          if script_sig = [] then Ok False
          else check_signature_with checker (butlast script_sig) public script_code
            (ucast (last script_sig)) version
      | _ \<Rightarrow> Ok False)"

definition verify_signature :: "signature_checker \<Rightarrow> bytes \<Rightarrow> bytes \<Rightarrow> bytes \<Rightarrow> bool sres" where
  "verify_signature checker signature public message =
     (case public_from_slice public of
        Ok public \<Rightarrow>
          if signature = [] then Ok False else verify_signature_with checker signature public message
      | _ \<Rightarrow> Ok False)"

definition is_public_key :: "bytes \<Rightarrow> bool" where
  "is_public_key v =
     (if length v = 33 \<and> (v ! 0 = 2 \<or> v ! 0 = 3) then True
      else length v = 65 \<and> v ! 0 = 4)"

text \<open>
  \<open>b0 == 0 && (sig[i] & 0x80) == 0\<close> for an integer of more than one byte: an unnecessary
  leading zero byte.
\<close>

definition null_padded :: "bytes \<Rightarrow> nat \<Rightarrow> u8 \<Rightarrow> nat \<Rightarrow> bool sres" where
  "null_padded sig len b0 i =
     (if len > 1 \<and> b0 = 0 then and_then (index sig i) (\<lambda>b1. Ok (b1 AND 0x80 = 0)) else Ok False)"

definition is_valid_signature_encoding :: "bytes \<Rightarrow> bool sres" where
  "is_valid_signature_encoding sig =
     (if length sig < 9 \<or> length sig > 73 then Ok False
      else and_then (index sig 0) (\<lambda>b0. if b0 \<noteq> 0x30 then Ok False
      else and_then (index sig 1) (\<lambda>b1. if unat b1 \<noteq> length sig - 3 then Ok False
      else and_then (index sig 3) (\<lambda>b3. let len_r = unat b3 in
      if len_r + 5 \<ge> length sig then Ok False
      else and_then (index sig (len_r + 5)) (\<lambda>bs. let len_s = unat bs in
      if len_r + len_s + 7 \<noteq> length sig then Ok False
      else and_then (index sig 2) (\<lambda>b2. if b2 \<noteq> 2 then Ok False
      else if len_r = 0 then Ok False
      else and_then (index sig 4) (\<lambda>r0. if r0 AND 0x80 \<noteq> 0 then Ok False
      else and_then (null_padded sig len_r r0 5) (\<lambda>padded. if padded then Ok False
      else and_then (index sig (len_r + 4)) (\<lambda>bt. if bt \<noteq> 2 then Ok False
      else if len_s = 0 then Ok False
      else and_then (index sig (len_r + 6)) (\<lambda>s0. if s0 AND 0x80 \<noteq> 0 then Ok False
      else and_then (null_padded sig len_s s0 (len_r + 7)) (\<lambda>padded. if padded then Ok False
      else Ok True)))))))))))"

text \<open>\<open>Signature::check_low_s\<close> is \<open>unimplemented!()\<close>.\<close>

definition check_low_s :: "bytes \<Rightarrow> bool sres" where
  "check_low_s signature = Panic"

definition is_low_der_signature :: "bytes \<Rightarrow> unit sres" where
  "is_low_der_signature sig =
     and_then (is_valid_signature_encoding sig) (\<lambda>valid.
       if \<not> valid then Err SignatureDer
       else and_then (check_low_s sig) (\<lambda>low. if \<not> low then Err SignatureHighS else Ok ()))"

definition is_defined_hashtype_signature :: "signature_version \<Rightarrow> bytes \<Rightarrow> bool" where
  "is_defined_hashtype_signature version sig =
     (if sig = [] then False else sighash_is_defined version (ucast (last sig)))"

definition parse_hash_type :: "signature_version \<Rightarrow> bytes \<Rightarrow> sighash" where
  "parse_hash_type version sig =
     sighash_from_u32 version (if sig = [] then 0 else ucast (last sig))"

definition check_signature_encoding ::
  "bytes \<Rightarrow> verification_flags \<Rightarrow> signature_version \<Rightarrow> unit sres" where
  "check_signature_encoding sig flags version =
     (if sig = [] then Ok ()
      else and_then
        (if verify_dersig flags \<or> verify_low_s flags \<or> verify_strictenc flags
         then is_valid_signature_encoding sig else Ok True) (\<lambda>valid.
        if \<not> valid then Err SignatureDer
        else and_then (if verify_low_s flags then is_low_der_signature sig else Ok ()) (\<lambda>_.
          if verify_strictenc flags \<and> \<not> is_defined_hashtype_signature version sig
          then Err SignatureHashtype
          else if verify_strictenc flags then
            let uses_fork_id = fork_id (parse_hash_type version sig);
                enabled_fork_id = version = ForkId in
            if uses_fork_id \<and> \<not> enabled_fork_id then Err SignatureIllegalForkId
            else if \<not> uses_fork_id \<and> enabled_fork_id then Err SignatureMustUseForkId
            else Ok ()
          else Ok ())))"

definition check_pubkey_encoding :: "bytes \<Rightarrow> verification_flags \<Rightarrow> unit sres" where
  "check_pubkey_encoding v flags =
     (if verify_strictenc flags \<and> \<not> is_public_key v then Err PubkeyType else Ok ())"

definition check_minimal_push :: "bytes \<Rightarrow> opcode \<Rightarrow> bool" where
  "check_minimal_push data opcode =
     (if data = [] then opcode = OP_0
      else if length data = 1 \<and> data ! 0 \<ge> 1 \<and> data ! 0 \<le> 16
        then discriminant opcode = discriminant OP_1 + (data ! 0 - 1)
      else if length data = 1 \<and> data ! 0 = 0x81 then opcode = OP_1NEGATE
      else if length data \<le> 75 then unat (discriminant opcode) = length data
      else if length data \<le> 255 then opcode = OP_PUSHDATA1
      else if length data \<le> 65535 then opcode = OP_PUSHDATA2
      else True)"

definition cast_to_bool :: "bytes \<Rightarrow> bool" where
  "cast_to_bool data =
     (if data = [] then False
      else if list_ex (\<lambda>x. x \<noteq> 0) (butlast data) then True
      else \<not> (last data = 0 \<or> last data = 0x80))"


section \<open>Interpreter state\<close>

record machine =
  m_stack :: "bytes stack"
  m_altstack :: "bytes stack"
  m_exec_stack :: "bool list"
  m_begincode :: nat

record eval_env =
  e_script :: script
  e_flags :: verification_flags
  e_checker :: signature_checker
  e_version :: signature_version
  e_hasher :: hasher

text \<open>An arm that works on the main stack only.\<close>

definition on_stack :: "machine \<Rightarrow> (bytes stack \<Rightarrow> bytes stack sres) \<Rightarrow> machine sres" where
  "on_stack m f = and_then (f (m_stack m)) (\<lambda>s. Ok (m\<lparr>m_stack := s\<rparr>))"

definition push_bool_bytes :: "bytes stack \<Rightarrow> bool \<Rightarrow> bytes stack" where
  "push_bool_bytes s b = stack_push s (if b then [1] else [])"

definition push_num_bytes :: "bytes stack \<Rightarrow> num \<Rightarrow> bytes stack sres" where
  "push_num_bytes s n = and_then (num_to_bytes n) (\<lambda>b. Ok (stack_push s b))"

text \<open>\<open>Num::from_slice(&stack.pop()?, flags.verify_minimaldata, 4)?\<close>\<close>

definition pop_num :: "verification_flags \<Rightarrow> bytes stack \<Rightarrow> (num \<times> bytes stack) sres" where
  "pop_num flags s =
     and_then (stack_pop s) (\<lambda>(v, s).
     and_then (from_slice v (verify_minimaldata flags) 4) (\<lambda>n. Ok (n, s)))"


section \<open>Pushes, splices and bitwise operations\<close>

definition op_push_data :: "instruction \<Rightarrow> bytes stack \<Rightarrow> bytes stack sres" where
  "op_push_data i s = (case data_of i of Some d \<Rightarrow> Ok (stack_push s d) | None \<Rightarrow> Ok s)"

definition op_push_value :: "opcode \<Rightarrow> bytes stack \<Rightarrow> bytes stack sres" where
  "op_push_value opcode s =
     push_num_bytes s (uint (discriminant opcode) - (uint (discriminant OP_1) - 1))"

definition op_cat :: "bytes stack \<Rightarrow> bytes stack sres" where
  "op_cat s =
     and_then (stack_pop s) (\<lambda>(value_to_append, s).
     and_then (stack_last s) (\<lambda>value_to_update.
       if length value_to_update + length value_to_append > MAX_SCRIPT_ELEMENT_SIZE
       then Err PushSize
       else stack_set_last s (value_to_update @ value_to_append)))"

definition op_split :: "verification_flags \<Rightarrow> bytes stack \<Rightarrow> bytes stack sres" where
  "op_split flags s =
     and_then (pop_num flags s) (\<lambda>(n, s).
       if is_negative n then Err InvalidStackOperation
       else let n = num_to_usize n in
         and_then (stack_last s) (\<lambda>value_to_split.
           if n > length value_to_split then Err InvalidSplitRange
           else and_then (stack_set_last s (take n value_to_split)) (\<lambda>s.
             Ok (stack_push s (drop n value_to_split)))))"

definition op_bitwise :: "(u8 \<Rightarrow> u8 \<Rightarrow> u8) \<Rightarrow> bytes stack \<Rightarrow> bytes stack sres" where
  "op_bitwise f s =
     and_then (stack_pop s) (\<lambda>(msk, s).
     and_then (stack_last s) (\<lambda>value_to_update.
       if length msk \<noteq> length value_to_update then Err InvalidOperandSize
       else stack_set_last s (map2 f value_to_update msk)))"

definition op_div :: "verification_flags \<Rightarrow> bytes stack \<Rightarrow> bytes stack sres" where
  "op_div flags s =
     and_then (pop_num flags s) (\<lambda>(v1, s).
     and_then (pop_num flags s) (\<lambda>(v2, s).
       if is_zero v2 then Err DivisionByZero
       else and_then (num_div v1 v2) (push_num_bytes s)))"

definition op_mod :: "verification_flags \<Rightarrow> bytes stack \<Rightarrow> bytes stack sres" where
  "op_mod flags s =
     and_then (pop_num flags s) (\<lambda>(v1, s).
     and_then (pop_num flags s) (\<lambda>(v2, s).
       if is_zero v2 then Err DivisionByZero
       else and_then (num_rem v1 v2) (push_num_bytes s)))"

definition op_bin2num :: "bytes stack \<Rightarrow> bytes stack sres" where
  "op_bin2num s =
     and_then (stack_pop s) (\<lambda>(bin, s).
     and_then (minimally_encode bin 4) (push_num_bytes s))"

definition vec_resize :: "bytes \<Rightarrow> nat \<Rightarrow> u8 \<Rightarrow> bytes" where
  "vec_resize xs n v = take n xs @ replicate (n - length xs) v"

definition extend_num :: "bytes \<Rightarrow> nat \<Rightarrow> bytes" where
  "extend_num n bin_size =
     (let sign_byte = (if n = [] then 0x00 else last n AND 0x80);
          n = (if n = [] then [] else butlast n @ [last n AND 0x7f]) in
      vec_resize n (bin_size - 1) 0x00 @ [sign_byte])"

definition op_num2bin :: "verification_flags \<Rightarrow> bytes stack \<Rightarrow> bytes stack sres" where
  "op_num2bin flags s =
     and_then (pop_num flags s) (\<lambda>(bin_size, s).
       if is_negative bin_size \<or> bin_size > num_from_usize MAX_SCRIPT_ELEMENT_SIZE then Err PushSize
       else let bin_size = num_to_usize bin_size in
         and_then (stack_pop s) (\<lambda>(v, s).
         and_then (minimally_encode v 4) (\<lambda>n.
         and_then (num_to_bytes n) (\<lambda>n.
           if length n > bin_size then Err ImpossibleEncoding
           else Ok (stack_push s (if length n < bin_size then extend_num n bin_size else n))))))"


section \<open>Lock times\<close>

definition op_checklocktimeverify :: "eval_env \<Rightarrow> bytes stack \<Rightarrow> bytes stack sres" where
  "op_checklocktimeverify env s =
     (let flags = e_flags env in
      if verify_locktime flags then
        and_then (stack_last s) (\<lambda>top.
        and_then (from_slice top (verify_minimaldata flags) 5) (\<lambda>lock_time.
          if is_negative lock_time then Err NegativeLocktime
          else and_then (check_lock_time (e_checker env) lock_time) (\<lambda>ok.
            if \<not> ok then Err UnsatisfiedLocktime else Ok s)))
      else if verify_discourage_upgradable_nops flags then Err DiscourageUpgradableNops
      else Ok s)"

definition op_checksequenceverify :: "eval_env \<Rightarrow> bytes stack \<Rightarrow> bytes stack sres" where
  "op_checksequenceverify env s =
     (let flags = e_flags env in
      if verify_checksequence flags then
        and_then (stack_last s) (\<lambda>top.
        and_then (from_slice top (verify_minimaldata flags) 5) (\<lambda>sequence.
          if is_negative sequence then Err NegativeLocktime
          else and_then
            (if is_zero (num_bitand sequence (uint SEQUENCE_LOCKTIME_DISABLE_FLAG))
             then check_sequence (e_checker env) sequence else Ok True) (\<lambda>ok.
            if \<not> ok then Err UnsatisfiedLocktime else Ok s)))
      else if verify_discourage_upgradable_nops flags then Err DiscourageUpgradableNops
      else Ok s)"

definition op_upgradable_nop :: "verification_flags \<Rightarrow> bytes stack \<Rightarrow> bytes stack sres" where
  "op_upgradable_nop flags s =
     (if verify_discourage_upgradable_nops flags then Err DiscourageUpgradableNops else Ok s)"


section \<open>Control flow\<close>

definition op_if :: "opcode \<Rightarrow> bool \<Rightarrow> machine \<Rightarrow> machine sres" where
  "op_if opcode executing m =
     (if executing then
        and_then (map_err (\<lambda>_. UnbalancedConditional) (stack_pop (m_stack m))) (\<lambda>(v, s).
          let exec_value = cast_to_bool v;
              exec_value = (if opcode = OP_NOTIF then \<not> exec_value else exec_value) in
          Ok (m\<lparr>m_stack := s, m_exec_stack := m_exec_stack m @ [exec_value]\<rparr>))
      else Ok (m\<lparr>m_exec_stack := m_exec_stack m @ [False]\<rparr>))"

definition op_else :: "machine \<Rightarrow> machine sres" where
  "op_else m =
     (if m_exec_stack m = [] then Err UnbalancedConditional
      else let last_index = length (m_exec_stack m) - 1 in
        Ok (m\<lparr>m_exec_stack := (m_exec_stack m)[last_index := \<not> m_exec_stack m ! last_index]\<rparr>))"

definition op_endif :: "machine \<Rightarrow> machine sres" where
  "op_endif m =
     (if m_exec_stack m = [] then Err UnbalancedConditional
      else Ok (m\<lparr>m_exec_stack := butlast (m_exec_stack m)\<rparr>))"

definition op_verify :: "bytes stack \<Rightarrow> bytes stack sres" where
  "op_verify s =
     and_then (stack_pop s) (\<lambda>(v, s). if \<not> cast_to_bool v then Err Verify else Ok s)"

definition op_toaltstack :: "machine \<Rightarrow> machine sres" where
  "op_toaltstack m =
     and_then (stack_pop (m_stack m)) (\<lambda>(v, s).
       Ok (m\<lparr>m_stack := s, m_altstack := stack_push (m_altstack m) v\<rparr>))"

definition op_fromaltstack :: "machine \<Rightarrow> machine sres" where
  "op_fromaltstack m =
     and_then (map_err (\<lambda>_. InvalidAltstackOperation) (stack_pop (m_altstack m))) (\<lambda>(v, a).
       Ok (m\<lparr>m_stack := stack_push (m_stack m) v, m_altstack := a\<rparr>))"


section \<open>Stack, comparison and arithmetic\<close>

definition op_ifdup :: "bytes stack \<Rightarrow> bytes stack sres" where
  "op_ifdup s = and_then (stack_last s) (\<lambda>v. if cast_to_bool v then stack_dup s 1 else Ok s)"

definition op_depth :: "bytes stack \<Rightarrow> bytes stack sres" where
  "op_depth s = push_num_bytes s (num_from_usize (length s))"

definition op_drop :: "bytes stack \<Rightarrow> bytes stack sres" where
  "op_drop s = and_then (stack_pop s) (\<lambda>(_, s). Ok s)"

definition op_pick_roll :: "verification_flags \<Rightarrow> opcode \<Rightarrow> bytes stack \<Rightarrow> bytes stack sres" where
  "op_pick_roll flags opcode s =
     and_then (pop_num flags s) (\<lambda>(n, s).
       if n < 0 \<or> n \<ge> signed_take_bit 63 (int (length s)) then Err InvalidStackOperation
       else and_then
         (if opcode = OP_PICK then and_then (stack_top s (num_to_usize n)) (\<lambda>v. Ok (v, s))
          else stack_remove s (num_to_usize n)) (\<lambda>(v, s).
         Ok (stack_push s v)))"

definition op_size :: "bytes stack \<Rightarrow> bytes stack sres" where
  "op_size s = and_then (stack_last s) (\<lambda>v. push_num_bytes s (num_from_usize (length v)))"

definition op_equal :: "bytes stack \<Rightarrow> bytes stack sres" where
  "op_equal s =
     and_then (stack_pop s) (\<lambda>(v1, s).
     and_then (stack_pop s) (\<lambda>(v2, s). Ok (push_bool_bytes s (v1 = v2))))"

definition op_equalverify :: "bytes stack \<Rightarrow> bytes stack sres" where
  "op_equalverify s =
     and_then (stack_pop s) (\<lambda>(v1, s).
     and_then (stack_pop s) (\<lambda>(v2, s). if v1 \<noteq> v2 then Err EqualVerify else Ok s))"

text \<open>An operation on the top number: pop it, compute, push the result.\<close>

definition op_unary :: "verification_flags \<Rightarrow> (num \<Rightarrow> num sres) \<Rightarrow> bytes stack \<Rightarrow> bytes stack sres" where
  "op_unary flags f s =
     and_then (pop_num flags s) (\<lambda>(n, s). and_then (f n) (push_num_bytes s))"

text \<open>An operation on the two top numbers; \<open>v1\<close> is the top one.\<close>

definition op_binary ::
  "verification_flags \<Rightarrow> (num \<Rightarrow> num \<Rightarrow> num sres) \<Rightarrow> bytes stack \<Rightarrow> bytes stack sres" where
  "op_binary flags f s =
     and_then (pop_num flags s) (\<lambda>(v1, s).
     and_then (pop_num flags s) (\<lambda>(v2, s). and_then (f v1 v2) (push_num_bytes s)))"

definition op_numequalverify :: "verification_flags \<Rightarrow> bytes stack \<Rightarrow> bytes stack sres" where
  "op_numequalverify flags s =
     and_then (pop_num flags s) (\<lambda>(v1, s).
     and_then (pop_num flags s) (\<lambda>(v2, s). if v1 \<noteq> v2 then Err NumEqualVerify else Ok s))"

definition op_within :: "verification_flags \<Rightarrow> bytes stack \<Rightarrow> bytes stack sres" where
  "op_within flags s =
     and_then (pop_num flags s) (\<lambda>(v1, s).
     and_then (pop_num flags s) (\<lambda>(v2, s).
     and_then (pop_num flags s) (\<lambda>(v3, s). Ok (push_bool_bytes s (v2 \<le> v3 \<and> v3 < v1)))))"

definition op_hash :: "(bytes \<Rightarrow> bytes) \<Rightarrow> bytes stack \<Rightarrow> bytes stack sres" where
  "op_hash f s = and_then (stack_pop s) (\<lambda>(v, s). Ok (stack_push s (f v)))"


section \<open>Signatures\<close>

text \<open>The \<open>match version\<close> that deletes a signature from the script code.\<close>

definition strip_signature :: "signature_version \<Rightarrow> bytes \<Rightarrow> script \<Rightarrow> script sres" where
  "strip_signature version signature code =
     (if version = ForkId \<and> fork_id (parse_hash_type version signature) then Ok code
      else if version = WitnessV0 then Ok code
      else and_then (push_data [] signature) (\<lambda>signature_script.
        Ok (find_and_delete code signature_script)))"

definition op_checksig :: "eval_env \<Rightarrow> opcode \<Rightarrow> nat \<Rightarrow> bytes stack \<Rightarrow> bytes stack sres" where
  "op_checksig env opcode begincode s =
     and_then (stack_pop s) (\<lambda>(pubkey, s).
     and_then (stack_pop s) (\<lambda>(signature, s).
     and_then (subscript (e_script env) begincode) (\<lambda>code.
     and_then (strip_signature (e_version env) signature code) (\<lambda>code.
     and_then (check_signature_encoding signature (e_flags env) (e_version env)) (\<lambda>_.
     and_then (check_pubkey_encoding pubkey (e_flags env)) (\<lambda>_.
     and_then (check_signature (e_checker env) signature pubkey code (e_version env)) (\<lambda>success.
       if opcode = OP_CHECKSIG then Ok (push_bool_bytes s success)
       else if opcode = OP_CHECKSIGVERIFY \<and> \<not> success then Err CheckSigVerify
       else Ok s)))))))"

text \<open>\<open>(0..n).map(|_| stack.pop()).collect::<Result<_, _>>()\<close>\<close>

fun stack_pop_n :: "nat \<Rightarrow> bytes stack \<Rightarrow> (bytes list \<times> bytes stack) sres" where
  "stack_pop_n 0 s = Ok ([], s)"
| "stack_pop_n (Suc n) s =
     and_then (stack_pop s) (\<lambda>(v, s).
     and_then (stack_pop_n n s) (\<lambda>(vs, s). Ok (v # vs, s)))"

fun strip_signatures :: "signature_version \<Rightarrow> bytes list \<Rightarrow> script \<Rightarrow> script sres" where
  "strip_signatures version [] code = Ok code"
| "strip_signatures version (signature # sigs) code =
     and_then (strip_signature version signature code) (strip_signatures version sigs)"

text \<open>
  The matching loop: \<open>k\<close> and \<open>s\<close> index the keys and signatures, and \<open>keys[k]\<close> and
  \<open>keys.len() - k\<close> can panic.
\<close>

function multisig_loop ::
  "eval_env \<Rightarrow> script \<Rightarrow> bytes list \<Rightarrow> bytes list \<Rightarrow> nat \<Rightarrow> nat \<Rightarrow> bool \<Rightarrow> bool sres" where
  "multisig_loop env code keys sigs k s success =
     (if s < length sigs \<and> success then
        and_then (index keys k) (\<lambda>key.
        and_then (index sigs s) (\<lambda>sig.
        and_then (check_signature_encoding sig (e_flags env) (e_version env)) (\<lambda>_.
        and_then (check_pubkey_encoding key (e_flags env)) (\<lambda>_.
        and_then (check_signature (e_checker env) sig key code (e_version env)) (\<lambda>ok.
          let s' = (if ok then s + 1 else s); k' = k + 1 in
          if length keys < k' \<or> length sigs < s' then Panic
          else multisig_loop env code keys sigs k' s' (length sigs - s' \<le> length keys - k'))))))
      else Ok success)"
  by pat_completeness auto
termination
  by (relation "measure (\<lambda>(env, code, keys, sigs, k, s, success). length keys - k)") auto

declare multisig_loop.simps [simp del]

definition op_checkmultisig :: "eval_env \<Rightarrow> opcode \<Rightarrow> nat \<Rightarrow> bytes stack \<Rightarrow> bytes stack sres" where
  "op_checkmultisig env opcode begincode s =
     and_then (pop_num (e_flags env) s) (\<lambda>(keys_count, s).
     if keys_count < 0 \<or> keys_count > num_from_usize MAX_PUBKEYS_PER_MULTISIG then Err PubkeyCount
     else let keys_count = num_to_usize keys_count in
     and_then (stack_pop_n keys_count s) (\<lambda>(keys, s).
     and_then (pop_num (e_flags env) s) (\<lambda>(sigs_count, s).
     if sigs_count < 0 \<or> sigs_count > num_from_usize keys_count then Err SigCount
     else let sigs_count = num_to_usize sigs_count in
     and_then (stack_pop_n sigs_count s) (\<lambda>(sigs, s).
     and_then (subscript (e_script env) begincode) (\<lambda>code.
     and_then (strip_signatures (e_version env) sigs code) (\<lambda>code.
     and_then (multisig_loop env code keys sigs 0 0 True) (\<lambda>success.
     and_then (stack_pop s) (\<lambda>(dummy, s).
       if dummy \<noteq> [] \<and> verify_nulldummy (e_flags env) then Err SignatureNullDummy
       else if opcode = OP_CHECKMULTISIG then Ok (push_bool_bytes s success)
       else if opcode = OP_CHECKMULTISIGVERIFY \<and> \<not> success then Err CheckSigVerify
       else Ok s))))))))"

definition op_checkdatasig :: "eval_env \<Rightarrow> opcode \<Rightarrow> bytes stack \<Rightarrow> bytes stack sres" where
  "op_checkdatasig env opcode s =
     and_then (stack_pop s) (\<lambda>(pubkey, s).
     and_then (stack_pop s) (\<lambda>(message, s).
     and_then (stack_pop s) (\<lambda>(signature, s).
     and_then (check_signature_encoding signature (e_flags env) (e_version env)) (\<lambda>_.
     and_then (check_pubkey_encoding pubkey (e_flags env)) (\<lambda>_.
     let message_hash = sha256 (e_hasher env) message in
     and_then (verify_signature (e_checker env) signature pubkey message_hash) (\<lambda>success.
       if opcode = OP_CHECKDATASIG then Ok (push_bool_bytes s success)
       else if opcode = OP_CHECKDATASIGVERIFY \<and> \<not> success then Err CheckDataSigVerify
       else Ok s))))))"



section \<open>The arms of the match\<close>

text \<open>
  \<open>match opcode\<close>, in the order of the source and in four groups, each of which ends by trying
  the next one.  The last group ends with the arms for reserved opcodes.
\<close>

definition exec_signature_op :: "eval_env \<Rightarrow> opcode \<Rightarrow> nat \<Rightarrow> bool \<Rightarrow> machine \<Rightarrow> machine sres" where
  "exec_signature_op env opcode pc executing m =
     (if opcode = OP_RIPEMD160 then on_stack m (op_hash (ripemd160 (e_hasher env)))
      else if opcode = OP_SHA1 then on_stack m (op_hash (sha1 (e_hasher env)))
      else if opcode = OP_SHA256 then on_stack m (op_hash (sha256 (e_hasher env)))
      else if opcode = OP_HASH160 then on_stack m (op_hash (dhash160 (e_hasher env)))
      else if opcode = OP_HASH256 then on_stack m (op_hash (dhash256 (e_hasher env)))
      else if opcode = OP_CODESEPARATOR then Ok (m\<lparr>m_begincode := pc\<rparr>)
      else if opcode = OP_CHECKSIG \<or> opcode = OP_CHECKSIGVERIFY
        then on_stack m (op_checksig env opcode (m_begincode m))
      else if opcode = OP_CHECKMULTISIG \<or> opcode = OP_CHECKMULTISIGVERIFY
        then on_stack m (op_checkmultisig env opcode (m_begincode m))
      else if opcode = OP_RESERVED \<or> opcode = OP_VER \<or> opcode = OP_RESERVED1 \<or> opcode = OP_RESERVED2
        then if executing then Err (DisabledOpcode opcode) else Ok m
      else if opcode = OP_VERIF \<or> opcode = OP_VERNOTIF then Err (DisabledOpcode opcode)
      else if (opcode = OP_CHECKDATASIG \<or> opcode = OP_CHECKDATASIGVERIFY) \<and> verify_checkdatasig (e_flags env)
        then on_stack m (op_checkdatasig env opcode)
      else Err (DisabledOpcode opcode))"

definition exec_numeric_op :: "eval_env \<Rightarrow> opcode \<Rightarrow> nat \<Rightarrow> bool \<Rightarrow> machine \<Rightarrow> machine sres" where
  "exec_numeric_op env opcode pc executing m =
     (let flags = e_flags env in
      if opcode = OP_1ADD then on_stack m (op_unary flags (\<lambda>n. num_add n 1))
      else if opcode = OP_1SUB then on_stack m (op_unary flags (\<lambda>n. num_sub n 1))
      else if opcode = OP_NEGATE then on_stack m (op_unary flags num_neg)
      else if opcode = OP_ABS then on_stack m (op_unary flags num_abs)
      else if opcode = OP_NOT then on_stack m (op_unary flags (\<lambda>n. Ok (num_from_bool (is_zero n))))
      else if opcode = OP_0NOTEQUAL
        then on_stack m (op_unary flags (\<lambda>n. Ok (num_from_bool (\<not> is_zero n))))
      else if opcode = OP_ADD then on_stack m (op_binary flags num_add)
      else if opcode = OP_SUB then on_stack m (op_binary flags (\<lambda>v1 v2. num_sub v2 v1))
      else if opcode = OP_BOOLAND
        then on_stack m (op_binary flags (\<lambda>v1 v2. Ok (num_from_bool (\<not> is_zero v1 \<and> \<not> is_zero v2))))
      else if opcode = OP_BOOLOR
        then on_stack m (op_binary flags (\<lambda>v1 v2. Ok (num_from_bool (\<not> is_zero v1 \<or> \<not> is_zero v2))))
      else if opcode = OP_NUMEQUAL
        then on_stack m (op_binary flags (\<lambda>v1 v2. Ok (num_from_bool (v1 = v2))))
      else if opcode = OP_NUMEQUALVERIFY then on_stack m (op_numequalverify flags)
      else if opcode = OP_NUMNOTEQUAL
        then on_stack m (op_binary flags (\<lambda>v1 v2. Ok (num_from_bool (v1 \<noteq> v2))))
      else if opcode = OP_LESSTHAN
        then on_stack m (op_binary flags (\<lambda>v1 v2. Ok (num_from_bool (v1 > v2))))
      else if opcode = OP_GREATERTHAN
        then on_stack m (op_binary flags (\<lambda>v1 v2. Ok (num_from_bool (v1 < v2))))
      else if opcode = OP_LESSTHANOREQUAL
        then on_stack m (op_binary flags (\<lambda>v1 v2. Ok (num_from_bool (v1 \<ge> v2))))
      else if opcode = OP_GREATERTHANOREQUAL
        then on_stack m (op_binary flags (\<lambda>v1 v2. Ok (num_from_bool (v1 \<le> v2))))
      else if opcode = OP_MIN then on_stack m (op_binary flags (\<lambda>v1 v2. Ok (min v1 v2)))
      else if opcode = OP_MAX then on_stack m (op_binary flags (\<lambda>v1 v2. Ok (max v1 v2)))
      else if opcode = OP_WITHIN then on_stack m (op_within flags)
      else exec_signature_op env opcode pc executing m)"

definition exec_stack_op :: "eval_env \<Rightarrow> opcode \<Rightarrow> nat \<Rightarrow> bool \<Rightarrow> machine \<Rightarrow> machine sres" where
  "exec_stack_op env opcode pc executing m =
     (if opcode = OP_IF \<or> opcode = OP_NOTIF then op_if opcode executing m
      else if opcode = OP_ELSE then op_else m
      else if opcode = OP_ENDIF then op_endif m
      else if opcode = OP_VERIFY then on_stack m op_verify
      else if opcode = OP_RETURN then Err ReturnOpcode
      else if opcode = OP_TOALTSTACK then op_toaltstack m
      else if opcode = OP_FROMALTSTACK then op_fromaltstack m
      else if opcode = OP_2DROP then on_stack m (\<lambda>s. stack_drop s 2)
      else if opcode = OP_2DUP then on_stack m (\<lambda>s. stack_dup s 2)
      else if opcode = OP_3DUP then on_stack m (\<lambda>s. stack_dup s 3)
      else if opcode = OP_2OVER then on_stack m (\<lambda>s. stack_over s 2)
      else if opcode = OP_2ROT then on_stack m (\<lambda>s. stack_rot s 2)
      else if opcode = OP_2SWAP then on_stack m (\<lambda>s. stack_swap s 2)
      else if opcode = OP_IFDUP then on_stack m op_ifdup
      else if opcode = OP_DEPTH then on_stack m op_depth
      else if opcode = OP_DROP then on_stack m op_drop
      else if opcode = OP_DUP then on_stack m (\<lambda>s. stack_dup s 1)
      else if opcode = OP_NIP then on_stack m stack_nip
      else if opcode = OP_OVER then on_stack m (\<lambda>s. stack_over s 1)
      else if opcode = OP_PICK \<or> opcode = OP_ROLL then on_stack m (op_pick_roll (e_flags env) opcode)
      else if opcode = OP_ROT then on_stack m (\<lambda>s. stack_rot s 1)
      else if opcode = OP_SWAP then on_stack m (\<lambda>s. stack_swap s 1)
      else if opcode = OP_TUCK then on_stack m stack_tuck
      else if opcode = OP_SIZE then on_stack m op_size
      else if opcode = OP_EQUAL then on_stack m op_equal
      else if opcode = OP_EQUALVERIFY then on_stack m op_equalverify
      else exec_numeric_op env opcode pc executing m)"

definition exec_opcode :: "eval_env \<Rightarrow> instruction \<Rightarrow> nat \<Rightarrow> bool \<Rightarrow> machine \<Rightarrow> machine sres" where
  "exec_opcode env instruction pc executing m =
     (let opcode = opcode_of instruction; flags = e_flags env in
      if opcode \<le> OP_PUSHDATA4 then on_stack m (op_push_data instruction)
      else if opcode = OP_1NEGATE \<or> is_within_op_n opcode then on_stack m (op_push_value opcode)
      else if opcode = OP_CAT \<and> verify_concat flags then on_stack m op_cat
      else if opcode = OP_SUBSTR \<and> verify_split flags then on_stack m (op_split flags)
      else if opcode = OP_AND \<and> verify_and flags then on_stack m (op_bitwise (AND))
      else if opcode = OP_OR \<and> verify_or flags then on_stack m (op_bitwise (OR))
      else if opcode = OP_XOR \<and> verify_xor flags then on_stack m (op_bitwise (XOR))
      else if opcode = OP_DIV \<and> verify_div flags then on_stack m (op_div flags)
      else if opcode = OP_MOD \<and> verify_mod flags then on_stack m (op_mod flags)
      else if opcode = OP_RIGHT \<and> verify_bin2num flags then on_stack m op_bin2num
      else if opcode = OP_LEFT \<and> verify_num2bin flags then on_stack m (op_num2bin flags)
      else if OP_CAT \<le> opcode \<and> opcode \<le> OP_RIGHT \<or> OP_INVERT \<le> opcode \<and> opcode \<le> OP_XOR \<or>
        opcode = OP_2MUL \<or> opcode = OP_2DIV \<or> OP_MUL \<le> opcode \<and> opcode \<le> OP_RSHIFT
        then Err (DisabledOpcode opcode)
      else if opcode = OP_NOP then Ok m
      else if opcode = OP_CHECKLOCKTIMEVERIFY then on_stack m (op_checklocktimeverify env)
      else if opcode = OP_CHECKSEQUENCEVERIFY then on_stack m (op_checksequenceverify env)
      else if opcode = OP_NOP1 \<or> OP_NOP4 \<le> opcode \<and> opcode \<le> OP_NOP10
        then on_stack m (op_upgradable_nop flags)
      else exec_stack_op env opcode pc executing m)"


section \<open>The evaluation loop\<close>

text \<open>
  One round of the loop, from position \<open>pc\<close> and operation count \<open>op_count\<close> (the count is a
  \<open>u32\<close> in the source and never exceeds 202).
\<close>

definition eval_step :: "eval_env \<Rightarrow> nat \<Rightarrow> nat \<Rightarrow> machine \<Rightarrow> (nat \<times> nat \<times> machine) sres" where
  "eval_step env pc op_count m =
     (let flags = e_flags env; executing = list_all (\<lambda>x. x) (m_exec_stack m) in
      case get_instruction (e_script env) pc of
        Panic \<Rightarrow> Panic
      | Err e \<Rightarrow> if e = BadOpcode \<and> \<not> executing then Ok (pc + 1, op_count, m) else Err e
      | Ok instruction \<Rightarrow>
          (let opcode = opcode_of instruction in
           and_then
             (case data_of instruction of
                Some d \<Rightarrow>
                  if length d > MAX_SCRIPT_ELEMENT_SIZE then Err PushSize
                  else if executing \<and> verify_minimaldata flags \<and> \<not> check_minimal_push d opcode
                  then Err Minimaldata else Ok ()
              | None \<Rightarrow> Ok ()) (\<lambda>_.
           let op_count = (if is_countable opcode then op_count + 1 else op_count) in
           if is_countable opcode \<and> op_count > MAX_OPS_PER_SCRIPT then Err OpCount
           else if is_disabled opcode flags then Err (DisabledOpcode opcode)
           else let pc = pc + step_of instruction in
             if \<not> (executing \<or> OP_IF \<le> opcode \<and> opcode \<le> OP_ENDIF) then Ok (pc, op_count, m)
             else and_then (exec_opcode env instruction pc executing m) (\<lambda>m.
               if length (m_stack m) + length (m_altstack m) > 1000 then Err StackSize
               else Ok (pc, op_count, m)))))"

lemma eval_step_advances:
  "eval_step env pc op_count m = Ok (pc', c', m') \<Longrightarrow> pc < pc'"
  by (auto simp: eval_step_def Let_def dest: get_instruction_bounds(1)
      split: outcome.splits if_splits)

function eval_loop :: "eval_env \<Rightarrow> nat \<Rightarrow> nat \<Rightarrow> machine \<Rightarrow> machine sres" where
  "eval_loop env pc op_count m =
     (if pc < length (e_script env)
      then and_then (eval_step env pc op_count m) (\<lambda>(pc, op_count, m). eval_loop env pc op_count m)
      else Ok m)"
  by pat_completeness auto
termination
  by (relation "measure (\<lambda>(env, pc, op_count, m). length (e_script env) - pc)")
    (auto dest: eval_step_advances)

declare eval_loop.simps [simp del]

definition eval_script :: "eval_env \<Rightarrow> bytes stack \<Rightarrow> (bool \<times> bytes stack) sres" where
  "eval_script env s =
     (if length (e_script env) > MAX_SCRIPT_SIZE then Err ScriptSize
      else and_then
        (eval_loop env 0 0 \<lparr> m_stack = s, m_altstack = [], m_exec_stack = [], m_begincode = 0 \<rparr>) (\<lambda>m.
        if m_exec_stack m \<noteq> [] then Err UnbalancedConditional
        else if m_stack m = [] then Ok (False, m_stack m)
        else and_then (stack_last (m_stack m)) (\<lambda>v. Ok (cast_to_bool v, m_stack m))))"



section \<open>Witness programs and whole inputs\<close>

definition mk_env ::
  "hasher \<Rightarrow> verification_flags \<Rightarrow> signature_checker \<Rightarrow> signature_version \<Rightarrow> script \<Rightarrow> eval_env" where
  "mk_env h flags checker version script =
     \<lparr> e_script = script, e_flags = flags, e_checker = checker, e_version = version, e_hasher = h \<rparr>"

text \<open>The stack and script that a version-0 witness program is run with.\<close>

definition witness_program_inputs ::
  "hasher \<Rightarrow> bytes list \<Rightarrow> bytes \<Rightarrow> (bytes stack \<times> script) sres" where
  "witness_program_inputs h witness witness_program =
     (if length witness_program = 32 then
        if length witness = 0 then Err WitnessProgramWitnessEmpty
        else if sha256 h (last witness) \<noteq> take 32 witness_program then Err WitnessProgramMismatch
        else Ok (butlast witness, last witness)
      else if length witness_program = 20 then
        if length witness \<noteq> 2 then Err WitnessProgramMismatch
        else and_then (push_data (push_opcode (push_opcode [] OP_DUP) OP_HASH160) witness_program) (\<lambda>b.
          Ok (witness, push_opcode (push_opcode b OP_EQUALVERIFY) OP_CHECKSIG))
      else Err WitnessProgramWrongLength)"

definition verify_witness_program ::
  "hasher \<Rightarrow> bytes list \<Rightarrow> u8 \<Rightarrow> bytes \<Rightarrow> verification_flags \<Rightarrow> signature_checker \<Rightarrow> bool sres" where
  "verify_witness_program h witness witness_version witness_program flags checker =
     (if witness_version \<noteq> 0 then
        if verify_discourage_upgradable_witness_program flags
        then Err DiscourageUpgradableWitnessProgram else Ok True
      else and_then (witness_program_inputs h witness witness_program) (\<lambda>(stack, script_pubkey).
        if list_ex (\<lambda>s. length s > MAX_SCRIPT_ELEMENT_SIZE) stack then Err PushSize
        else and_then (eval_script (mk_env h flags checker WitnessV0 script_pubkey) stack) (\<lambda>(res, stack).
          if \<not> res then Ok False
          else if length stack \<noteq> 1 then Err EvalFalse
          else case stack_last stack of Ok v \<Rightarrow> Ok (cast_to_bool v) | _ \<Rightarrow> Panic)))"

text \<open>
  The witness part of \<open>verify_script\<close> for a \<open>script_pubkey\<close> that is itself a witness program;
  it returns \<open>had_witness\<close> and \<open>verify_cleanstack\<close>.
\<close>

definition verify_pubkey_witness ::
  "hasher \<Rightarrow> script \<Rightarrow> script \<Rightarrow> bytes list \<Rightarrow> verification_flags \<Rightarrow> signature_checker \<Rightarrow> (bool \<times> bool) sres" where
  "verify_pubkey_witness h script_sig script_pubkey witness flags checker =
     (if verify_witness flags then
        (case parse_witness_program script_pubkey of
           None \<Rightarrow> Ok (False, verify_cleanstack flags)
         | Some (witness_version, witness_program) \<Rightarrow>
             if script_sig \<noteq> [] then Err WitnessMalleated
             else and_then
               (verify_witness_program h witness witness_version witness_program flags checker) (\<lambda>ok.
               if \<not> ok then Err EvalFalse else Ok (True, False)))
      else Ok (False, verify_cleanstack flags))"

text \<open>The pay-to-script-hash part of \<open>verify_script\<close>, run on the stack that \<open>script_sig\<close> left.\<close>

definition verify_p2sh_script ::
  "hasher \<Rightarrow> script \<Rightarrow> bytes list \<Rightarrow> verification_flags \<Rightarrow> signature_checker \<Rightarrow> signature_version \<Rightarrow>
   bytes stack \<Rightarrow> bool \<Rightarrow> bool \<Rightarrow> (bytes stack \<times> bool \<times> bool) sres" where
  "verify_p2sh_script h script_sig witness flags checker version stack had_witness cleanstack =
     (if \<not> is_push_only script_sig then Err SignaturePushOnly
      else if stack = [] then Panic
      else and_then (stack_pop stack) (\<lambda>(pubkey2, stack).
      and_then (eval_script (mk_env h flags checker version pubkey2) stack) (\<lambda>(res, stack).
      if \<not> res then Err EvalFalse
      else if verify_witness flags then
        (case parse_witness_program pubkey2 of
           None \<Rightarrow> Ok (stack, had_witness, cleanstack)
         | Some (witness_version, witness_program) \<Rightarrow>
             and_then (push_data [] pubkey2) (\<lambda>expected.
             if script_sig \<noteq> expected then Err WitnessMalleatedP2SH
             else and_then
               (verify_witness_program h witness witness_version witness_program flags checker) (\<lambda>ok.
               if \<not> ok then Err EvalFalse else Ok (stack, True, False))))
      else Ok (stack, had_witness, cleanstack))))"

text \<open>The checks at the end, with the two \<open>assert!(flags.verify_p2sh)\<close>.\<close>

definition verify_final :: "verification_flags \<Rightarrow> bytes list \<Rightarrow> bytes stack \<Rightarrow> bool \<Rightarrow> bool \<Rightarrow> unit sres" where
  "verify_final flags witness stack had_witness cleanstack =
     and_then
       (if cleanstack then
          if \<not> verify_p2sh flags then Panic
          else if length stack \<noteq> 1 then Err Cleanstack else Ok ()
        else Ok ()) (\<lambda>_.
       if verify_witness flags then
         if \<not> verify_p2sh flags then Panic
         else if \<not> had_witness \<and> witness \<noteq> [] then Err WitnessUnexpected else Ok ()
       else Ok ())"

definition verify_script ::
  "hasher \<Rightarrow> script \<Rightarrow> script \<Rightarrow> bytes list \<Rightarrow> verification_flags \<Rightarrow> signature_checker \<Rightarrow>
   signature_version \<Rightarrow> unit sres" where
  "verify_script h script_sig script_pubkey witness flags checker version =
     (if verify_sigpushonly flags \<and> \<not> is_push_only script_sig then Err SignaturePushOnly
      else and_then (eval_script (mk_env h flags checker version script_sig) []) (\<lambda>(_, stack).
      let stack_copy = (if verify_p2sh flags then stack else []) in
      and_then (eval_script (mk_env h flags checker version script_pubkey) stack) (\<lambda>(res, stack).
      if \<not> res then Err EvalFalse
      else and_then (verify_pubkey_witness h script_sig script_pubkey witness flags checker) (\<lambda>(had_witness, cleanstack).
      and_then
        (if verify_p2sh flags \<and> is_pay_to_script_hash script_pubkey
         then verify_p2sh_script h script_sig witness flags checker version stack_copy had_witness cleanstack
         else Ok (stack, had_witness, cleanstack)) (\<lambda>(stack, had_witness, cleanstack).
      verify_final flags witness stack had_witness cleanstack)))))"

end
