(* ===== verification/Interpreter_Safety.thy ===== *)
theory Interpreter_Safety
  imports Interpreter
begin

text \<open>
  The interpreter does not panic, and the limits it promises hold: no stack element is longer
  than 520 bytes, no more than 1000 elements are on the two stacks after a round, no more
  than 201 operations are counted.  Each arm is shown to keep the element limit by the rules
  of \<open>safe_rules\<close>; the arms are put together in \<open>exec_opcode_safe\<close>, the rounds in
  \<open>eval_loop_safe\<close>.
\<close>

section \<open>Stacks of small elements\<close>

definition small :: "bytes \<Rightarrow> bool" where
  "small b \<longleftrightarrow> length b \<le> MAX_SCRIPT_ELEMENT_SIZE"

lemma small_simps [simp]:
  "small []" "small [x]" "small (ripemd160 h d)" "small (sha1 h d)" "small (sha256 h d)"
  "small (dhash160 h d)" "small (dhash256 h d)"
  by (simp_all add: small_def script_limits)

lemma list_all_takeI [simp]: "list_all P xs \<Longrightarrow> list_all P (take n xs)"
  by (auto simp: list_all_iff dest: in_set_takeD)

lemma list_all_dropI [simp]: "list_all P xs \<Longrightarrow> list_all P (drop n xs)"
  by (auto simp: list_all_iff dest: in_set_dropD)

lemma list_all_butlastI [simp]: "list_all P xs \<Longrightarrow> list_all P (butlast xs)"
  by (auto simp: list_all_iff dest: in_set_butlastD)

lemma list_all_lastI [simp]: "list_all P xs \<Longrightarrow> xs \<noteq> [] \<Longrightarrow> P (last xs)"
  by (simp add: list_all_iff)

lemma list_all_nthI [simp]: "list_all P xs \<Longrightarrow> i < length xs \<Longrightarrow> P (xs ! i)"
  by (simp add: list_all_length)

lemma stack_push_small [simp]: "list_all small s \<Longrightarrow> small v \<Longrightarrow> list_all small (stack_push s v)"
  by (simp add: stack_push_def)

lemma push_bool_small [simp]: "list_all small s \<Longrightarrow> list_all small (push_bool_bytes s b)"
  by (simp add: push_bool_bytes_def)


section \<open>Rules for the primitives\<close>

lemma safe_then_pop [safe_rules]:
  assumes "list_all small s"
    and "\<And>v s'. small v \<Longrightarrow> list_all small s' \<Longrightarrow> safe P (g v s')"
  shows "safe P (and_then (stack_pop s) (\<lambda>(v, s). g v s))"
    and "safe P (and_then (map_err e (stack_pop s)) (\<lambda>(v, s). g v s))"
  using assms by (simp_all add: stack_pop_def)

lemma safe_then_last [safe_rules]:
  assumes "list_all small s" and "\<And>v. small v \<Longrightarrow> s \<noteq> [] \<Longrightarrow> safe P (f v)"
  shows "safe P (and_then (stack_last s) f)"
  using assms by (simp add: stack_last_def)

lemma safe_set_last:
  "list_all small s \<Longrightarrow> small v \<Longrightarrow> safe (list_all small) (stack_set_last s v)"
  by (simp add: stack_set_last_def)

lemma safe_from_slice: "safe operand (from_slice v m 4)"
  using from_slice_not_Panic [of 4 v m] from_slice_operand [of v m] by (auto simp: safe_alt)

lemma safe_from_slice5: "safe (\<lambda>_. True) (from_slice v m 5)"
  using from_slice_not_Panic [of 5 v m] by (auto simp: safe_alt)

lemma safe_minimally_encode: "safe operand (minimally_encode v 4)"
  using minimally_encode_not_Panic [of 4 v] minimally_encode_operand [of v] by (auto simp: safe_alt)

lemma safe_then_pop_num [safe_rules]:
  assumes "list_all small s"
    and "\<And>n s'. operand n \<Longrightarrow> list_all small s' \<Longrightarrow> safe P (g n s')"
  shows "safe P (and_then (pop_num flags s) (\<lambda>(n, s). g n s))"
proof -
  have "safe (\<lambda>(n, s'). operand n \<and> list_all small s') (pop_num flags s)"
    unfolding pop_num_def
    by (intro safe_rules assms(1) safe_and_then [OF safe_from_slice]) simp
  then show ?thesis by (rule safe_and_then) (auto simp: assms(2))
qed

lemma result_bytes_small: "result_num n \<Longrightarrow> safe small (num_to_bytes n)"
  by (erule result_num_to_bytes) (simp add: small_def script_limits)

lemma safe_push_num [safe_rules]:
  "list_all small s \<Longrightarrow> result_num n \<Longrightarrow> safe (list_all small) (push_num_bytes s n)"
  unfolding push_num_bytes_def
  by (rule safe_and_then [OF result_bytes_small]) simp_all

text \<open>Stack manipulation only moves and copies elements.\<close>

lemma stack_ops_safe [safe_rules]:
  assumes "list_all small s"
  shows "safe (list_all small) (stack_drop s i)" "safe (list_all small) (stack_dup s i)"
    "safe (list_all small) (stack_over s i)" "safe (list_all small) (stack_rot s i)"
    "safe (list_all small) (stack_swap s i)" "safe (list_all small) (stack_nip s)"
    "safe (list_all small) (stack_tuck s)"
  using assms
  by (auto simp: stack_drop_eq stack_dup_eq stack_over_eq stack_rot_eq stack_swap_eq
      nip_tuck_rearranged rearranged_def Let_def)


section \<open>The arms\<close>

named_theorems arm_safe

lemma op_push_data_safe [arm_safe]:
  "list_all small s \<Longrightarrow> pred_option small (data_of i) \<Longrightarrow> safe (list_all small) (op_push_data i s)"
  by (cases "data_of i") (simp_all add: op_push_data_def)

lemma op_push_value_safe [arm_safe]:
  assumes "list_all small s"
  shows "safe (list_all small) (op_push_value op s)"
proof -
  have "result_num (u - (81 - 1))" if "0 \<le> u" "u < 256" for u
    using that by (simp add: result_num_def abs_if)
  then have "result_num (uint (discriminant op) - (uint (discriminant OP_1) - 1))"
    using unsigned_less [of "discriminant op", where 'a = int] by simp
  with assms show ?thesis unfolding op_push_value_def by (intro safe_rules)
qed

lemma op_cat_safe [arm_safe]: "list_all small s \<Longrightarrow> safe (list_all small) (op_cat s)"
  unfolding op_cat_def
  by (intro safe_rules safe_set_last) (simp_all add: small_def)

lemma op_split_safe [arm_safe]: "list_all small s \<Longrightarrow> safe (list_all small) (op_split flags s)"
  unfolding op_split_def
  by (intro safe_rules safe_and_then [OF safe_set_last]) (simp_all add: small_def)

lemma op_bitwise_safe [arm_safe]: "list_all small s \<Longrightarrow> safe (list_all small) (op_bitwise f s)"
  unfolding op_bitwise_def
  by (intro safe_rules safe_set_last) (simp_all add: small_def)

lemma safe_num_div: "operand a \<Longrightarrow> \<not> is_zero b \<Longrightarrow> safe result_num (num_div a b)"
  and safe_num_rem: "operand a \<Longrightarrow> \<not> is_zero b \<Longrightarrow> safe result_num (num_rem a b)"
  by (simp_all add: operand_div is_zero_def)

lemma op_div_safe [arm_safe]: "list_all small s \<Longrightarrow> safe (list_all small) (op_div flags s)"
  unfolding op_div_def by (intro safe_rules safe_and_then [OF safe_num_div])

lemma op_mod_safe [arm_safe]: "list_all small s \<Longrightarrow> safe (list_all small) (op_mod flags s)"
  unfolding op_mod_def by (intro safe_rules safe_and_then [OF safe_num_rem])

lemma op_bin2num_safe [arm_safe]: "list_all small s \<Longrightarrow> safe (list_all small) (op_bin2num s)"
  unfolding op_bin2num_def
  by (intro safe_rules safe_and_then [OF safe_minimally_encode] operand_result)

lemma length_extend_num: "length n < k \<Longrightarrow> length (extend_num n k) = k"
  by (cases n rule: rev_cases) (auto simp: extend_num_def vec_resize_def)

lemma operand_num_to_usize:
  assumes "operand n" and "\<not> is_negative n"
  shows "int (num_to_usize n) = n"
proof -
  have "take_bit 64 n = n"
    using assms by (intro take_bit_int_eq_self) (simp_all add: operand_def is_negative_def abs_if)
  with assms show ?thesis by (simp add: num_to_usize_def is_negative_def)
qed

lemma op_num2bin_safe [arm_safe]:
  assumes "list_all small s"
  shows "safe (list_all small) (op_num2bin flags s)"
proof -
  have limit: "num_from_usize MAX_SCRIPT_ELEMENT_SIZE = 520"
    by (simp add: num_from_usize_def script_limits signed_take_bit_63)
  have size: "num_to_usize b \<le> 520" if "operand b" "\<not> (is_negative b \<or> b > 520)" for b
    using operand_num_to_usize [of b] that by auto
  show ?thesis
    unfolding op_num2bin_def limit
    by (intro safe_rules assms safe_and_then [OF safe_minimally_encode]
        safe_and_then [OF result_bytes_small] operand_result)
      (auto dest: size simp: small_def script_limits length_extend_num)
qed


text \<open>Arms without a signature check.\<close>

lemma op_upgradable_nop_safe [arm_safe]:
  "list_all small s \<Longrightarrow> safe (list_all small) (op_upgradable_nop flags s)"
  by (simp add: op_upgradable_nop_def)

lemma op_verify_safe [arm_safe]: "list_all small s \<Longrightarrow> safe (list_all small) (op_verify s)"
  unfolding op_verify_def by (intro safe_rules) simp_all

lemma op_ifdup_safe [arm_safe]: "list_all small s \<Longrightarrow> safe (list_all small) (op_ifdup s)"
  unfolding op_ifdup_def by (intro safe_rules) simp_all

lemma num_from_usize_small: "n < 2 ^ 39 \<Longrightarrow> result_num (num_from_usize n)"
  by (simp add: num_from_usize_def result_num_def signed_take_bit_63)

lemma op_depth_safe:
  "list_all small s \<Longrightarrow> length s < 2 ^ 39 \<Longrightarrow> safe (list_all small) (op_depth s)"
  unfolding op_depth_def by (intro safe_rules num_from_usize_small)

lemma op_drop_safe [arm_safe]: "list_all small s \<Longrightarrow> safe (list_all small) (op_drop s)"
  unfolding op_drop_def by (intro safe_rules) simp_all

lemma op_pick_roll_safe [arm_safe]:
  "list_all small s \<Longrightarrow> safe (list_all small) (op_pick_roll flags op s)"
  unfolding op_pick_roll_def
  by (intro safe_rules) (auto simp: stack_top_eq stack_remove_eq)

lemma op_size_safe [arm_safe]: "list_all small s \<Longrightarrow> safe (list_all small) (op_size s)"
  unfolding op_size_def
  by (intro safe_rules num_from_usize_small) (simp_all add: small_def script_limits)

lemma op_equal_safe [arm_safe]: "list_all small s \<Longrightarrow> safe (list_all small) (op_equal s)"
  unfolding op_equal_def by (intro safe_rules) simp_all

lemma op_equalverify_safe [arm_safe]: "list_all small s \<Longrightarrow> safe (list_all small) (op_equalverify s)"
  unfolding op_equalverify_def by (intro safe_rules) simp_all

lemma op_unary_safe:
  "list_all small s \<Longrightarrow> (\<And>n. operand n \<Longrightarrow> safe result_num (f n)) \<Longrightarrow>
     safe (list_all small) (op_unary flags f s)"
  unfolding op_unary_def by (rule safe_rules, assumption, rule safe_and_then, assumption) (intro safe_rules)

lemma op_binary_safe:
  "list_all small s \<Longrightarrow> (\<And>a b. operand a \<Longrightarrow> operand b \<Longrightarrow> safe result_num (f a b)) \<Longrightarrow>
     safe (list_all small) (op_binary flags f s)"
  unfolding op_binary_def
  by (rule safe_rules, assumption, rule safe_rules, assumption, rule safe_and_then, assumption)
    (intro safe_rules)

lemma op_numequalverify_safe [arm_safe]:
  "list_all small s \<Longrightarrow> safe (list_all small) (op_numequalverify flags s)"
  unfolding op_numequalverify_def by (intro safe_rules) simp_all

lemma op_within_safe [arm_safe]: "list_all small s \<Longrightarrow> safe (list_all small) (op_within flags s)"
  unfolding op_within_def by (intro safe_rules) simp_all

lemma op_hash_safe [arm_safe]:
  "list_all small s \<Longrightarrow> (\<And>v. small (f v)) \<Longrightarrow> safe (list_all small) (op_hash f s)"
  unfolding op_hash_def by (intro safe_rules) simp_all


section \<open>Signature encodings\<close>

lemma safe_then_index: "i < length xs \<Longrightarrow> safe P (f (xs ! i)) \<Longrightarrow> safe P (and_then (index xs i) f)"
  by (simp add: index_def)

lemma null_padded_safe: "i < length sig \<Longrightarrow> safe (\<lambda>_. True) (null_padded sig len b i)"
  unfolding null_padded_def by (intro safe_rules safe_then_index) simp_all

lemma is_valid_signature_encoding_safe: "safe (\<lambda>_. True) (is_valid_signature_encoding sig)"
  unfolding is_valid_signature_encoding_def
  by (intro safe_rules safe_then_index safe_and_then [OF null_padded_safe]) auto

lemma check_signature_encoding_safe:
  "\<not> verify_low_s flags \<Longrightarrow> safe (\<lambda>_. True) (check_signature_encoding sig flags version)"
  unfolding check_signature_encoding_def
  by (rule safe_rules, simp, rule safe_and_then [where Q = "\<lambda>_. True"])
    (auto simp: is_valid_signature_encoding_safe Let_def)

lemma check_pubkey_encoding_safe: "safe (\<lambda>_. True) (check_pubkey_encoding v flags)"
  by (simp add: check_pubkey_encoding_def)

lemma strip_signature_safe: "small sig \<Longrightarrow> safe (\<lambda>_. True) (strip_signature version sig code)"
  by (simp add: strip_signature_def push_data_def Let_def small_def script_limits)

lemma strip_signatures_safe:
  "list_all small sigs \<Longrightarrow> safe (\<lambda>_. True) (strip_signatures version sigs code)"
proof (induction version sigs code rule: strip_signatures.induct)
  case (2 version sig sigs code)
  then have "safe (\<lambda>_. True) (strip_signature version sig code)"
    by (intro strip_signature_safe) simp
  then show ?case
    using 2 by (cases "strip_signature version sig code") simp_all
qed simp

lemma stack_pop_n_safe:
  "list_all small s \<Longrightarrow>
     safe (\<lambda>(vs, s'). list_all small vs \<and> length vs = n \<and> list_all small s') (stack_pop_n n s)"
proof (induction n arbitrary: s)
  case (Suc n)
  show ?case
    unfolding stack_pop_n.simps
    by (intro safe_rules Suc.prems safe_and_then [OF Suc.IH]) auto
qed simp


lemma safe_then_pop_n:
  assumes "list_all small s"
    and "\<And>vs s'. list_all small vs \<Longrightarrow> length vs = n \<Longrightarrow> list_all small s' \<Longrightarrow> safe P (g vs s')"
  shows "safe P (and_then (stack_pop_n n s) (\<lambda>(vs, s). g vs s))"
  by (rule safe_and_then [OF stack_pop_n_safe [OF assms(1)]]) (auto simp: assms(2))


section \<open>Arms with a signature check\<close>

text \<open>
  These rely on the checker; what follows is proved once for every checker that answers.
  \<open>Signature::check_low_s\<close> is not implemented, so the flag that calls it has to be off.
\<close>

definition serves :: "signature_checker \<Rightarrow> eval_env \<Rightarrow> bool" where
  "serves checker env \<longleftrightarrow> e_checker env = checker \<and> \<not> verify_low_s (e_flags env)"

context signature_checking
begin

lemma check_signature_safe: "safe (\<lambda>_. True) (check_signature checker sig pk code version)"
  using check_answers
  by (auto simp: check_signature_def safe_alt split: outcome.splits) (metis outcome.distinct(3))

lemma verify_signature_safe: "safe (\<lambda>_. True) (verify_signature checker sig pk msg)"
  using verify_answers
  by (auto simp: verify_signature_def safe_alt split: outcome.splits) (metis outcome.distinct(3))

lemma check_lock_time_safe: "safe (\<lambda>_. True) (check_lock_time checker n)"
  using lock_time_answers [of n] by auto

lemma check_sequence_safe: "safe (\<lambda>_. True) (check_sequence checker n)"
  using sequence_answers [of n] by auto

lemma op_checklocktimeverify_safe:
  "serves checker env \<Longrightarrow> list_all small s \<Longrightarrow> safe (list_all small) (op_checklocktimeverify env s)"
  unfolding op_checklocktimeverify_def serves_def
  by (intro safe_rules safe_and_then [OF safe_from_slice5] safe_and_then [where Q = "\<lambda>_. True"])
    (simp_all add: check_lock_time_safe)

lemma op_checksequenceverify_safe:
  "serves checker env \<Longrightarrow> list_all small s \<Longrightarrow> safe (list_all small) (op_checksequenceverify env s)"
  unfolding op_checksequenceverify_def serves_def
  by (intro safe_rules safe_and_then [OF safe_from_slice5] safe_and_then [where Q = "\<lambda>_. True"])
    (simp_all add: check_sequence_safe)

lemma op_checksig_safe:
  assumes "serves checker env" and "list_all small s" and "begincode \<le> length (e_script env)"
  shows "safe (list_all small) (op_checksig env op begincode s)"
proof -
  have "safe (\<lambda>_. True) (subscript (e_script env) begincode)"
    using assms(3) by (simp add: subscript_def)
  with assms(1,2) show ?thesis
    unfolding op_checksig_def serves_def
    by (intro safe_rules safe_and_then [where Q = "\<lambda>_. True"])
      (simp_all add: strip_signature_safe check_signature_encoding_safe check_pubkey_encoding_safe
        check_signature_safe)
qed

lemma op_checkdatasig_safe:
  assumes "serves checker env" and "list_all small s"
  shows "safe (list_all small) (op_checkdatasig env op s)"
  using assms unfolding op_checkdatasig_def serves_def Let_def
  by (intro safe_rules safe_and_then [where Q = "\<lambda>_. True"])
    (simp_all add: check_signature_encoding_safe check_pubkey_encoding_safe verify_signature_safe)

text \<open>
  As long as not fewer keys than signatures remain, the indices of the matching loop are in
  range and its subtractions do not underflow.
\<close>

lemma multisig_loop_safe:
  assumes "serves checker env" and "k \<le> length keys" and "s \<le> length sigs"
    and "success \<Longrightarrow> length sigs - s \<le> length keys - k"
  shows "safe (\<lambda>_. True) (multisig_loop env code keys sigs k s success)"
  using assms(2-4)
proof (induction "length keys - k" arbitrary: k s success rule: less_induct)
  case less
  show ?case
  proof (cases "s < length sigs \<and> success")
    case True
    then have k: "k < length keys" using less.prems(3) by auto
    have next_round: "safe (\<lambda>_. True) (let s' = if ok then s + 1 else s; k' = k + 1 in
        if length keys < k' \<or> length sigs < s' then Panic
        else multisig_loop env code keys sigs k' s' (length sigs - s' \<le> length keys - k'))" for ok
      using True k by (auto simp: Let_def intro!: less.hyps)
    show ?thesis
      using assms(1) True k unfolding serves_def
      by (subst multisig_loop.simps, simp only: simp_thms if_True,
          intro safe_then_index safe_and_then [where Q = "\<lambda>_. True"] next_round)
        (simp_all add: check_signature_encoding_safe check_pubkey_encoding_safe check_signature_safe)
  next
    case False
    then show ?thesis by (subst multisig_loop.simps) auto
  qed
qed

lemma op_checkmultisig_safe:
  assumes "serves checker env" and "list_all small s" and "begincode \<le> length (e_script env)"
  shows "safe (list_all small) (op_checkmultisig env op begincode s)"
proof -
  have limit: "num_from_usize MAX_PUBKEYS_PER_MULTISIG = 20"
    by (simp add: num_from_usize_def script_limits signed_take_bit_63)
  have count: "num_to_usize n \<le> k"
    if "operand n" "\<not> (n < 0 \<or> n > num_from_usize k)" "k \<le> 20" for n k
    using operand_num_to_usize [of n] that
    by (auto simp: is_negative_def num_from_usize_def signed_take_bit_63)
  have keys_count: "num_to_usize n \<le> 20" if "operand n" "\<not> (n < 0 \<or> n > 20)" for n
    using operand_num_to_usize [of n] that by (auto simp: is_negative_def)
  have code: "safe (\<lambda>_. True) (subscript (e_script env) begincode)"
    using assms(3) by (simp add: subscript_def)
  have loop: "safe (\<lambda>_. True) (multisig_loop env c keys sigs 0 0 True)"
    if "length sigs \<le> length keys" for c keys sigs
    using that by (intro multisig_loop_safe assms(1)) simp_all
  show ?thesis
    unfolding op_checkmultisig_def limit Let_def
    apply (intro safe_rules assms(2) safe_then_pop_n safe_and_then [OF code]
        safe_and_then [OF strip_signatures_safe] safe_and_then [OF loop])
    by (auto dest: keys_count count)
qed

end


section \<open>Rounds and runs\<close>

definition machine_ok :: "eval_env \<Rightarrow> machine \<Rightarrow> bool" where
  "machine_ok env m \<longleftrightarrow>
     list_all small (m_stack m) \<and> list_all small (m_altstack m) \<and> m_begincode m \<le> length (e_script env)"

lemma on_stack_safe:
  "machine_ok env m \<Longrightarrow> (list_all small (m_stack m) \<Longrightarrow> safe (list_all small) (f (m_stack m))) \<Longrightarrow>
     safe (machine_ok env) (on_stack m f)"
  unfolding on_stack_def machine_ok_def
  by (rule safe_and_then [where Q = "list_all small"]) simp_all

lemma flow_safe:
  assumes "machine_ok env m"
  shows "safe (machine_ok env) (op_if op executing m)" "safe (machine_ok env) (op_else m)"
    "safe (machine_ok env) (op_endif m)" "safe (machine_ok env) (op_toaltstack m)"
    "safe (machine_ok env) (op_fromaltstack m)"
  using assms
  by (simp_all add: op_if_def op_else_def op_endif_def op_toaltstack_def op_fromaltstack_def
      stack_pop_def Let_def machine_ok_def)

lemma operand_1 [simp]: "operand 1"
  by (simp add: operand_def)

lemma operand_min_max: "operand a \<Longrightarrow> operand b \<Longrightarrow> operand (min a b)" "operand a \<Longrightarrow> operand b \<Longrightarrow> operand (max a b)"
  by (simp_all add: min_def max_def)

context signature_checking
begin

lemma exec_signature_op_safe:
  assumes "serves checker env" and "machine_ok env m" and "pc \<le> length (e_script env)"
  shows "safe (machine_ok env) (exec_signature_op env op pc executing m)"
proof -
  have "m_begincode m \<le> length (e_script env)" using assms(2) by (simp add: machine_ok_def)
  moreover have "safe (machine_ok env) (Ok (m\<lparr>m_begincode := pc\<rparr>))" "safe (machine_ok env) (Ok m)"
    using assms(2,3) by (simp_all add: machine_ok_def)
  ultimately show ?thesis
    unfolding exec_signature_op_def
    by (intro safe_if safe_Err on_stack_safe arm_safe op_checksig_safe op_checkmultisig_safe
        op_checkdatasig_safe assms small_simps)
qed

lemma exec_numeric_op_safe:
  assumes "serves checker env" and "machine_ok env m" and "pc \<le> length (e_script env)"
  shows "safe (machine_ok env) (exec_numeric_op env op pc executing m)"
  unfolding exec_numeric_op_def Let_def
  by (intro safe_if on_stack_safe arm_safe op_unary_safe op_binary_safe exec_signature_op_safe assms)
    (simp_all add: operand_arith operand_result operand_min_max)

lemma exec_stack_op_safe:
  assumes "serves checker env" and "machine_ok env m" and "pc \<le> length (e_script env)"
    and "length (m_stack m) < 2 ^ 39"
  shows "safe (machine_ok env) (exec_stack_op env op pc executing m)"
  unfolding exec_stack_op_def
  by (intro safe_if safe_Err on_stack_safe arm_safe stack_ops_safe flow_safe op_depth_safe
      exec_numeric_op_safe assms)

lemma exec_opcode_safe:
  assumes "serves checker env" and "machine_ok env m" and "pc \<le> length (e_script env)"
    and "length (m_stack m) < 2 ^ 39" and "pred_option small (data_of i)"
  shows "safe (machine_ok env) (exec_opcode env i pc executing m)"
proof -
  have "safe (machine_ok env) (Ok m)" using assms(2) by simp
  then show ?thesis
    unfolding exec_opcode_def Let_def
    by (intro safe_if safe_Err on_stack_safe arm_safe op_checklocktimeverify_safe
        op_checksequenceverify_safe exec_stack_op_safe assms)
qed

end

text \<open>What holds between rounds when the stacks may hold \<open>N\<close> elements at the start.\<close>

definition round_ok :: "eval_env \<Rightarrow> nat \<Rightarrow> nat \<Rightarrow> machine \<Rightarrow> bool" where
  "round_ok env N op_count m \<longleftrightarrow>
     machine_ok env m \<and> length (m_stack m) + length (m_altstack m) \<le> N \<and>
     op_count \<le> MAX_OPS_PER_SCRIPT"

context signature_checking
begin

lemma eval_step_safe:
  assumes "serves checker env" and "round_ok env N op_count m" and "1000 \<le> N" and "N < 2 ^ 39"
    and "pc < length (e_script env)"
  shows "safe (\<lambda>(pc', c, m'). pc' \<le> length (e_script env) \<and> round_ok env N c m') (eval_step env pc op_count m)"
proof (cases "get_instruction (e_script env) pc")
  case (Ok i)
  let ?executing = "list_all (\<lambda>x. x) (m_exec_stack m)"
  have pc: "pc + step_of i \<le> length (e_script env)" using get_instruction_bounds [OF Ok] by simp
  have exec: "safe (machine_ok env) (exec_opcode env i (pc + step_of i) ?executing m)"
    if "pred_option small (data_of i)"
    using assms that pc by (intro exec_opcode_safe) (simp_all add: round_ok_def)
  have data: "safe (\<lambda>_. pred_option small (data_of i))
      (case data_of i of
         Some d \<Rightarrow> if length d > MAX_SCRIPT_ELEMENT_SIZE then Err PushSize
           else if ?executing \<and> verify_minimaldata (e_flags env) \<and> \<not> check_minimal_push d (opcode_of i)
           then Err Minimaldata else Ok ()
       | None \<Rightarrow> Ok ())"
    by (cases "data_of i") (simp_all add: small_def)
  show ?thesis
    using assms(2,3) pc
    unfolding eval_step_def Ok Let_def outcome.case
    by (intro safe_and_then [OF data] safe_if safe_Err safe_and_then [OF exec])
      (auto simp: round_ok_def)
next
  case (Err e)
  then show ?thesis using assms(2,5) by (simp add: eval_step_def Let_def)
next
  case Panic
  then show ?thesis using assms(5) by (simp add: get_instruction_Panic)
qed

lemma eval_loop_safe:
  assumes "serves checker env" and "round_ok env N op_count m" and "1000 \<le> N" and "N < 2 ^ 39"
  shows "safe (\<lambda>m. \<exists>c. round_ok env N c m) (eval_loop env pc op_count m)"
  using assms(2)
proof (induction "length (e_script env) - pc" arbitrary: pc op_count m rule: less_induct)
  case less
  show ?case
  proof (cases "pc < length (e_script env)")
    case True
    have step: "safe (\<lambda>(pc', c, m'). pc' \<le> length (e_script env) \<and> round_ok env N c m') (eval_step env pc op_count m)"
      by (rule eval_step_safe [OF assms(1) less.prems assms(3,4) True])
    show ?thesis
    proof (cases "eval_step env pc op_count m")
      case (Ok r)
      obtain pc' c m' where r: "r = (pc', c, m')" by (cases r)
      have "pc < pc'" using eval_step_advances Ok r by blast
      then have "safe (\<lambda>m. \<exists>c. round_ok env N c m) (eval_loop env pc' c m')"
        using True step Ok r by (intro less.hyps) (simp_all add: diff_less_mono2)
      with True Ok r show ?thesis by (simp add: eval_loop.simps [of env pc])
    qed (use step True in \<open>simp_all add: eval_loop.simps [of env pc]\<close>)
  next
    case False
    with less.prems show ?thesis by (subst eval_loop.simps) auto
  qed
qed

lemma eval_script_safe:
  assumes "serves checker env" and "list_all small s" and "length s \<le> N" and "1000 \<le> N" and "N < 2 ^ 39"
  shows "safe (\<lambda>(b, s'). list_all small s' \<and> length s' \<le> N) (eval_script env s)"
proof -
  let ?m = "\<lparr> m_stack = s, m_altstack = [], m_exec_stack = [], m_begincode = 0 \<rparr>"
  have "round_ok env N 0 ?m" using assms by (simp add: round_ok_def machine_ok_def)
  then have loop: "safe (\<lambda>m. \<exists>c. round_ok env N c m) (eval_loop env 0 0 ?m)"
    using assms by (intro eval_loop_safe)
  show ?thesis
    unfolding eval_script_def
    by (intro safe_if safe_Err safe_and_then [OF loop])
      (auto simp: round_ok_def machine_ok_def stack_last_def)
qed

lemma serves_mk_env: "\<not> verify_low_s flags \<Longrightarrow> serves checker (mk_env h flags checker version script)"
  by (simp add: serves_def mk_env_def)

lemma verify_witness_program_safe:
  assumes "\<not> verify_low_s flags" and "length witness < 2 ^ 39"
  shows "safe (\<lambda>_. True) (verify_witness_program h witness v prog flags checker)"
proof -
  have inputs: "safe (\<lambda>(stack, script). length stack \<le> length witness) (witness_program_inputs h witness prog)"
    by (auto simp: witness_program_inputs_def push_data_def Let_def)
  have run: "safe (\<lambda>(b, s'). list_all small s' \<and> length s' \<le> max 1000 (length witness))
      (eval_script (mk_env h flags checker WitnessV0 script) stack)"
    if "length stack \<le> length witness" "\<not> list_ex (\<lambda>s. length s > MAX_SCRIPT_ELEMENT_SIZE) stack" for stack script
    using assms that
    by (intro eval_script_safe serves_mk_env) (auto simp: list_all_iff list_ex_iff small_def)
  show ?thesis
    unfolding verify_witness_program_def
    apply (intro safe_if safe_Err safe_and_then [OF inputs])
     apply simp
    apply (rule safe_case_prod, rule safe_if, rule safe_Err, rule safe_and_then, rule run)
    by (auto simp: stack_last_def)
qed

end

end
