(* ===== verification/Der.thy ===== *)
theory Der
  imports Interpreter_Safety
begin

text \<open>
  Signature encodings: \<open>is_valid_signature_encoding\<close>, a list of checks on positions of a byte
  string, accepts exactly the byte strings with the structure described in its
  documentation.
\<close>

section \<open>The structure of a signature\<close>

text \<open>A positive big-endian integer without a superfluous leading zero byte.\<close>

definition der_integer :: "bytes \<Rightarrow> bool" where
  "der_integer x \<longleftrightarrow>
     x \<noteq> [] \<and> unat (x ! 0) < 128 \<and> (1 < length x \<longrightarrow> x ! 0 = 0 \<longrightarrow> 128 \<le> unat (x ! 1))"

definition der_signature :: "bytes \<Rightarrow> bytes \<Rightarrow> u8 \<Rightarrow> bytes" where
  "der_signature r s hash_type =
     [0x30, word_of_nat (length r + length s + 4), 0x02, word_of_nat (length r)] @ r @
     [0x02, word_of_nat (length s)] @ s @ [hash_type]"

lemma index_in: "i < length xs \<Longrightarrow> index xs i = Ok (xs ! i)"
  by (simp add: index_def)

lemma null_padded_eq:
  assumes "i < length sig"
  shows "null_padded sig len b i = Ok (1 < len \<and> b = 0 \<and> unat (sig ! i) < 128)"
  using assms by (auto simp: null_padded_def index_def u8_high_bit)

text \<open>The checks as one condition on positions.\<close>

definition der_checks :: "bytes \<Rightarrow> bool" where
  "der_checks sig \<longleftrightarrow>
     9 \<le> length sig \<and> length sig \<le> 73 \<and> sig ! 0 = 0x30 \<and> unat (sig ! 1) = length sig - 3 \<and>
     (let len_r = unat (sig ! 3); len_s = unat (sig ! (len_r + 5)) in
      len_r + 5 < length sig \<and> len_r + len_s + 7 = length sig \<and> sig ! 2 = 2 \<and> len_r \<noteq> 0 \<and>
      unat (sig ! 4) < 128 \<and> \<not> (1 < len_r \<and> sig ! 4 = 0 \<and> unat (sig ! 5) < 128) \<and>
      sig ! (len_r + 4) = 2 \<and> len_s \<noteq> 0 \<and> unat (sig ! (len_r + 6)) < 128 \<and>
      \<not> (1 < len_s \<and> sig ! (len_r + 6) = 0 \<and> unat (sig ! (len_r + 7)) < 128))"

lemma is_valid_signature_encoding_eq: "is_valid_signature_encoding sig = Ok (der_checks sig)"
proof -
  let ?r = "unat (sig ! 3)"
  let ?s = "unat (sig ! (?r + 5))"
  consider "length sig < 9 \<or> length sig > 73" | "9 \<le> length sig" "length sig \<le> 73" "length sig \<le> ?r + 5"
    | "9 \<le> length sig" "length sig \<le> 73" "?r + 5 < length sig" "?r + ?s + 7 \<noteq> length sig"
    | "9 \<le> length sig" "length sig \<le> 73" "?r + 5 < length sig" "?r + ?s + 7 = length sig" "?s = 0"
    | "9 \<le> length sig" "length sig \<le> 73" "?r + 5 < length sig" "?r + ?s + 7 = length sig" "?s \<noteq> 0"
    by linarith
  then show ?thesis
  proof cases
    case 1
    then show ?thesis by (auto simp: is_valid_signature_encoding_def der_checks_def)
  next
    case 2
    then have "sig \<noteq> []" by auto
    with 2 show ?thesis
      by (simp add: is_valid_signature_encoding_def der_checks_def index_in Let_def)
  next
    case 3
    then have "sig \<noteq> []" by auto
    with 3 show ?thesis
      by (simp add: is_valid_signature_encoding_def der_checks_def index_in Let_def)
  next
    case 4
    then have "sig \<noteq> []" by auto
    with 4 show ?thesis
      by (simp add: is_valid_signature_encoding_def der_checks_def index_in Let_def null_padded_eq u8_high_bit)
  next
    case 5
    then have "sig \<noteq> []" by auto
    with 5 show ?thesis
      by (simp add: is_valid_signature_encoding_def der_checks_def index_in Let_def null_padded_eq u8_high_bit)
  qed
qed


lemma unat_byte_length: "n < 256 \<Longrightarrow> unat (word_of_nat n :: u8) = n"
  by (simp add: unat_word_of_nat_u8)

lemma der_signature_nth:
  "der_signature r s ht ! 0 = 0x30"
  "der_signature r s ht ! 1 = word_of_nat (length r + length s + 4)"
  "der_signature r s ht ! Suc 0 = word_of_nat (length r + length s + 4)"
  "der_signature r s ht ! 2 = 2"
  "der_signature r s ht ! 3 = word_of_nat (length r)"
  "der_signature r s ht ! (length r + 4) = 2"
  "der_signature r s ht ! (length r + 5) = word_of_nat (length s)"
  "length (der_signature r s ht) = length r + length s + 7"
  by (simp_all add: der_signature_def nth_append nth_Cons')

lemma der_signature_integers:
  "i < length r \<Longrightarrow> der_signature r s ht ! (4 + i) = r ! i"
  "i < length s \<Longrightarrow> der_signature r s ht ! (length r + 6 + i) = s ! i"
  by (simp_all add: der_signature_def nth_append nth_Cons')

lemma der_checks_signature:
  assumes "der_integer r" and "der_integer s" and "length r + length s + 7 \<le> 73"
  shows "der_checks (der_signature r s ht)"
proof -
  let ?sig = "der_signature r s ht"
  have r: "r \<noteq> []" "unat (r ! 0) < 128" "1 < length r \<Longrightarrow> r ! 0 = 0 \<Longrightarrow> 128 \<le> unat (r ! 1)"
    and s: "s \<noteq> []" "unat (s ! 0) < 128" "1 < length s \<Longrightarrow> s ! 0 = 0 \<Longrightarrow> 128 \<le> unat (s ! 1)"
    using assms(1,2) by (simp_all add: der_integer_def)
  have len_r: "unat (?sig ! 3) = length r" and len_s: "unat (?sig ! (length r + 5)) = length s"
    using assms(3) by (simp_all add: der_signature_nth unat_byte_length)
  have total_len: "unat (?sig ! 1) = length ?sig - 3"
    using unat_byte_length [of "length r + length s + 4"] assms(3)
    unfolding der_signature_nth(2,8) by linarith
  have at: "?sig ! 4 = r ! 0" "1 < length r \<Longrightarrow> ?sig ! 5 = r ! 1"
    "?sig ! (length r + 6) = s ! 0" "1 < length s \<Longrightarrow> ?sig ! (length r + 7) = s ! 1"
    using der_signature_integers(1) [of 0 r s ht] der_signature_integers(1) [of 1 r s ht]
      der_signature_integers(2) [of 0 s r ht] der_signature_integers(2) [of 1 s r ht] r(1) s(1)
    by (simp_all add: add.commute)
  have big: "2 \<le> length r + length s" "length r \<noteq> 0" "length s \<noteq> 0"
    using r(1) s(1) by (cases r; cases s; simp)+
  have pad_r: "\<not> (1 < length r \<and> ?sig ! 4 = 0 \<and> unat (?sig ! 5) < 128)"
    using at(1,2) r(3) by auto
  have pad_s: "\<not> (1 < length s \<and> ?sig ! (length r + 6) = 0 \<and> unat (?sig ! (length r + 7)) < 128)"
    using at(3,4) s(3) by auto
  have "9 \<le> length ?sig" using big(1) unfolding der_signature_nth(8) by linarith
  moreover have "length ?sig \<le> 73" "length r + 5 < length ?sig"
    "length r + length s + 7 = length ?sig" "?sig ! (length r + 4) = 2" "?sig ! 2 = 2" "?sig ! 0 = 0x30"
    using big assms(3) by (simp_all add: der_signature_nth)
  moreover have "unat (?sig ! 4) < 128" "unat (?sig ! (length r + 6)) < 128"
    using at(1,3) r(2) s(2) by simp_all
  ultimately show ?thesis
    unfolding der_checks_def Let_def len_r len_s
    using total_len pad_r pad_s big by blast
qed

lemma der_checks_split:
  assumes "der_checks sig"
  obtains r s ht where "sig = der_signature r s ht" "der_integer r" "der_integer s"
    "length r + length s + 7 \<le> 73"
proof -
  define nr where "nr = unat (sig ! 3)"
  define ns where "ns = unat (sig ! (nr + 5))"
  define r where "r = take nr (drop 4 sig)"
  define s where "s = take ns (drop (nr + 6) sig)"
  note checks = assms [unfolded der_checks_def Let_def, folded nr_def, folded ns_def]
  have len: "length sig = nr + ns + 7" "nr + ns + 7 \<le> 73" "nr \<noteq> 0" "ns \<noteq> 0" using checks by simp_all
  have lens: "length r = nr" "length s = ns" using len by (simp_all add: r_def s_def)
  have lw: "sig ! 3 = word_of_nat nr" "sig ! (nr + 5) = word_of_nat ns" "sig ! 1 = word_of_nat (nr + ns + 4)"
  proof -
    have inv: "word_of_nat (unat b) = b" for b :: u8 by simp
    show "sig ! 3 = word_of_nat nr" "sig ! (nr + 5) = word_of_nat ns" by (simp_all add: nr_def ns_def)
    have "unat (sig ! 1) = nr + ns + 4" using checks len by simp
    then show "sig ! 1 = word_of_nat (nr + ns + 4)" using inv [of "sig ! 1"] by simp
  qed
  have "sig = der_signature r s (last sig)"
  proof -
    have "take 4 sig = [sig ! 0, sig ! 1, sig ! 2, sig ! 3]"
      using len by (simp add: numeral_eq_Suc take_Suc_conv_app_nth)
    moreover have "drop (nr + 4) sig = sig ! (nr + 4) # sig ! (nr + 5) # drop (nr + 6) sig"
      using Cons_nth_drop_Suc [of "nr + 4" sig] Cons_nth_drop_Suc [of "nr + 5" sig] len
      by (simp add: ac_simps)
    moreover have "drop (nr + ns + 6) sig = [last sig]"
    proof -
      have "drop (length sig - 1) sig = [last sig]"
        using len by (cases sig rule: rev_cases) simp_all
      then show ?thesis using len by (simp add: ac_simps)
    qed
    moreover have "drop 4 sig = r @ drop (nr + 4) sig" "drop (nr + 6) sig = s @ drop (nr + ns + 6) sig"
      using append_take_drop_id [of nr "drop 4 sig"] append_take_drop_id [of ns "drop (nr + 6) sig"]
      by (simp_all add: r_def s_def ac_simps)
    ultimately have "sig = [sig ! 0, sig ! 1, sig ! 2, sig ! 3] @ r @ [sig ! (nr + 4), sig ! (nr + 5)] @ s @ [last sig]"
      by (metis append_take_drop_id append_Cons append_Nil)
    then show ?thesis
      using checks unfolding der_signature_def lens lw [symmetric] by simp
  qed
  moreover have "der_integer r"
    using checks lens len unfolding der_integer_def by (auto simp: r_def not_less)
  moreover have "der_integer s"
    using checks lens len unfolding der_integer_def by (auto simp: s_def not_less ac_simps)
  ultimately show thesis using lens len by (intro that [of r s "last sig"]) simp_all
qed


section \<open>Properties\<close>

text \<open>
  C21. \<open>is_valid_signature_encoding\<close> never panics and accepts exactly the canonical signatures of
  its documentation: \<open>30 len 02 len_R R 02 len_S S hashtype\<close> with positive integers \<open>R\<close> and \<open>S\<close>
  that are not excessively padded, of at most 73 bytes in all.
\<close>

theorem signature_encoding_canonical:
  "is_valid_signature_encoding sig =
     Ok (\<exists>r s ht. sig = der_signature r s ht \<and> der_integer r \<and> der_integer s \<and>
           length r + length s + 7 \<le> 73)"
  unfolding is_valid_signature_encoding_eq
  by (intro arg_cong [where f = Ok], rule iffI, blast elim: der_checks_split,
      auto simp: der_checks_signature)

end
