(* ===== verification/Serialization.thy ===== *)
theory Serialization
  imports Prelude
begin

text \<open>
  The \<open>serialization\<close> crate: the byte strings that the basic types are written as
  (\<open>impls.rs\<close>, \<open>compact_integer.rs\<close>, \<open>list.rs\<close>), the streams they are appended to
  (\<open>stream.rs\<close>) and the reader that takes them back (\<open>reader.rs\<close>).

  A \<open>serialize\<close> method is the byte string that it appends to the stream; the flags of a stream
  matter to transactions only and are an argument there.  A \<open>deserialize\<close> method is a function on
  the reader's state.  The interface between a type and its users is the locale \<open>codec\<close>: what is
  written is read back, and nothing after it is touched.
\<close>

section \<open>Streams\<close>

definition SERIALIZE_TRANSACTION_WITNESS :: u32 where
  "SERIALIZE_TRANSACTION_WITNESS = 0x40000000"

definition include_transaction_witness :: "u32 \<Rightarrow> bool" where
  "include_transaction_witness flags \<longleftrightarrow> flags AND SERIALIZE_TRANSACTION_WITNESS \<noteq> 0"

definition serialize_bool :: "bool \<Rightarrow> bytes" where
  "serialize_bool b = [of_bool b]"

definition serialize_u8 :: "u8 \<Rightarrow> bytes" where
  "serialize_u8 w = [w]"

definition serialize_u16 :: "u16 \<Rightarrow> bytes" where
  "serialize_u16 w = le_bytes 2 (unat w)"

definition serialize_u32 :: "u32 \<Rightarrow> bytes" where
  "serialize_u32 w = le_bytes 4 (unat w)"

definition serialize_u64 :: "u64 \<Rightarrow> bytes" where
  "serialize_u64 w = le_bytes 8 (unat w)"

text \<open>Signed integers are words too; \<open>sint\<close> reads their value.\<close>

type_synonym i32 = "32 word"
type_synonym i64 = "64 word"

definition serialize_i32 :: "i32 \<Rightarrow> bytes" where
  "serialize_i32 w = le_bytes 4 (unat w)"

definition serialize_i64 :: "i64 \<Rightarrow> bytes" where
  "serialize_i64 w = le_bytes 8 (unat w)"

definition serialize_compact_integer :: "u64 \<Rightarrow> bytes" where
  "serialize_compact_integer i =
     (if i \<le> 0xfc then serialize_u8 (ucast i)
      else if i \<le> 0xffff then serialize_u8 0xfd @ serialize_u16 (ucast i)
      else if i \<le> 0xffffffff then serialize_u8 0xfe @ serialize_u32 (ucast i)
      else serialize_u8 0xff @ serialize_u64 i)"

definition compact_integer_size :: "u64 \<Rightarrow> nat" where
  "compact_integer_size i =
     (if i \<le> 0xfc then 1 else if i \<le> 0xffff then 3 else if i \<le> 0xffffffff then 5 else 9)"

definition serialize_bytes :: "bytes \<Rightarrow> bytes" where
  "serialize_bytes bs = serialize_compact_integer (word_of_nat (length bs)) @ bs"

definition bytes_size :: "bytes \<Rightarrow> nat" where
  "bytes_size bs = compact_integer_size (word_of_nat (length bs)) + length bs"

definition append_list :: "('a \<Rightarrow> bytes) \<Rightarrow> 'a list \<Rightarrow> bytes" where
  "append_list ser xs = serialize_compact_integer (word_of_nat (length xs)) @ concat (map ser xs)"

definition serialized_list_size :: "('a \<Rightarrow> nat) \<Rightarrow> 'a list \<Rightarrow> nat" where
  "serialized_list_size sz xs = compact_integer_size (word_of_nat (length xs)) + sum_list (map sz xs)"


section \<open>The reader\<close>

datatype ser_error = MalformedData | UnexpectedEnd | UnreadData

text \<open>\<open>Reader\<close> over a byte slice.\<close>

record reader =
  buffer :: bytes
  peeked :: "u8 option"

type_synonym 'a deserializer = "reader \<Rightarrow> (ser_error, 'a \<times> reader) outcome"

definition reader_new :: "bytes \<Rightarrow> reader" where
  "reader_new bs = \<lparr> buffer = bs, peeked = None \<rparr>"

text \<open>\<open>io::Read::read\<close> into a buffer of \<open>n\<close> bytes: the bytes read.\<close>

definition io_read :: "reader \<Rightarrow> nat \<Rightarrow> bytes \<times> reader" where
  "io_read r n =
     (case peeked r of
        None \<Rightarrow> (take n (buffer r), r\<lparr>buffer := drop n (buffer r)\<rparr>)
      | Some b \<Rightarrow>
          if n = 0 then ([], r)
          else (b # take (n - 1) (buffer r), \<lparr> buffer = drop (n - 1) (buffer r), peeked = None \<rparr>))"

lemma io_read_progress: "io_read r n = (bs, r') \<Longrightarrow> length bs \<le> n"
  by (auto simp: io_read_def split: option.splits if_splits)

text \<open>\<open>io::Read::read_exact\<close> and \<open>read_slice\<close>.\<close>

function read_slice :: "nat \<Rightarrow> bytes deserializer" where
  "read_slice n r =
     (if n = 0 then Ok ([], r)
      else case io_read r n of (bs, r) \<Rightarrow>
        if bs = [] then Err UnexpectedEnd
        else and_then (read_slice (n - length bs) r) (\<lambda>(rest, r). Ok (bs @ rest, r)))"
  by pat_completeness auto
termination
  by (relation "measure fst") (auto simp: length_greater_0_conv)

declare read_slice.simps [simp del]

definition read_le :: "nat \<Rightarrow> nat deserializer" where
  "read_le n r = and_then (read_slice n r) (\<lambda>(bs, r). Ok (le_nat bs, r))"

definition read_u8 :: "u8 deserializer" where
  "read_u8 r = and_then (read_le 1 r) (\<lambda>(v, r). Ok (word_of_nat v, r))"

definition read_u16 :: "u16 deserializer" where
  "read_u16 r = and_then (read_le 2 r) (\<lambda>(v, r). Ok (word_of_nat v, r))"

definition read_u32 :: "u32 deserializer" where
  "read_u32 r = and_then (read_le 4 r) (\<lambda>(v, r). Ok (word_of_nat v, r))"

definition read_u64 :: "u64 deserializer" where
  "read_u64 r = and_then (read_le 8 r) (\<lambda>(v, r). Ok (word_of_nat v, r))"

definition read_i32 :: "i32 deserializer" where
  "read_i32 r = and_then (read_le 4 r) (\<lambda>(v, r). Ok (word_of_nat v, r))"

definition read_i64 :: "i64 deserializer" where
  "read_i64 r = and_then (read_le 8 r) (\<lambda>(v, r). Ok (word_of_nat v, r))"

definition read_bool :: "bool deserializer" where
  "read_bool r =
     and_then (read_u8 r) (\<lambda>(v, r).
       if v = 0 then Ok (False, r) else if v = 1 then Ok (True, r) else Err MalformedData)"

definition read_compact_integer :: "u64 deserializer" where
  "read_compact_integer r =
     and_then (read_u8 r) (\<lambda>(i, r).
       if i \<le> 0xfc then Ok (ucast i, r)
       else if i = 0xfd then and_then (read_u16 r) (\<lambda>(v, r). Ok (ucast v, r))
       else if i = 0xfe then and_then (read_u32 r) (\<lambda>(v, r). Ok (ucast v, r))
       else read_u64 r)"

text \<open>
  \<open>Vec::with_capacity\<close> for elements of \<open>k\<close> bytes (and \<open>vec![0; len]\<close>, with \<open>k = 1\<close>) panics with
  a capacity overflow when the allocation exceeds \<open>isize::MAX\<close> bytes.
\<close>

definition with_capacity :: "nat \<Rightarrow> nat \<Rightarrow> (ser_error, unit) outcome" where
  "with_capacity k len = (if len * k < 2 ^ 63 then Ok () else Panic)"

definition read_bytes :: "bytes deserializer" where
  "read_bytes r =
     and_then (read_compact_integer r) (\<lambda>(len, r).
     and_then (with_capacity 1 (unat len)) (\<lambda>_. read_slice (unat len) r))"

fun read_times :: "'a deserializer \<Rightarrow> nat \<Rightarrow> 'a list deserializer" where
  "read_times de 0 r = Ok ([], r)"
| "read_times de (Suc n) r =
     and_then (de r) (\<lambda>(x, r). and_then (read_times de n r) (\<lambda>(xs, r). Ok (x # xs, r)))"

definition read_list :: "nat \<Rightarrow> 'a deserializer \<Rightarrow> 'a list deserializer" where
  "read_list k de r =
     and_then (read_compact_integer r) (\<lambda>(len, r).
     and_then (with_capacity k (unat len)) (\<lambda>_. read_times de (unat len) r))"

definition read_list_max :: "nat \<Rightarrow> 'a deserializer \<Rightarrow> nat \<Rightarrow> 'a list deserializer" where
  "read_list_max k de limit r =
     and_then (read_compact_integer r) (\<lambda>(len, r).
       if unat len > limit then Err MalformedData
       else and_then (with_capacity k (unat len)) (\<lambda>_. read_times de (unat len) r))"

definition is_finished :: "reader \<Rightarrow> bool \<times> reader" where
  "is_finished r =
     (if peeked r \<noteq> None then (False, r)
      else case read_slice 1 r of
        Ok (peek, r) \<Rightarrow> (False, r\<lparr>peeked := Some (hd peek)\<rparr>)
      | _ \<Rightarrow> (True, r))"

definition deserialize :: "'a deserializer \<Rightarrow> bytes \<Rightarrow> (ser_error, 'a) outcome" where
  "deserialize de bs =
     and_then (de (reader_new bs)) (\<lambda>(result, r).
       if fst (is_finished r) then Ok result else Err UnreadData)"

text \<open>\<open>skip_while\<close>: the bytes of the buffer are consumed one by one, and the first one that does not
  satisfy the predicate is kept in \<open>peeked\<close>.\<close>

fun skip_buffer :: "(u8 \<Rightarrow> bool) \<Rightarrow> bytes \<Rightarrow> reader" where
  "skip_buffer p [] = \<lparr> buffer = [], peeked = None \<rparr>"
| "skip_buffer p (b # bs) = (if p b then skip_buffer p bs else \<lparr> buffer = bs, peeked = Some b \<rparr>)"

definition skip_while :: "(u8 \<Rightarrow> bool) \<Rightarrow> reader \<Rightarrow> reader" where
  "skip_while p r =
     (case peeked r of
        Some b \<Rightarrow> if p b then skip_buffer p (buffer r) else r
      | None \<Rightarrow> skip_buffer p (buffer r))"

text \<open>\<open>deserialize_iterator\<close>: the items until the reader is finished, or the first error.\<close>

partial_function (option) collect_iterator ::
  "'a deserializer \<Rightarrow> reader \<Rightarrow> (ser_error, 'a list) outcome option" where
  "collect_iterator de r =
     (case is_finished r of (finished, r) \<Rightarrow>
        if finished then Some (Ok [])
        else case de r of
          Ok (x, r) \<Rightarrow>
            Option.bind (collect_iterator de r) (\<lambda>rest. Some (and_then rest (\<lambda>xs. Ok (x # xs))))
        | Err e \<Rightarrow> Some (Err e)
        | Panic \<Rightarrow> Some Panic)"


section \<open>What a reader has left\<close>

definition contents :: "reader \<Rightarrow> bytes" where
  "contents r = (case peeked r of None \<Rightarrow> buffer r | Some b \<Rightarrow> b # buffer r)"

text \<open>A read that returns \<open>x\<close> and leaves exactly \<open>rest\<close>.\<close>

definition yields :: "(ser_error, 'a \<times> reader) outcome \<Rightarrow> 'a \<Rightarrow> bytes \<Rightarrow> bool" where
  "yields res x rest \<longleftrightarrow> (\<exists>r. res = Ok (x, r) \<and> contents r = rest)"

lemma contents_new [simp]: "contents (reader_new bs) = bs"
  by (simp add: contents_def reader_new_def)

lemma yields_Ok [simp]: "yields (Ok (x, r)) y rest \<longleftrightarrow> x = y \<and> contents r = rest"
  by (auto simp: yields_def)

lemma yields_unique: "yields res x s \<Longrightarrow> yields res y t \<Longrightarrow> x = y \<and> s = t"
  by (auto simp: yields_def)

lemma yields_bind:
  assumes "yields m x rest" and "\<And>r. contents r = rest \<Longrightarrow> yields (f (x, r)) y rest'"
  shows "yields (and_then m f) y rest'"
  using assms by (auto simp: yields_def)

lemma io_read_contents:
  "io_read r n = (bs, r') \<Longrightarrow> bs = take (length bs) (contents r) \<and> contents r' = drop (length bs) (contents r)
     \<and> (bs = [] \<longleftrightarrow> n = 0 \<or> contents r = [])"
  by (cases n) (auto simp: io_read_def contents_def min_def split: option.splits if_splits)

lemma read_slice_contents:
  "n \<le> length (contents r) \<Longrightarrow> yields (read_slice n r) (take n (contents r)) (drop n (contents r))"
  "length (contents r) < n \<Longrightarrow> read_slice n r = Err UnexpectedEnd"
proof (induction n r rule: read_slice.induct)
  case (1 n r)
  obtain bs r' where io: "io_read r n = (bs, r')" by fastforce
  note c = io_read_contents [OF io] and le = io_read_progress [OF io]
  let ?k = "length bs"
  {
    case 1
    show ?case
    proof (cases "n = 0")
      case False
      with 1 c have bs: "bs \<noteq> []" by (metis length_0_conv list.size(3) not_le zero_less_iff_neq_zero)
      have "yields (read_slice (n - ?k) r') (take (n - ?k) (contents r')) (drop (n - ?k) (contents r'))"
        using "1.IH"(1) [OF False io [symmetric] bs] 1 c by simp
      then have "yields (and_then (read_slice (n - ?k) r') (\<lambda>(rest, r). Ok (bs @ rest, r)))
          (bs @ take (n - ?k) (contents r')) (drop (n - ?k) (contents r'))"
        by (rule yields_bind) simp
      moreover have "bs @ take (n - ?k) (contents r') = take n (contents r)"
        using c le by (metis le_add_diff_inverse take_add)
      moreover have "drop (n - ?k) (contents r') = drop n (contents r)"
        using c le by simp
      ultimately show ?thesis
        using False bs by (simp add: read_slice.simps [of n] io)
    qed (simp add: read_slice.simps)
  next
    case 2
    then have "n \<noteq> 0" by simp
    have "?k \<le> length (contents r)" using arg_cong [OF conjunct1 [OF c], of length] by simp
    with 2 have "length (contents r) - ?k < n - ?k" by simp
    then have "read_slice (n - ?k) r' = Err UnexpectedEnd" if "bs \<noteq> []"
      using "1.IH"(2) [OF \<open>n \<noteq> 0\<close> io [symmetric] that] that c by simp
    with \<open>n \<noteq> 0\<close> show ?case
      by (simp add: read_slice.simps [of n] io)
  }
qed

lemma read_slice_append: "contents r = bs @ rest \<Longrightarrow> yields (read_slice (length bs) r) bs rest"
  using read_slice_contents(1) [of "length bs" r] by simp

lemma read_slice_exact:
  assumes "read_slice n r = Ok (bs, r')"
  shows "length bs = n" and "contents r = bs @ contents r'"
proof -
  have "n \<le> length (contents r)" using read_slice_contents(2) [of r n] assms by fastforce
  then show "length bs = n" "contents r = bs @ contents r'"
    using read_slice_contents(1) [of n r] assms by (auto simp: min_def)
qed

lemma read_slice_no_panic: "read_slice n r \<noteq> Panic"
  using read_slice_contents(1) [of n r] read_slice_contents(2) [of r n] by (cases "n \<le> length (contents r)") (auto simp: yields_def)

lemma is_finished_iff: "fst (is_finished r) \<longleftrightarrow> contents r = []"
proof (cases "peeked r")
  case None
  show ?thesis
  proof (cases "contents r")
    case Nil
    then show ?thesis
      using None read_slice_contents(2) [of r 1] by (simp add: is_finished_def)
  next
    case (Cons b bs)
    then show ?thesis
      using None read_slice_contents(1) [of 1 r] by (auto simp: is_finished_def yields_def)
  qed
qed (simp add: is_finished_def contents_def)

lemma is_finished_contents: "contents (snd (is_finished r)) = contents r"
proof (cases "read_slice 1 r")
  case (Ok a)
  then obtain bs r' where r': "read_slice 1 r = Ok (bs, r')" by (cases a) auto
  show ?thesis
  proof (cases "peeked r")
    case None
    have "peeked r' = None"
      using r' None by (cases "buffer r")
        (auto simp: read_slice.simps [of "Suc 0"] io_read_def read_slice.simps [of 0])
    moreover obtain b where "bs = [b]" using read_slice_exact(1) [OF r'] by (cases bs) auto
    ultimately show ?thesis
      using r' None read_slice_exact(2) [OF r'] by (simp add: is_finished_def contents_def)
  qed (simp add: is_finished_def)
qed (auto simp: is_finished_def)

lemma skip_while_contents: "contents (skip_while p r) = dropWhile p (contents r)"
proof -
  have "contents (skip_buffer p bs) = dropWhile p bs" for bs
    by (induction bs) (simp_all add: contents_def)
  then show ?thesis by (simp add: skip_while_def contents_def [of r] split: option.split)
qed


section \<open>Codecs\<close>

text \<open>
  The contract of a serializable type: \<open>ok\<close> says which values can be written.  Everything that is
  proved of a type's users (lists of it, whole-buffer deserialization, unambiguity) is proved here.
\<close>

locale codec =
  fixes ser :: "'a \<Rightarrow> bytes" and de :: "'a deserializer" and ok :: "'a \<Rightarrow> bool"
  assumes reads: "ok x \<Longrightarrow> contents r = ser x @ rest \<Longrightarrow> yields (de r) x rest"
begin

lemma reads_bind:
  assumes "ok x" and "contents r = ser x @ rest"
    and "\<And>r. contents r = rest \<Longrightarrow> yields (f (x, r)) y rest'"
  shows "yields (and_then (de r) f) y rest'"
  using reads [OF assms(1,2)] assms(3) by (rule yields_bind)

lemma deserialize_serialize:
  assumes "ok x"
  shows "deserialize de (ser x @ rest) = (if rest = [] then Ok x else Err UnreadData)"
proof -
  obtain r where "de (reader_new (ser x @ rest)) = Ok (x, r)" "contents r = rest"
    using reads [OF assms, of "reader_new (ser x @ rest)" rest] by (auto simp: yields_def)
  then show ?thesis by (simp add: deserialize_def is_finished_iff)
qed

lemma prefix_free:
  assumes "ok x" and "ok y" and "ser x @ s = ser y @ t"
  shows "x = y \<and> s = t"
  by (rule yields_unique [of "de (reader_new (ser x @ s))"]) (rule reads, simp_all add: assms)+

lemma concat_inj:
  assumes "list_all ok xs" and "list_all ok ys" and "\<And>x. ser x \<noteq> []"
    and "concat (map ser xs) = concat (map ser ys)"
  shows "xs = ys"
  using assms(1,2,4)
proof (induction xs arbitrary: ys)
  case Nil
  then show ?case using assms(3) by (cases ys) auto
next
  case (Cons x xs)
  have "ys \<noteq> []" using Cons.prems(3) assms(3) [of x] by (cases "ys = []") simp_all
  then obtain y ys' where ys: "ys = y # ys'" by (meson neq_Nil_conv)
  have "x = y \<and> concat (map ser xs) = concat (map ser ys')"
    by (rule prefix_free) (use Cons.prems ys in simp_all)
  with Cons.IH [of ys'] Cons.prems(1,2) ys show ?case by simp
qed

lemma read_times_serialized:
  assumes "list_all ok xs" and "contents r = concat (map ser xs) @ rest"
  shows "yields (read_times de (length xs) r) xs rest"
  using assms
proof (induction xs arbitrary: r)
  case (Cons x xs)
  then have "ok x" and c: "contents r = ser x @ concat (map ser xs) @ rest" by simp_all
  then show ?case
    using Cons by (auto intro!: reads_bind [OF _ c] yields_bind [OF Cons.IH])
qed simp

end

text \<open>A type whose every value has one encoding only.\<close>

locale exact_codec = codec +
  assumes exact: "de r = Ok (x, r') \<Longrightarrow> ok x \<and> contents r = ser x @ contents r'"
begin

lemma deserialize_iff: "deserialize de bs = Ok x \<longleftrightarrow> ok x \<and> bs = ser x"
proof
  assume "deserialize de bs = Ok x"
  then obtain r where r: "de (reader_new bs) = Ok (x, r)" "contents r = []"
    by (auto simp: deserialize_def is_finished_iff split: if_splits)
  with exact [OF r(1)] show "ok x \<and> bs = ser x" by simp
next
  assume "ok x \<and> bs = ser x"
  then show "deserialize de bs = Ok x" using deserialize_serialize [of x "[]"] by simp
qed

end


section \<open>The basic types\<close>

lemma read_le_serialized:
  assumes "v < 256 ^ n" and "contents r = le_bytes n v @ rest"
  shows "yields (read_le n r) v rest"
  unfolding read_le_def
  using yields_bind [OF read_slice_append [OF assms(2)], of "\<lambda>(bs, r). Ok (le_nat bs, r)" v rest] assms(1) by simp

lemma read_le_exact:
  assumes "read_le n r = Ok (v, r')"
  shows "v < 256 ^ n" and "contents r = le_bytes n v @ contents r'"
proof -
  obtain bs where bs: "read_slice n r = Ok (bs, r')" "v = le_nat bs" using assms by (auto simp: read_le_def)
  note e = read_slice_exact [OF bs(1)]
  from e bs(2) show "v < 256 ^ n" "contents r = le_bytes n v @ contents r'"
    using le_nat_less [of bs] le_bytes_le_nat [of bs] by simp_all
qed

lemma unat_less: "unat (w :: 'w::len word) < 2 ^ LENGTH('w)"
  by (rule unsigned_less)

lemma narrow:
  fixes i :: "'w::len word"
  assumes "unat i < 2 ^ LENGTH('v)"
  shows "unat (ucast i :: 'v::len word) = unat i" and "ucast (ucast i :: 'v word) = i"
proof -
  show u: "unat (ucast i :: 'v word) = unat i"
    using assms by (simp add: unsigned_ucast_eq take_bit_nat_eq_self)
  have "unat (ucast (ucast i :: 'v word) :: 'w word) = take_bit LENGTH('w) (unat (ucast i :: 'v word))"
    by (rule unsigned_ucast_eq)
  also have "\<dots> = unat i"
    unfolding u using unat_less [of i] by (simp add: take_bit_nat_eq_self)
  finally show "ucast (ucast i :: 'v word) = i" unfolding word_unat_eq_iff .
qed

lemma widen:
  fixes i :: "'w::len word"
  assumes "LENGTH('w) \<le> LENGTH('v)"
  shows "unat (ucast i :: 'v::len word) = unat i" and "ucast (ucast i :: 'v word) = i"
proof -
  have "unat i < 2 ^ LENGTH('v)"
    using unat_less [of i] power_increasing [OF assms, of "2 :: nat"] by linarith
  then show "unat (ucast i :: 'v word) = unat i" "ucast (ucast i :: 'v word) = i" by (rule narrow)+
qed

text \<open>The integers of \<open>n\<close> bytes.\<close>

lemma word_codec:
  fixes ser :: "'w::len word \<Rightarrow> bytes"
  assumes ser: "\<And>w. ser w = le_bytes n (unat w)" and w: "LENGTH('w) = 8 * n"
    and de: "\<And>r. de r = and_then (read_le n r) (\<lambda>(v, r). Ok (word_of_nat v, r))"
  shows "exact_codec ser de (\<lambda>_. True)"
proof unfold_locales
  have size: "(2 :: nat) ^ LENGTH('w) = 256 ^ n" by (simp add: w power_mult)
  fix x :: "'w word" and r rest
  assume "contents r = ser x @ rest"
  then have "yields (read_le n r) (unat x) rest"
    using unat_less [of x] by (intro read_le_serialized) (simp_all add: ser size)
  then show "yields (de r) x rest" unfolding de by (rule yields_bind) simp
next
  have size: "(2 :: nat) ^ LENGTH('w) = 256 ^ n" by (simp add: w power_mult)
  fix r x r'
  assume "de r = Ok (x, r')"
  then obtain v where v: "read_le n r = Ok (v, r')" "x = word_of_nat v" by (auto simp: de)
  then have "unat x = v" using read_le_exact(1) [OF v(1)] by (simp add: unat_of_nat size)
  then show "True \<and> contents r = ser x @ contents r'" using read_le_exact(2) [OF v(1)] by (simp add: ser)
qed

interpretation u8: exact_codec serialize_u8 read_u8 "\<lambda>_. True"
  by (rule word_codec [of _ 1]) (simp_all add: serialize_u8_def read_u8_def unat_u8_less)

interpretation u16: exact_codec serialize_u16 read_u16 "\<lambda>_. True"
  by (rule word_codec [of _ 2]) (simp_all add: serialize_u16_def read_u16_def)

interpretation u32: exact_codec serialize_u32 read_u32 "\<lambda>_. True"
  by (rule word_codec [of _ 4]) (simp_all add: serialize_u32_def read_u32_def)

interpretation u64: exact_codec serialize_u64 read_u64 "\<lambda>_. True"
  by (rule word_codec [of _ 8]) (simp_all add: serialize_u64_def read_u64_def)

interpretation i32: exact_codec serialize_i32 read_i32 "\<lambda>_. True"
  by (rule word_codec [of _ 4]) (simp_all add: serialize_i32_def read_i32_def)

interpretation i64: exact_codec serialize_i64 read_i64 "\<lambda>_. True"
  by (rule word_codec [of _ 8]) (simp_all add: serialize_i64_def read_i64_def)

interpretation bool: exact_codec serialize_bool read_bool "\<lambda>_. True"
proof unfold_locales
  fix x :: bool and r rest
  assume "contents r = serialize_bool x @ rest"
  then have "contents r = serialize_u8 (of_bool x) @ rest" by (simp add: serialize_bool_def serialize_u8_def)
  then show "yields (read_bool r) x rest"
    unfolding read_bool_def by (rule u8.reads_bind [OF TrueI]) auto
next
  fix r x r'
  assume "read_bool r = Ok (x, r')"
  then obtain v where v: "read_u8 r = Ok (v, r')" "v = of_bool x"
    by (auto simp: read_bool_def split: if_splits)
  then show "True \<and> contents r = serialize_bool x @ contents r'"
    using u8.exact [OF v(1)] by (simp add: serialize_bool_def serialize_u8_def)
qed

text \<open>Hashes are their bytes.\<close>

interpretation hash: exact_codec "\<lambda>bs. bs" "read_slice n" "\<lambda>bs. length bs = n" for n
proof unfold_locales
  fix x r rest
  assume "length x = n" and "contents r = x @ rest"
  then show "yields (read_slice n r) x rest" using read_slice_append [of r x rest] by simp
qed (use read_slice_exact in blast)


section \<open>Compact integers, byte strings and lists\<close>

lemma length_serialize_compact_integer:
  "length (serialize_compact_integer i) = compact_integer_size i"
  by (simp add: serialize_compact_integer_def compact_integer_size_def serialize_u8_def serialize_u16_def
      serialize_u32_def serialize_u64_def)

interpretation compact_integer: codec serialize_compact_integer read_compact_integer "\<lambda>_. True"
proof unfold_locales
  fix i :: u64 and r rest
  assume c: "contents r = serialize_compact_integer i @ rest"
  have tag: "contents r = serialize_u8 t @ s \<Longrightarrow>
      (\<And>r. contents r = s \<Longrightarrow> yields (
         if t \<le> 0xfc then Ok (ucast t, r)
         else if t = 0xfd then and_then (read_u16 r) (\<lambda>(v, r). Ok (ucast v, r))
         else if t = 0xfe then and_then (read_u32 r) (\<lambda>(v, r). Ok (ucast v, r))
         else read_u64 r) i rest) \<Longrightarrow> yields (read_compact_integer r) i rest" for t s
    unfolding read_compact_integer_def by (rule u8.reads_bind [OF TrueI, where x = t and rest = s]) simp_all
  consider "unat i \<le> 0xfc" | "0xfc < unat i" "unat i \<le> 0xffff" | "0xffff < unat i" "unat i \<le> 0xffffffff"
    | "0xffffffff < unat i" by linarith
  then show "yields (read_compact_integer r) i rest"
  proof cases
    case 1
    then show ?thesis
      using c narrow [of i, where ?'v = 8]
      by (intro tag [of "ucast i" rest]) (simp_all add: serialize_compact_integer_def word_le_nat_alt)
  next
    case 2
    then show ?thesis
      using c narrow [of i, where ?'v = 16]
      by (intro tag [of "0xfd" "serialize_u16 (ucast i) @ rest"])
        (auto simp: serialize_compact_integer_def word_le_nat_alt intro!: u16.reads_bind [OF TrueI])
  next
    case 3
    then show ?thesis
      using c narrow [of i, where ?'v = 32]
      by (intro tag [of "0xfe" "serialize_u32 (ucast i) @ rest"])
        (auto simp: serialize_compact_integer_def word_le_nat_alt intro!: u32.reads_bind [OF TrueI])
  next
    case 4
    then show ?thesis
      using c by (intro tag [of "0xff" "serialize_u64 i @ rest"])
        (auto simp: serialize_compact_integer_def word_le_nat_alt intro!: u64.reads [OF TrueI])
  qed
qed

interpretation byte_string: codec serialize_bytes read_bytes "\<lambda>bs. length bs < 2 ^ 63"
proof unfold_locales
  fix x r rest
  assume "length x < 2 ^ 63" and "contents r = serialize_bytes x @ rest"
  then show "yields (read_bytes r) x rest"
    unfolding read_bytes_def
    by (intro compact_integer.reads_bind [OF TrueI, where x = "word_of_nat (length x)" and rest = "x @ rest"])
      (simp_all add: serialize_bytes_def with_capacity_def unat_of_nat read_slice_append)
qed

text \<open>Lists of a codec are a codec.\<close>

definition list_ok :: "nat \<Rightarrow> ('a \<Rightarrow> bool) \<Rightarrow> 'a list \<Rightarrow> bool" where
  "list_ok k ok xs \<longleftrightarrow> list_all ok xs \<and> length xs < 2 ^ 64 \<and> length xs * k < 2 ^ 63"

context codec
begin

lemma list_codec: "codec (append_list ser) (read_list k de) (list_ok k ok)"
proof unfold_locales
  fix xs r rest
  assume "list_ok k ok xs" and "contents r = append_list ser xs @ rest"
  then show "yields (read_list k de r) xs rest"
    unfolding read_list_def
    by (intro compact_integer.reads_bind [OF TrueI, where x = "word_of_nat (length xs)" and rest = "concat (map ser xs) @ rest"])
      (simp_all add: append_list_def list_ok_def with_capacity_def unat_of_nat read_times_serialized)
qed

lemma list_max_codec: "codec (append_list ser) (read_list_max k de limit) (\<lambda>xs. list_ok k ok xs \<and> length xs \<le> limit)"
proof unfold_locales
  fix xs r rest
  assume "list_ok k ok xs \<and> length xs \<le> limit" and "contents r = append_list ser xs @ rest"
  then show "yields (read_list_max k de limit r) xs rest"
    unfolding read_list_max_def
    by (intro compact_integer.reads_bind [OF TrueI, where x = "word_of_nat (length xs)" and rest = "concat (map ser xs) @ rest"])
      (simp_all add: append_list_def list_ok_def with_capacity_def unat_of_nat read_times_serialized)
qed

end

text \<open>The declared sizes are the sizes of what is written.\<close>

lemma length_serialize_bytes: "length (serialize_bytes bs) = bytes_size bs"
  by (simp add: serialize_bytes_def bytes_size_def length_serialize_compact_integer)

lemma length_append_list:
  "(\<And>x. x \<in> set xs \<Longrightarrow> length (ser x) = sz x) \<Longrightarrow> length (append_list ser xs) = serialized_list_size sz xs"
  by (simp add: append_list_def serialized_list_size_def length_serialize_compact_integer length_concat
      map_map o_def cong: map_cong)


section \<open>What a read consumes\<close>

text \<open>The weaker contract of every deserializer: it takes a prefix of what the reader has left.\<close>

locale consuming =
  fixes de :: "'a deserializer"
  assumes consumes: "de r = Ok (x, r') \<Longrightarrow> \<exists>used. contents r = used @ contents r'"
begin

lemma read_times_consumes: "read_times de n r = Ok (xs, r') \<Longrightarrow> \<exists>used. contents r = used @ contents r'"
proof (induction n arbitrary: r xs)
  case (Suc n)
  then obtain x r1 ys where x: "de r = Ok (x, r1)" and ys: "read_times de n r1 = Ok (ys, r')"
    by auto
  from consumes [OF x] Suc.IH [OF ys] show ?case by (metis append.assoc)
qed simp

end

sublocale exact_codec \<subseteq> consuming de
  using exact by unfold_locales blast

lemma consuming_bind:
  assumes "consuming de" and "\<And>x. consuming (\<lambda>r. f (x, r))"
  shows "consuming (\<lambda>r. and_then (de r) f)"
proof unfold_locales
  fix r y r'
  assume "and_then (de r) f = Ok (y, r')"
  then obtain x r1 where x: "de r = Ok (x, r1)" and y: "f (x, r1) = Ok (y, r')" by auto
  from consuming.consumes [OF assms(1) x] consuming.consumes [OF assms(2) y]
  show "\<exists>used. contents r = used @ contents r'" by (metis append.assoc)
qed

lemma consuming_Ok: "consuming (\<lambda>r. Ok (x, r))"
  by unfold_locales auto

lemma consuming_Err: "consuming (\<lambda>r. Err e)" and consuming_Panic: "consuming (\<lambda>r. Panic)"
  by unfold_locales auto

lemma consuming_if: "(c \<Longrightarrow> consuming f) \<Longrightarrow> (\<not> c \<Longrightarrow> consuming g) \<Longrightarrow> consuming (\<lambda>r. if c then f r else g r)"
  by (cases c) auto

lemma consuming_guard: "consuming f \<Longrightarrow> consuming (\<lambda>r. and_then c (\<lambda>_. f r))"
  by (cases c) (auto intro: consuming_Err consuming_Panic)

lemma consuming_read_times: "consuming de \<Longrightarrow> consuming (read_times de n)"
  by unfold_locales (rule consuming.read_times_consumes)

lemmas consuming_rules = consuming_Ok consuming_Err consuming_Panic consuming_if consuming_guard consuming_read_times
  u8.consuming_axioms u16.consuming_axioms u32.consuming_axioms u64.consuming_axioms i32.consuming_axioms
  hash.consuming_axioms

interpretation compact_integer: consuming read_compact_integer
  unfolding read_compact_integer_def by (intro consuming_bind) (auto intro!: consuming_rules consuming_bind)

interpretation byte_string: consuming read_bytes
  unfolding read_bytes_def
  by (intro consuming_bind compact_integer.consuming_axioms) (auto intro!: consuming_rules)

lemma consuming_read_list: "consuming de \<Longrightarrow> consuming (read_list k de)"
  unfolding read_list_def
  by (intro consuming_bind compact_integer.consuming_axioms) (auto intro!: consuming_rules)


section \<open>Properties\<close>

lemma compact_integer_encodings:
  assumes "read_compact_integer r = Ok (i, r')"
  obtains e where "contents r = e @ contents r'"
    and "length (serialize_compact_integer i) < length e \<or> e = serialize_compact_integer i"
proof -
  obtain t r1 where t: "read_u8 r = Ok (t, r1)" and rest:
    "(if t \<le> 0xfc then Ok (ucast t, r1)
      else if t = 0xfd then and_then (read_u16 r1) (\<lambda>(v, r). Ok (ucast v, r))
      else if t = 0xfe then and_then (read_u32 r1) (\<lambda>(v, r). Ok (ucast v, r))
      else read_u64 r1) = Ok (i, r')"
    using assms by (auto simp: read_compact_integer_def)
  have c: "contents r = serialize_u8 t @ contents r1" using u8.exact [OF t] by simp
  note defs = serialize_compact_integer_def serialize_u8_def serialize_u16_def serialize_u32_def serialize_u64_def
    word_le_nat_alt
  consider "t \<le> 0xfc" | "t = 0xfd" | "t = 0xfe" | "t = 0xff"
    using word_le_nat_alt [of t "0xfc"] unat_u8_less [of t] by (fastforce simp: word_unat_eq_iff)
  then show thesis
  proof cases
    case 1
    with rest c show ?thesis by (intro that [of "serialize_u8 t"]) (auto simp: defs widen)
  next
    case 2
    with rest obtain v where v: "read_u16 r1 = Ok (v, r')" "i = ucast v" by auto
    with c 2 show ?thesis
      using u16.exact [OF v(1)] unat_less [of v] by (intro that [of "serialize_u8 t @ serialize_u16 v"]) (auto simp: defs widen)
  next
    case 3
    with rest obtain v where v: "read_u32 r1 = Ok (v, r')" "i = ucast v" by auto
    with c 3 show ?thesis
      using u32.exact [OF v(1)] unat_less [of v] by (intro that [of "serialize_u8 t @ serialize_u32 v"]) (auto simp: defs widen)
  next
    case 4
    with rest have v: "read_u64 r1 = Ok (i, r')" by simp
    with c 4 show ?thesis
      using u64.exact [OF v] by (intro that [of "serialize_u8 t @ serialize_u64 i"]) (auto simp: defs)
  qed
qed

text \<open>Compact integers: every 64-bit value is read back from its encoding and leaves what follows
  unread; the encoding has the declared size; and among all byte strings that the reader accepts
  for a value, the written one is the shortest, and the only one of its length.\<close>

theorem compact_integer_round_trip:
  "deserialize read_compact_integer (serialize_compact_integer i) = Ok i
   \<and> length (serialize_compact_integer i) = compact_integer_size i
   \<and> (deserialize read_compact_integer bs = Ok i \<longrightarrow>
        length (serialize_compact_integer i) \<le> length bs
        \<and> (length bs = length (serialize_compact_integer i) \<longrightarrow> bs = serialize_compact_integer i))"
proof -
  have "length (serialize_compact_integer i) < length bs \<or> bs = serialize_compact_integer i"
    if "deserialize read_compact_integer bs = Ok i"
  proof -
    from that obtain r where r: "read_compact_integer (reader_new bs) = Ok (i, r)" "contents r = []"
      by (auto simp: deserialize_def is_finished_iff split: if_splits)
    from compact_integer_encodings [OF r(1)] r(2) show ?thesis by (metis append_Nil2 contents_new)
  qed
  then show ?thesis
    using compact_integer.deserialize_serialize [OF TrueI, of i "[]"] length_serialize_compact_integer [of i] by auto
qed

theorem compact_integer_round_trip_witness:
  "deserialize read_compact_integer [0xfd, 7, 0] = Ok 7
   \<and> length (serialize_compact_integer 7) \<le> length [0xfd, 7, 0 :: u8] \<and> serialize_compact_integer 7 = [7]"
proof -
  have r: "deserialize read_compact_integer [0xfd, 7, 0] = Ok 7" by code_simp
  have w: "serialize_compact_integer 7 = [7]" by code_simp
  from compact_integer_round_trip [of 7 "[0xfd, 7, 0]"] r w show ?thesis by blast
qed

lemma replicate_numeral: "replicate (numeral k) x = x # replicate (pred_numeral k) x"
  by (simp add: numeral_eq_Suc)

text \<open>A reader can be made to panic: a byte string whose declared length exceeds what a vector can
  hold aborts the reader on its allocation, before a single byte of it is read, and so does a list
  of any element type of non-zero size.\<close>

theorem read_huge_length_panics:
  "deserialize read_bytes (replicate 9 0xff) = Panic
   \<and> deserialize (read_list (Suc k) de) (replicate 9 0xff) = Panic"
proof -
  have "serialize_compact_integer 0xffffffffffffffff = replicate 9 0xff"
    by (simp add: serialize_compact_integer_def serialize_u8_def serialize_u64_def le_bytes_numeral replicate_numeral)
  then obtain r where r: "read_compact_integer (reader_new (replicate 9 0xff)) = Ok (0xffffffffffffffff, r)"
    using compact_integer.reads [OF TrueI, of "reader_new (replicate 9 0xff)" "0xffffffffffffffff" "[]"]
    by (auto simp: yields_def)
  have "unat (0xffffffffffffffff :: u64) = 2 ^ 64 - 1" by simp
  then have "with_capacity (Suc j) (unat (0xffffffffffffffff :: u64)) = Panic" for j
    by (simp add: with_capacity_def)
  from this [of 0] this [of k] r show ?thesis
    by (simp add: deserialize_def read_bytes_def read_list_def)
qed


end
