(* ===== verification/Chain.thy ===== *)
theory Chain
  imports Keys Serialization Chain_Constants
begin

text \<open>
  The \<open>chain\<close> crate: transactions (\<open>transaction.rs\<close>), block headers and blocks
  (\<open>block_header.rs\<close>, \<open>block.rs\<close>), their hashed counterparts (\<open>indexed_*.rs\<close>,
  \<open>read_and_hash.rs\<close>) and the merkle root (\<open>merkle_root.rs\<close>).

  Hashes are byte strings of 32 bytes; the invariants \<open>*_ok\<close> say so, together with the bounds on the
  lengths of vectors that hold of every vector in memory.
\<close>

section \<open>Transactions\<close>

record out_point =
  op_hash :: bytes
  op_index :: u32

definition out_point_null :: out_point where
  "out_point_null = \<lparr> op_hash = replicate 32 0, op_index = 0xffffffff \<rparr>"

definition out_point_is_null :: "out_point \<Rightarrow> bool" where
  "out_point_is_null p \<longleftrightarrow> list_all (\<lambda>b. b = 0) (op_hash p) \<and> op_index p = 0xffffffff"

record transaction_input =
  ti_previous_output :: out_point
  ti_script_sig :: bytes
  ti_sequence :: u32
  ti_script_witness :: "bytes list"

definition input_coinbase :: "bytes \<Rightarrow> transaction_input" where
  "input_coinbase script_sig =
     \<lparr> ti_previous_output = out_point_null, ti_script_sig = script_sig, ti_sequence = SEQUENCE_FINAL,
       ti_script_witness = [] \<rparr>"

definition input_is_final :: "transaction_input \<Rightarrow> bool" where
  "input_is_final i \<longleftrightarrow> ti_sequence i = SEQUENCE_FINAL"

definition input_has_witness :: "transaction_input \<Rightarrow> bool" where
  "input_has_witness i \<longleftrightarrow> ti_script_witness i \<noteq> []"

record transaction_output =
  to_value :: u64
  to_script_pubkey :: bytes

definition output_default :: transaction_output where
  "output_default = \<lparr> to_value = 0xffffffffffffffff, to_script_pubkey = [] \<rparr>"

record transaction =
  tx_version :: i32
  tx_inputs :: "transaction_input list"
  tx_outputs :: "transaction_output list"
  tx_lock_time :: u32

definition tx_is_empty :: "transaction \<Rightarrow> bool" where
  "tx_is_empty t \<longleftrightarrow> tx_inputs t = [] \<or> tx_outputs t = []"

definition tx_is_null :: "transaction \<Rightarrow> bool" where
  "tx_is_null t \<longleftrightarrow> list_ex (\<lambda>i. out_point_is_null (ti_previous_output i)) (tx_inputs t)"

definition tx_is_coinbase :: "transaction \<Rightarrow> bool" where
  "tx_is_coinbase t \<longleftrightarrow> length (tx_inputs t) = 1 \<and> out_point_is_null (ti_previous_output (tx_inputs t ! 0))"

definition tx_is_final :: "transaction \<Rightarrow> bool" where
  "tx_is_final t \<longleftrightarrow> tx_lock_time t = 0 \<or> list_all input_is_final (tx_inputs t)"

definition tx_is_final_in_block :: "transaction \<Rightarrow> u32 \<Rightarrow> u32 \<Rightarrow> bool" where
  "tx_is_final_in_block t block_height block_time =
     (if tx_lock_time t = 0 then True
      else let max_lock_time = (if tx_lock_time t < LOCKTIME_THRESHOLD then block_height else block_time) in
        if tx_lock_time t < max_lock_time then True
        else list_all input_is_final (tx_inputs t))"

definition tx_has_witness :: "transaction \<Rightarrow> bool" where
  "tx_has_witness t \<longleftrightarrow> list_ex input_has_witness (tx_inputs t)"

text \<open>\<open>total_spends\<close>: the loop with its running total; the addition is guarded.\<close>

fun total_spends_from :: "u64 \<Rightarrow> transaction_output list \<Rightarrow> u64" where
  "total_spends_from result [] = result"
| "total_spends_from result (o1 # os) =
     (if 0xffffffffffffffff - result < to_value o1 then 0xffffffffffffffff
      else total_spends_from (result + to_value o1) os)"

definition total_spends :: "transaction \<Rightarrow> u64" where
  "total_spends t = total_spends_from 0 (tx_outputs t)"


subsection \<open>Encodings\<close>

definition WITNESS_MARKER :: u8 where "WITNESS_MARKER = 0"
definition WITNESS_FLAG :: u8 where "WITNESS_FLAG = 1"

definition serialize_out_point :: "out_point \<Rightarrow> bytes" where
  "serialize_out_point p = op_hash p @ serialize_u32 (op_index p)"

definition read_out_point :: "out_point deserializer" where
  "read_out_point r =
     and_then (read_slice 32 r) (\<lambda>(h, r).
     and_then (read_u32 r) (\<lambda>(i, r). Ok (\<lparr> op_hash = h, op_index = i \<rparr>, r)))"

definition serialize_input :: "transaction_input \<Rightarrow> bytes" where
  "serialize_input i =
     serialize_out_point (ti_previous_output i) @ serialize_bytes (ti_script_sig i) @ serialize_u32 (ti_sequence i)"

definition read_input :: "transaction_input deserializer" where
  "read_input r =
     and_then (read_out_point r) (\<lambda>(previous_output, r).
     and_then (read_bytes r) (\<lambda>(script_sig, r).
     and_then (read_u32 r) (\<lambda>(sequence, r).
       Ok (\<lparr> ti_previous_output = previous_output, ti_script_sig = script_sig, ti_sequence = sequence,
             ti_script_witness = [] \<rparr>, r))))"

definition serialize_output :: "transaction_output \<Rightarrow> bytes" where
  "serialize_output t = serialize_u64 (to_value t) @ serialize_bytes (to_script_pubkey t)"

definition read_output :: "transaction_output deserializer" where
  "read_output r =
     and_then (read_u64 r) (\<lambda>(v, r).
     and_then (read_bytes r) (\<lambda>(script_pubkey, r).
       Ok (\<lparr> to_value = v, to_script_pubkey = script_pubkey \<rparr>, r)))"

definition serialize_transaction :: "u32 \<Rightarrow> transaction \<Rightarrow> bytes" where
  "serialize_transaction flags t =
     (if include_transaction_witness flags \<and> tx_has_witness t then
        serialize_i32 (tx_version t) @ serialize_u8 WITNESS_MARKER @ serialize_u8 WITNESS_FLAG
        @ append_list serialize_input (tx_inputs t) @ append_list serialize_output (tx_outputs t)
        @ concat (map (\<lambda>i. append_list serialize_bytes (ti_script_witness i)) (tx_inputs t))
        @ serialize_u32 (tx_lock_time t)
      else
        serialize_i32 (tx_version t)
        @ append_list serialize_input (tx_inputs t) @ append_list serialize_output (tx_outputs t)
        @ serialize_u32 (tx_lock_time t))"

text \<open>
  The element sizes on a 64-bit target, for the capacity of vectors: \<open>Bytes\<close> is a vector (24
  bytes); an input has a 36-byte out point, two vectors and a word; an output a value and a vector;
  a transaction two vectors and two words.
\<close>

definition size_of_bytes :: nat where "size_of_bytes = 24"
definition size_of_input :: nat where "size_of_input = 88"
definition size_of_output :: nat where "size_of_output = 32"
definition size_of_transaction :: nat where "size_of_transaction = 56"

lemmas sizes_of = size_of_bytes_def size_of_input_def size_of_output_def size_of_transaction_def

fun read_witnesses :: "transaction_input list \<Rightarrow> transaction_input list deserializer" where
  "read_witnesses [] r = Ok ([], r)"
| "read_witnesses (i # is) r =
     and_then (read_list size_of_bytes read_bytes r) (\<lambda>(w, r).
     and_then (read_witnesses is r) (\<lambda>(is, r). Ok (i\<lparr>ti_script_witness := w\<rparr> # is, r)))"

definition read_tx_inputs :: "(transaction_input list \<times> bool) deserializer" where
  "read_tx_inputs r =
     and_then (read_list size_of_input read_input r) (\<lambda>(inputs, r).
       if inputs = [] then
         and_then (read_u8 r) (\<lambda>(witness_flag, r).
           if witness_flag \<noteq> WITNESS_FLAG then Err MalformedData
           else and_then (read_list size_of_input read_input r) (\<lambda>(inputs, r). Ok ((inputs, True), r)))
       else Ok ((inputs, False), r))"

definition read_transaction :: "transaction deserializer" where
  "read_transaction r =
     and_then (read_i32 r) (\<lambda>(version, r).
     and_then (read_tx_inputs r) (\<lambda>((inputs, read_witness), r).
     and_then (read_list size_of_output read_output r) (\<lambda>(outputs, r).
     and_then (if read_witness then read_witnesses inputs r else Ok (inputs, r)) (\<lambda>(inputs, r).
     and_then (read_u32 r) (\<lambda>(lock_time, r).
       Ok (\<lparr> tx_version = version, tx_inputs = inputs, tx_outputs = outputs, tx_lock_time = lock_time \<rparr>, r))))))"

definition transaction_hash :: "hasher \<Rightarrow> transaction \<Rightarrow> bytes" where
  "transaction_hash h t = dhash256 h (serialize_transaction 0 t)"

definition witness_hash :: "hasher \<Rightarrow> transaction \<Rightarrow> bytes" where
  "witness_hash h t = dhash256 h (serialize_transaction SERIALIZE_TRANSACTION_WITNESS t)"


section \<open>Headers and blocks\<close>

record block_header =
  bh_version :: u32
  bh_previous_header_hash :: bytes
  bh_merkle_root_hash :: bytes
  bh_time :: u32
  bh_bits :: u32
  bh_nonce :: u32

definition serialize_header :: "block_header \<Rightarrow> bytes" where
  "serialize_header b =
     serialize_u32 (bh_version b) @ bh_previous_header_hash b @ bh_merkle_root_hash b
     @ serialize_u32 (bh_time b) @ serialize_u32 (bh_bits b) @ serialize_u32 (bh_nonce b)"

definition read_header :: "block_header deserializer" where
  "read_header r =
     and_then (read_u32 r) (\<lambda>(version, r).
     and_then (read_slice 32 r) (\<lambda>(previous_header_hash, r).
     and_then (read_slice 32 r) (\<lambda>(merkle_root_hash, r).
     and_then (read_u32 r) (\<lambda>(time, r).
     and_then (read_u32 r) (\<lambda>(bits, r).
     and_then (read_u32 r) (\<lambda>(nonce, r).
       Ok (\<lparr> bh_version = version, bh_previous_header_hash = previous_header_hash,
             bh_merkle_root_hash = merkle_root_hash, bh_time = time, bh_bits = bits, bh_nonce = nonce \<rparr>, r)))))))"

definition block_header_hash :: "hasher \<Rightarrow> block_header \<Rightarrow> bytes" where
  "block_header_hash h b = dhash256 h (serialize_header b)"

record block =
  b_header :: block_header
  b_transactions :: "transaction list"

definition serialize_block :: "u32 \<Rightarrow> block \<Rightarrow> bytes" where
  "serialize_block flags b =
     serialize_header (b_header b) @ append_list (serialize_transaction flags) (b_transactions b)"

definition read_block :: "block deserializer" where
  "read_block r =
     and_then (read_header r) (\<lambda>(h, r).
     and_then (read_list size_of_transaction read_transaction r) (\<lambda>(txs, r).
       Ok (\<lparr> b_header = h, b_transactions = txs \<rparr>, r)))"


section \<open>The merkle root\<close>

definition merkle_node_hash :: "hasher \<Rightarrow> bytes \<Rightarrow> bytes \<Rightarrow> bytes" where
  "merkle_node_hash h left right = dhash256 h (left @ right)"

text \<open>The pairs that the \<open>while\<close> loop pushes from index \<open>i\<close>, and the row.\<close>

function pairs_from :: "bytes list \<Rightarrow> nat \<Rightarrow> (bytes \<times> bytes) list" where
  "pairs_from hashes i =
     (if i + 1 < length hashes then (hashes ! i, hashes ! (i + 1)) # pairs_from hashes (i + 2) else [])"
  by pat_completeness auto
termination by (relation "measure (\<lambda>(hashes, i). length hashes - i)") auto

declare pairs_from.simps [simp del]

definition merkle_row :: "bytes list \<Rightarrow> (bytes \<times> bytes) list" where
  "merkle_row hashes =
     pairs_from hashes 0 @
       (if length hashes mod 2 = 1 then [(hashes ! (length hashes - 1), hashes ! (length hashes - 1))] else [])"

text \<open>The recursion ends for every non-empty row only; \<open>None\<close> is running forever.\<close>

partial_function (option) merkle_root :: "hasher \<Rightarrow> bytes list \<Rightarrow> bytes option" where
  "merkle_root h hashes =
     (if length hashes = 1 then Some (hashes ! 0)
      else merkle_root h (map (\<lambda>(l, r). merkle_node_hash h l r) (merkle_row hashes)))"


section \<open>Hashed headers, transactions and blocks\<close>

record indexed_header =
  ih_hash :: bytes
  ih_raw :: block_header

record indexed_transaction =
  it_hash :: bytes
  it_raw :: transaction

record indexed_block =
  ib_header :: indexed_header
  ib_transactions :: "indexed_transaction list"

definition indexed_header_from_raw :: "hasher \<Rightarrow> block_header \<Rightarrow> indexed_header" where
  "indexed_header_from_raw h b = \<lparr> ih_hash = block_header_hash h b, ih_raw = b \<rparr>"

definition indexed_transaction_from_raw :: "hasher \<Rightarrow> transaction \<Rightarrow> indexed_transaction" where
  "indexed_transaction_from_raw h t = \<lparr> it_hash = transaction_hash h t, it_raw = t \<rparr>"

definition indexed_block_from_raw :: "hasher \<Rightarrow> block \<Rightarrow> indexed_block" where
  "indexed_block_from_raw h b =
     \<lparr> ib_header = indexed_header_from_raw h (b_header b),
       ib_transactions = map (indexed_transaction_from_raw h) (b_transactions b) \<rparr>"

definition to_raw_block :: "indexed_block \<Rightarrow> block" where
  "to_raw_block b = \<lparr> b_header = ih_raw (ib_header b), b_transactions = map it_raw (ib_transactions b) \<rparr>"

text \<open>\<open>read_and_hash\<close>: the value and the hash and number of the bytes that its reading consumed.\<close>

record 'a hashed_data =
  hd_size :: nat
  hd_hash :: bytes
  hd_data :: 'a

definition read_and_hash :: "hasher \<Rightarrow> 'a deserializer \<Rightarrow> 'a hashed_data deserializer" where
  "read_and_hash h de r =
     and_then (de r) (\<lambda>(x, r').
       let used = take (length (contents r) - length (contents r')) (contents r) in
       Ok (\<lparr> hd_size = length used, hd_hash = dhash256 h used, hd_data = x \<rparr>, r'))"

definition read_indexed_header :: "hasher \<Rightarrow> indexed_header deserializer" where
  "read_indexed_header h r =
     and_then (read_and_hash h read_header r) (\<lambda>(d, r). Ok (\<lparr> ih_hash = hd_hash d, ih_raw = hd_data d \<rparr>, r))"

definition read_indexed_transaction :: "hasher \<Rightarrow> indexed_transaction deserializer" where
  "read_indexed_transaction h r =
     and_then (read_and_hash h read_transaction r) (\<lambda>(d, r). Ok (\<lparr> it_hash = hd_hash d, it_raw = hd_data d \<rparr>, r))"

definition size_of_indexed_transaction :: nat where "size_of_indexed_transaction = 88"

definition read_indexed_block :: "hasher \<Rightarrow> indexed_block deserializer" where
  "read_indexed_block h r =
     and_then (read_indexed_header h r) (\<lambda>(b, r).
     and_then (read_list size_of_indexed_transaction (read_indexed_transaction h) r) (\<lambda>(txs, r).
       Ok (\<lparr> ib_header = b, ib_transactions = txs \<rparr>, r)))"

text \<open>\<open>serialized_size\<close> of a transaction is the default one, the length of what is written.\<close>

definition header_size :: "block_header \<Rightarrow> nat" where
  "header_size b = 4 + 32 + 32 + 4 + length (serialize_u32 (bh_bits b)) + 4"

definition indexed_block_size :: "indexed_block \<Rightarrow> nat" where
  "indexed_block_size b =
     header_size (ih_raw (ib_header b))
     + serialized_list_size (\<lambda>t. length (serialize_transaction 0 t)) (map it_raw (ib_transactions b))"

definition indexed_block_size_with_witness :: "indexed_block \<Rightarrow> nat" where
  "indexed_block_size_with_witness b =
     header_size (ih_raw (ib_header b))
     + serialized_list_size (\<lambda>t. length (serialize_transaction SERIALIZE_TRANSACTION_WITNESS t))
         (map it_raw (ib_transactions b))"

definition indexed_block_merkle_root :: "hasher \<Rightarrow> indexed_block \<Rightarrow> bytes option" where
  "indexed_block_merkle_root h b = merkle_root h (map it_hash (ib_transactions b))"

definition witness_merkle_root :: "hasher \<Rightarrow> indexed_block \<Rightarrow> bytes option" where
  "witness_merkle_root h b =
     merkle_root h
       (case ib_transactions b of
          [] \<Rightarrow> []
        | _ # rest \<Rightarrow> replicate 32 0 # map (\<lambda>tx. witness_hash h (it_raw tx)) rest)"

definition indexed_block_is_final :: "indexed_block \<Rightarrow> u32 \<Rightarrow> bool" where
  "indexed_block_is_final b height =
     list_all (\<lambda>tx. tx_is_final_in_block (it_raw tx) height (bh_time (ih_raw (ib_header b)))) (ib_transactions b)"

end
