(* ===== verification/Chain_Props.thy ===== *)
theory Chain_Props
  imports Chain
begin

text \<open>
  The encodings of the chain's data are codecs, hence read back and unambiguous; what the hashed
  counterparts hash; the merkle root.
\<close>

section \<open>Codecs\<close>

definition out_point_ok :: "out_point \<Rightarrow> bool" where
  "out_point_ok p \<longleftrightarrow> length (op_hash p) = 32"

interpretation out_point: exact_codec serialize_out_point read_out_point out_point_ok
proof unfold_locales
  fix p r rest
  assume "out_point_ok p" and c: "contents r = serialize_out_point p @ rest"
  then show "yields (read_out_point r) p rest"
    unfolding read_out_point_def
    by (intro hash.reads_bind [where x = "op_hash p"])
      (auto simp: serialize_out_point_def out_point_ok_def intro!: u32.reads_bind [OF TrueI])
next
  fix r p r'
  assume "read_out_point r = Ok (p, r')"
  then obtain h r1 i where h: "read_slice 32 r = Ok (h, r1)" and i: "read_u32 r1 = Ok (i, r')"
    and p: "p = \<lparr> op_hash = h, op_index = i \<rparr>"
    by (auto simp: read_out_point_def)
  show "out_point_ok p \<and> contents r = serialize_out_point p @ contents r'"
    using hash.exact [OF h] u32.exact [OF i] by (simp add: p out_point_ok_def serialize_out_point_def)
qed

text \<open>An input as the reader returns it, without a witness.\<close>

definition bare_input_ok :: "transaction_input \<Rightarrow> bool" where
  "bare_input_ok i \<longleftrightarrow>
     out_point_ok (ti_previous_output i) \<and> length (ti_script_sig i) < 2 ^ 63 \<and> ti_script_witness i = []"

interpretation tx_input: codec serialize_input read_input bare_input_ok
proof unfold_locales
  fix i r rest
  assume "bare_input_ok i" and "contents r = serialize_input i @ rest"
  then show "yields (read_input r) i rest"
    unfolding read_input_def
    by (intro out_point.reads_bind [where x = "ti_previous_output i"])
      (auto simp: serialize_input_def bare_input_ok_def
        intro!: byte_string.reads_bind [where x = "ti_script_sig i"] u32.reads_bind [OF TrueI])
qed

definition output_ok :: "transaction_output \<Rightarrow> bool" where
  "output_ok t \<longleftrightarrow> length (to_script_pubkey t) < 2 ^ 63"

interpretation tx_output: codec serialize_output read_output output_ok
proof unfold_locales
  fix t r rest
  assume "output_ok t" and "contents r = serialize_output t @ rest"
  then show "yields (read_output r) t rest"
    unfolding read_output_def
    by (intro u64.reads_bind [OF TrueI, where x = "to_value t"])
      (auto simp: serialize_output_def output_ok_def
        intro!: byte_string.reads_bind [where x = "to_script_pubkey t"])
qed

interpretation input_list: codec "append_list serialize_input" "read_list size_of_input read_input"
  "list_ok size_of_input bare_input_ok"
  by (rule tx_input.list_codec)

interpretation output_list: codec "append_list serialize_output" "read_list size_of_output read_output"
  "list_ok size_of_output output_ok"
  by (rule tx_output.list_codec)

definition witness_ok :: "bytes list \<Rightarrow> bool" where
  "witness_ok = list_ok size_of_bytes (\<lambda>bs. length bs < 2 ^ 63)"

interpretation witness: codec "append_list serialize_bytes" "read_list size_of_bytes read_bytes" witness_ok
  unfolding witness_ok_def by (rule byte_string.list_codec)

text \<open>A transaction that can be written and read back: it has inputs.\<close>

definition input_ok :: "transaction_input \<Rightarrow> bool" where
  "input_ok i \<longleftrightarrow> bare_input_ok (i\<lparr>ti_script_witness := []\<rparr>) \<and> witness_ok (ti_script_witness i)"

definition transaction_ok :: "transaction \<Rightarrow> bool" where
  "transaction_ok t \<longleftrightarrow>
     tx_inputs t \<noteq> [] \<and> list_ok size_of_input input_ok (tx_inputs t) \<and> list_ok size_of_output output_ok (tx_outputs t)"

definition without_witness :: "transaction \<Rightarrow> transaction" where
  "without_witness t = t\<lparr>tx_inputs := map (\<lambda>i. i\<lparr>ti_script_witness := []\<rparr>) (tx_inputs t)\<rparr>"

abbreviation bare_inputs :: "transaction \<Rightarrow> transaction_input list" where
  "bare_inputs t \<equiv> map (\<lambda>i. i\<lparr>ti_script_witness := []\<rparr>) (tx_inputs t)"

lemma serialize_input_bare [simp]: "serialize_input (i\<lparr>ti_script_witness := w\<rparr>) = serialize_input i"
  by (simp add: serialize_input_def)

lemma append_list_bare [simp]: "append_list serialize_input (bare_inputs t) = append_list serialize_input (tx_inputs t)"
  by (simp add: append_list_def o_def)

lemma bare_inputs_ok: "transaction_ok t \<Longrightarrow> list_ok size_of_input bare_input_ok (bare_inputs t)"
  by (auto simp: transaction_ok_def list_ok_def input_ok_def list_all_iff)

lemma read_witnesses_serialized:
  assumes "list_all input_ok is"
    and "contents r = concat (map (\<lambda>i. append_list serialize_bytes (ti_script_witness i)) is) @ rest"
  shows "yields (read_witnesses (map (\<lambda>i. i\<lparr>ti_script_witness := []\<rparr>) is) r) is rest"
  using assms
proof (induction "is" arbitrary: r)
  case (Cons i "is")
  then show ?case
    by (auto simp: input_ok_def intro!: witness.reads_bind [where x = "ti_script_witness i"] yields_bind [OF Cons.IH])
qed simp

lemma read_tx_inputs_plain:
  assumes "list_ok size_of_input bare_input_ok is" and "is \<noteq> []"
    and "contents r = append_list serialize_input is @ rest"
  shows "yields (read_tx_inputs r) (is, False) rest"
  unfolding read_tx_inputs_def
  using assms by (intro input_list.reads_bind [where x = "is" and rest = rest]) simp_all

lemma read_tx_inputs_witness:
  assumes "list_ok size_of_input bare_input_ok is"
    and "contents r = serialize_u8 WITNESS_MARKER @ serialize_u8 WITNESS_FLAG @ append_list serialize_input is @ rest"
  shows "yields (read_tx_inputs r) (is, True) rest"
proof -
  have "append_list serialize_input [] = serialize_u8 WITNESS_MARKER"
    by (simp add: append_list_def serialize_compact_integer_def WITNESS_MARKER_def)
  then have "contents r = append_list serialize_input [] @ serialize_u8 WITNESS_FLAG @ append_list serialize_input is @ rest"
    using assms(2) by simp
  moreover have "list_ok size_of_input bare_input_ok []" by (simp add: list_ok_def)
  ultimately show ?thesis
    unfolding read_tx_inputs_def
    by (intro input_list.reads_bind [where x = "[]"])
      (auto intro!: u8.reads_bind [OF TrueI, where x = WITNESS_FLAG] input_list.reads_bind [OF assms(1)])
qed

lemma read_transaction_plain:
  assumes "transaction_ok t" and "contents r = serialize_i32 (tx_version t)
      @ append_list serialize_input (tx_inputs t) @ append_list serialize_output (tx_outputs t)
      @ serialize_u32 (tx_lock_time t) @ rest"
  shows "yields (read_transaction r) (without_witness t) rest"
  unfolding read_transaction_def
  using assms bare_inputs_ok [OF assms(1)]
  by (intro i32.reads_bind [OF TrueI, where x = "tx_version t"])
    (auto simp: transaction_ok_def without_witness_def
      intro!: yields_bind [OF read_tx_inputs_plain [of "bare_inputs t"]] output_list.reads_bind [where x = "tx_outputs t"]
        u32.reads_bind [OF TrueI])

lemma read_transaction_witness:
  assumes "transaction_ok t" and "contents r = serialize_i32 (tx_version t)
      @ serialize_u8 WITNESS_MARKER @ serialize_u8 WITNESS_FLAG
      @ append_list serialize_input (tx_inputs t) @ append_list serialize_output (tx_outputs t)
      @ concat (map (\<lambda>i. append_list serialize_bytes (ti_script_witness i)) (tx_inputs t))
      @ serialize_u32 (tx_lock_time t) @ rest"
  shows "yields (read_transaction r) t rest"
  unfolding read_transaction_def
  using assms bare_inputs_ok [OF assms(1)]
  by (intro i32.reads_bind [OF TrueI, where x = "tx_version t"])
    (auto simp: transaction_ok_def list_ok_def [of size_of_input input_ok]
      intro!: yields_bind [OF read_tx_inputs_witness [of "bare_inputs t"]] output_list.reads_bind [where x = "tx_outputs t"]
        yields_bind [OF read_witnesses_serialized [of "tx_inputs t"]] u32.reads_bind [OF TrueI])

lemma without_witness_id:
  assumes "\<not> tx_has_witness t"
  shows "without_witness t = t"
proof -
  have "i\<lparr>ti_script_witness := []\<rparr> = i" if "i \<in> set (tx_inputs t)" for i
    using assms that by (cases i) (auto simp: tx_has_witness_def input_has_witness_def list_ex_iff)
  then have "bare_inputs t = tx_inputs t" by (rule map_idI)
  then show ?thesis by (simp add: without_witness_def)
qed

lemma has_witness_without_witness: "\<not> tx_has_witness (without_witness t)"
  by (simp add: tx_has_witness_def without_witness_def input_has_witness_def list_ex_iff)

lemma read_transaction_serialized:
  assumes "transaction_ok t" and "contents r = serialize_transaction flags t @ rest"
  shows "yields (read_transaction r) (if include_transaction_witness flags then t else without_witness t) rest"
proof (cases "include_transaction_witness flags \<and> tx_has_witness t")
  case True
  with assms show ?thesis by (auto simp: serialize_transaction_def intro!: read_transaction_witness)
next
  case False
  with assms have "yields (read_transaction r) (without_witness t) rest"
    by (auto simp: serialize_transaction_def intro!: read_transaction_plain)
  with False show ?thesis by (auto simp: without_witness_id)
qed

lemma include_witness_flag [simp]: "include_transaction_witness SERIALIZE_TRANSACTION_WITNESS"
  "\<not> include_transaction_witness 0"
  by (simp_all add: include_transaction_witness_def SERIALIZE_TRANSACTION_WITNESS_def)

interpretation transaction: codec "serialize_transaction SERIALIZE_TRANSACTION_WITNESS" read_transaction transaction_ok
  by unfold_locales (use read_transaction_serialized [of _ _ SERIALIZE_TRANSACTION_WITNESS] in simp)

definition header_ok :: "block_header \<Rightarrow> bool" where
  "header_ok b \<longleftrightarrow> length (bh_previous_header_hash b) = 32 \<and> length (bh_merkle_root_hash b) = 32"

interpretation header: exact_codec serialize_header read_header header_ok
proof unfold_locales
  fix b r rest
  assume ok: "header_ok b" and "contents r = serialize_header b @ rest"
  then have c: "contents r = serialize_u32 (bh_version b) @ bh_previous_header_hash b @ bh_merkle_root_hash b
      @ serialize_u32 (bh_time b) @ serialize_u32 (bh_bits b) @ serialize_u32 (bh_nonce b) @ rest"
    by (simp add: serialize_header_def)
  have len: "length (bh_previous_header_hash b) = 32" "length (bh_merkle_root_hash b) = 32"
    using ok by (simp_all add: header_ok_def)
  show "yields (read_header r) b rest"
    unfolding read_header_def
    by (rule u32.reads_bind [OF TrueI c], simp only: prod.case,
        rule hash.reads_bind [OF len(1)], assumption, simp only: prod.case,
        rule hash.reads_bind [OF len(2)], assumption, simp only: prod.case,
        (rule u32.reads_bind [OF TrueI], assumption, simp only: prod.case)+, simp)
next
  fix r b r'
  assume "read_header r = Ok (b, r')"
  then obtain v r1 p r2 m r3 t r4 n r5 where
    steps: "read_u32 r = Ok (v, r1)" "read_slice 32 r1 = Ok (p, r2)" "read_slice 32 r2 = Ok (m, r3)"
      "read_u32 r3 = Ok (t, r4)" "read_u32 r4 = Ok (n, r5)" "read_u32 r5 = Ok (bh_nonce b, r')"
    and b: "bh_version b = v" "bh_previous_header_hash b = p" "bh_merkle_root_hash b = m" "bh_time b = t" "bh_bits b = n"
    by (auto simp: read_header_def)
  show "header_ok b \<and> contents r = serialize_header b @ contents r'"
    using u32.exact [OF steps(1)] hash.exact [OF steps(2)] hash.exact [OF steps(3)] u32.exact [OF steps(4)]
      u32.exact [OF steps(5)] u32.exact [OF steps(6)]
    by (simp add: b header_ok_def serialize_header_def)
qed

definition block_ok :: "block \<Rightarrow> bool" where
  "block_ok b \<longleftrightarrow> header_ok (b_header b) \<and> list_ok size_of_transaction transaction_ok (b_transactions b)"

interpretation block: codec "serialize_block SERIALIZE_TRANSACTION_WITNESS" read_block block_ok
proof unfold_locales
  fix b r rest
  assume "block_ok b" and "contents r = serialize_block SERIALIZE_TRANSACTION_WITNESS b @ rest"
  then show "yields (read_block r) b rest"
    unfolding read_block_def
    by (intro header.reads_bind [where x = "b_header b"])
      (auto simp: serialize_block_def block_ok_def
        intro!: codec.reads_bind [OF transaction.list_codec, where x = "b_transactions b"])
qed


section \<open>Reading back and hashing\<close>

interpretation transaction: consuming read_transaction
proof -
  have ws: "consuming (read_witnesses is)" for "is"
    by (induction "is") (auto simp: fun_eq_iff intro!: consuming_bind consuming_Ok consuming_read_list byte_string.consuming_axioms)
  have ins: "consuming read_input" and outs: "consuming read_output"
    unfolding read_input_def read_output_def
    by (auto intro!: consuming_bind consuming_rules out_point.consuming_axioms byte_string.consuming_axioms)
  have "consuming read_tx_inputs"
    unfolding read_tx_inputs_def
    by (auto intro!: consuming_bind consuming_rules consuming_read_list ins)
  then show "consuming read_transaction"
    unfolding read_transaction_def
    by (auto intro!: consuming_bind consuming_rules consuming_read_list outs ws)
qed


text \<open>C9. Transactions are read back: what is written with the witness flag is the transaction itself, what
  is written without it is the transaction with its witnesses emptied, and any byte after it makes
  the reader fail with UnreadData.\<close>

theorem transaction_round_trip:
  assumes "transaction_ok t"
  shows "deserialize read_transaction (serialize_transaction flags t @ rest) =
    (if rest \<noteq> [] then Err UnreadData
     else Ok (if include_transaction_witness flags then t else without_witness t))"
proof -
  obtain r where "read_transaction (reader_new (serialize_transaction flags t @ rest)) =
      Ok (if include_transaction_witness flags then t else without_witness t, r)" "contents r = rest"
    using read_transaction_serialized [OF assms, of "reader_new (serialize_transaction flags t @ rest)" flags rest]
    by (auto simp: yields_def)
  then show ?thesis by (simp add: deserialize_def is_finished_iff)
qed

definition sample_transaction :: transaction where
  "sample_transaction =
     \<lparr> tx_version = 1,
       tx_inputs = [\<lparr> ti_previous_output = \<lparr> op_hash = replicate 32 7, op_index = 3 \<rparr>, ti_script_sig = [0x51],
         ti_sequence = 5, ti_script_witness = [[9]] \<rparr>],
       tx_outputs = [\<lparr> to_value = 50, to_script_pubkey = [] \<rparr>],
       tx_lock_time = 0 \<rparr>"

lemma sample_transaction_ok: "transaction_ok sample_transaction" "tx_has_witness sample_transaction"
  by (simp_all add: sample_transaction_def transaction_ok_def list_ok_def input_ok_def bare_input_ok_def out_point_ok_def
      witness_ok_def output_ok_def sizes_of tx_has_witness_def input_has_witness_def)

theorem transaction_round_trip_witness:
  "deserialize read_transaction (serialize_transaction SERIALIZE_TRANSACTION_WITNESS sample_transaction)
     = Ok sample_transaction"
  using transaction_round_trip [OF sample_transaction_ok(1), of SERIALIZE_TRANSACTION_WITNESS "[]"] by simp


text \<open>A block header is 80 bytes and has exactly one encoding: a byte string is read as a header
  exactly when it is that header's encoding.\<close>

theorem header_encoding_unique:
  "deserialize read_header bs = Ok b \<longleftrightarrow> header_ok b \<and> bs = serialize_header b \<and> length bs = 80"
proof -
  have "header_ok b \<Longrightarrow> length (serialize_header b) = 80"
    by (simp add: header_ok_def serialize_header_def serialize_u32_def)
  with header.deserialize_iff [of bs b] show ?thesis by auto
qed


text \<open>C38. Reading a hashed transaction hashes the bytes that were read.  So the hash that a transaction
  with a witness gets when it is read in the witness format (as in the block files that the importer
  reads) is its witness hash, whose preimage differs from that of its transaction hash.\<close>

theorem indexed_transaction_hashes_witness:
  assumes "transaction_ok t" and "tx_has_witness t"
  shows "deserialize (read_indexed_transaction h) (serialize_transaction SERIALIZE_TRANSACTION_WITNESS t)
      = Ok \<lparr> it_hash = witness_hash h t, it_raw = t \<rparr>
    \<and> indexed_transaction_from_raw h t = \<lparr> it_hash = transaction_hash h t, it_raw = t \<rparr>
    \<and> serialize_transaction SERIALIZE_TRANSACTION_WITNESS t \<noteq> serialize_transaction 0 t"
proof -
  let ?ser = "serialize_transaction SERIALIZE_TRANSACTION_WITNESS t"
  obtain r where r: "read_transaction (reader_new ?ser) = Ok (t, r)" "contents r = []"
    using transaction.reads [OF assms(1), of "reader_new ?ser" "[]"] by (auto simp: yields_def)
  then have "deserialize (read_indexed_transaction h) ?ser = Ok \<lparr> it_hash = witness_hash h t, it_raw = t \<rparr>"
    by (simp add: deserialize_def read_indexed_transaction_def read_and_hash_def is_finished_iff Let_def witness_hash_def)
  moreover have "without_witness t \<noteq> t"
    using assms(2) has_witness_without_witness [of t] by metis
  then have "?ser \<noteq> serialize_transaction 0 t"
    using read_transaction_serialized [OF assms(1), of "reader_new ?ser" 0 "[]"] r by auto
  ultimately show ?thesis by (simp add: indexed_transaction_from_raw_def)
qed

theorem indexed_transaction_hashes_witness_witness:
  "deserialize (read_indexed_transaction padding_hasher)
     (serialize_transaction SERIALIZE_TRANSACTION_WITNESS sample_transaction)
     = Ok \<lparr> it_hash = witness_hash padding_hasher sample_transaction, it_raw = sample_transaction \<rparr>
   \<and> witness_hash padding_hasher sample_transaction \<noteq> transaction_hash padding_hasher sample_transaction"
proof -
  have "serialize_i32 (tx_version sample_transaction) = [1, 0, 0, 0]"
    by (simp add: serialize_i32_def le_bytes_numeral sample_transaction_def)
  moreover obtain more where "append_list serialize_input (tx_inputs sample_transaction) = 1 # more"
    by (simp add: append_list_def sample_transaction_def serialize_compact_integer_def serialize_u8_def)
  ultimately have "witness_hash padding_hasher sample_transaction ! 4 \<noteq> transaction_hash padding_hasher sample_transaction ! 4"
    using sample_transaction_ok(2)
    by (simp add: witness_hash_def transaction_hash_def dhash256_def pad_def serialize_transaction_def
        serialize_u8_def WITNESS_MARKER_def)
  with indexed_transaction_hashes_witness [OF sample_transaction_ok, of padding_hasher] show ?thesis by auto
qed


section \<open>Amounts\<close>

lemma unat_total_spends_from:
  "unat (total_spends_from r os) = min (unat r + sum_list (map (\<lambda>t. unat (to_value t)) os)) (2 ^ 64 - 1)"
proof (induction os arbitrary: r)
  case Nil
  show ?case using unat_less [of r] by simp
next
  case (Cons t os)
  have r: "r \<le> 0xffffffffffffffff" using unat_less [of r] by (simp add: word_le_nat_alt)
  have rest: "unat (0xffffffffffffffff - r) = 2 ^ 64 - 1 - unat r"
    using unat_sub [OF r] by simp
  show ?case
  proof (cases "0xffffffffffffffff - r < to_value t")
    case True
    then have "2 ^ 64 - 1 < unat r + unat (to_value t)" using rest by (simp add: word_less_nat_alt)
    with True show ?thesis by simp
  next
    case False
    then have "unat r + unat (to_value t) < 2 ^ 64"
      using rest unat_less [of r] by (simp add: word_less_nat_alt not_less)
    then have "unat (r + to_value t) = unat r + unat (to_value t)" by (simp add: unat_word_ariths)
    with False Cons show ?thesis by (simp add: add.assoc)
  qed
qed


text \<open>The total of a transaction's outputs never wraps: it is the sum of the values, capped at the
  largest 64-bit number.\<close>

lemma total_spends_saturates:
  "unat (total_spends t) = min (sum_list (map (\<lambda>out. unat (to_value out)) (tx_outputs t))) (2 ^ 64 - 1)"
  by (simp add: total_spends_def unat_total_spends_from)


section \<open>The merkle root\<close>

text \<open>A row of the tree, in list form.\<close>

fun pairing :: "'a list \<Rightarrow> ('a \<times> 'a) list" where
  "pairing [] = []"
| "pairing [x] = [(x, x)]"
| "pairing (x # y # zs) = (x, y) # pairing zs"

lemma pairs_from_pairing:
  assumes "i \<le> length hs" and "even i"
  shows "pairs_from hs i @ (if odd (length hs) then [(hs ! (length hs - 1), hs ! (length hs - 1))] else [])
    = pairing (drop i hs)"
  using assms
proof (induction hs i rule: pairs_from.induct)
  case (1 hs i)
  show ?case
  proof (cases "i + 1 < length hs")
    case True
    then have "drop i hs = hs ! i # hs ! (i + 1) # drop (i + 2) hs"
      by (metis Cons_nth_drop_Suc Suc_eq_plus1 add_2_eq_Suc' add_lessD1)
    with True 1 show ?thesis by (simp add: pairs_from.simps [of hs i])
  next
    case False
    then consider "i = length hs" | "length hs = Suc i" using 1 by linarith
    then show ?thesis
    proof cases
      case 2
      then have "drop i hs = [hs ! i]" by (metis Cons_nth_drop_Suc drop_all lessI order_refl)
      with 2 1 False show ?thesis by (simp add: pairs_from.simps [of hs i])
    qed (use 1 in \<open>simp add: pairs_from.simps [of hs "length hs"]\<close>)
  qed
qed

lemma merkle_row_pairing: "merkle_row hs = pairing hs"
  using pairs_from_pairing [of 0 hs] by (simp add: merkle_row_def odd_iff_mod_2_eq_one)

lemma length_pairing: "length (pairing xs) = (length xs + 1) div 2"
  by (induction xs rule: pairing.induct) auto

lemma pairing_inj: "length xs = length ys \<Longrightarrow> pairing xs = pairing ys \<Longrightarrow> xs = ys"
proof (induction xs arbitrary: ys rule: pairing.induct)
  case (2 x)
  then show ?case by (cases ys) auto
next
  case (3 x y zs)
  then obtain x' y' zs' where "ys = x' # y' # zs'" by (metis length_Suc_conv)
  with 3 show ?case by simp
qed simp

lemma pairing_duplicate: "odd (length xs) \<Longrightarrow> pairing (xs @ [last xs]) = pairing xs"
  by (induction xs rule: pairing.induct) auto

lemma set_pairing: "(l, r) \<in> set (pairing xs) \<Longrightarrow> l \<in> set xs \<and> r \<in> set xs"
  by (induction xs rule: pairing.induct) auto

abbreviation next_row :: "hasher \<Rightarrow> bytes list \<Rightarrow> bytes list" where
  "next_row h xs \<equiv> map (\<lambda>(l, r). merkle_node_hash h l r) (pairing xs)"

lemma merkle_root_unfold:
  "merkle_root h xs = (if length xs = 1 then Some (xs ! 0) else merkle_root h (next_row h xs))"
  by (subst merkle_root.simps) (simp add: merkle_row_pairing)

lemma merkle_root_total: "xs \<noteq> [] \<Longrightarrow> \<exists>root. merkle_root h xs = Some root"
proof (induction "length xs" arbitrary: xs rule: less_induct)
  case less
  show ?case
  proof (cases "length xs = 1")
    case False
    with less.prems have "2 \<le> length xs" by (cases xs) (auto simp: Suc_le_eq)
    then have "length (next_row h xs) < length xs" "next_row h xs \<noteq> []"
      by (auto simp: length_pairing dest: arg_cong [of _ _ length])
    from less.hyps [OF this] False show ?thesis by (subst merkle_root_unfold) simp
  qed (subst merkle_root_unfold, simp)
qed

lemma merkle_root_Some_nonempty: "merkle_root h xs = Some root \<Longrightarrow> xs \<noteq> []"
  by (erule merkle_root.raw_induct [of "\<lambda>h xs root. xs \<noteq> []", rotated])
    (fastforce simp: merkle_row_pairing split: if_splits)

text \<open>The byte strings that are hashed on the way to the root, row by row.\<close>

abbreviation row_nodes :: "bytes list \<Rightarrow> bytes list" where
  "row_nodes xs \<equiv> map (\<lambda>(l, r). l @ r) (pairing xs)"

function merkle_nodes :: "hasher \<Rightarrow> bytes list \<Rightarrow> bytes list" where
  "merkle_nodes h xs = (if length xs \<le> 1 then [] else row_nodes xs @ merkle_nodes h (next_row h xs))"
  by pat_completeness auto
termination by (relation "measure (\<lambda>(h, xs). length xs)") (auto simp: length_pairing)

declare merkle_nodes.simps [simp del]

text \<open>Two different strings, one hashed for each list, with the same hash.\<close>

definition collide :: "hasher \<Rightarrow> bytes list \<Rightarrow> bytes list \<Rightarrow> bool" where
  "collide h as bs \<longleftrightarrow> (\<exists>a \<in> set as. \<exists>b \<in> set bs. a \<noteq> b \<and> dhash256 h a = dhash256 h b)"

lemma next_row_inj:
  assumes "length xs = length ys" and "next_row h xs = next_row h ys"
    and "\<forall>x \<in> set xs. length x = 32" and "\<forall>y \<in> set ys. length y = 32" and "\<not> collide h (row_nodes xs) (row_nodes ys)"
  shows "xs = ys"
proof (rule pairing_inj [OF assms(1)], rule nth_equalityI)
  show len: "length (pairing xs) = length (pairing ys)" using assms(1) by (simp add: length_pairing)
  fix i assume i: "i < length (pairing xs)"
  obtain l r l' r' where e: "pairing xs ! i = (l, r)" "pairing ys ! i = (l', r')" by fastforce
  then have mem: "(l, r) \<in> set (pairing xs)" "(l', r') \<in> set (pairing ys)"
    using nth_mem [OF i] nth_mem [of i "pairing ys"] i len by simp_all
  then have "length l = 32" "length l' = 32" using assms(3,4) by (auto dest: set_pairing)
  moreover have "dhash256 h (l @ r) = dhash256 h (l' @ r')"
    using arg_cong [OF assms(2), of "\<lambda>row. row ! i"] i len e by (simp add: merkle_node_hash_def)
  then have "l @ r = l' @ r'" using assms(5) mem unfolding collide_def by force
  ultimately show "pairing xs ! i = pairing ys ! i" by (simp add: e)
qed

lemma merkle_root_inj:
  assumes "length xs = length ys" and "xs \<noteq> []" and "merkle_root h xs = merkle_root h ys"
    and "\<forall>x \<in> set xs. length x = 32" and "\<forall>y \<in> set ys. length y = 32"
    and "\<not> collide h (merkle_nodes h xs) (merkle_nodes h ys)"
  shows "xs = ys"
  using assms
proof (induction "length xs" arbitrary: xs ys rule: less_induct)
  case less
  show ?case
  proof (cases "length xs = 1")
    case True
    with less.prems show ?thesis
      using merkle_root_unfold [of h xs] merkle_root_unfold [of h ys]
      by (metis One_nat_def length_0_conv length_Suc_conv nth_Cons_0 option.inject)
  next
    case False
    with less.prems have two: "2 \<le> length xs" by (cases xs) (auto simp: Suc_le_eq)
    have free: "\<not> collide h (row_nodes xs) (row_nodes ys)"
      "\<not> collide h (merkle_nodes h (next_row h xs)) (merkle_nodes h (next_row h ys))"
      using less.prems(1,6) two by (auto simp: collide_def merkle_nodes.simps [of h xs] merkle_nodes.simps [of h ys])
    have "merkle_root h (next_row h xs) = merkle_root h (next_row h ys)"
      using less.prems(1,3) False merkle_root_unfold [of h xs] merkle_root_unfold [of h ys] by simp
    moreover have "length (next_row h xs) < length xs" "next_row h xs \<noteq> []"
      using two by (auto simp: length_pairing dest: arg_cong [of _ _ length])
    moreover have "\<forall>x \<in> set (next_row h zs). length x = 32" for zs
      by (auto simp: merkle_node_hash_def)
    ultimately have "next_row h xs = next_row h ys"
      using less.hyps [of "next_row h xs" "next_row h ys"] less.prems(1) free(2) by (simp add: length_pairing)
    then show ?thesis using next_row_inj [OF less.prems(1) _ less.prems(4,5) free(1)] by blast
  qed
qed





text \<open>The duplication weakness: appending a copy of the last hash to a list of odd length greater
  than one does not change the root, so the root does not determine the number of hashes.\<close>

lemma merkle_root_duplicate:
  assumes "odd (length xs)" and "1 < length xs"
  shows "merkle_root h (xs @ [last xs]) = merkle_root h xs"
  using assms merkle_root_unfold [of h xs] merkle_root_unfold [of h "xs @ [last xs]"]
  by (cases "xs = []") (simp_all add: pairing_duplicate)

end
