(* ===== verification/Script_Props.thy ===== *)
theory Script_Props
  imports Script
begin

text \<open>
  What the script walkers compute.  A script that decodes to its end is a list of
  instructions; the loops of \<open>script/src/script.rs\<close>, which work on positions, are related to
  that list, and the builder to the decoder.
\<close>

section \<open>Decoding a whole script\<close>

function instructions_from :: "script \<Rightarrow> nat \<Rightarrow> instruction list option" where
  "instructions_from data pc =
     (if pc < length data then
        case get_instruction data pc of
          Ok i \<Rightarrow> map_option ((#) i) (instructions_from data (pc + step_of i))
        | _ \<Rightarrow> None
      else Some [])"
  by pat_completeness auto
termination
  by (relation "measure (\<lambda>(data, pc). length data - pc)") (auto dest: get_instruction_bounds)

declare instructions_from.simps [simp del]

definition instructions :: "script \<Rightarrow> instruction list option" where
  "instructions data = instructions_from data 0"

lemma instructions_from_end [simp]: "length data \<le> pc \<Longrightarrow> instructions_from data pc = Some []"
  by (simp add: instructions_from.simps)

lemma instructions_from_step:
  "get_instruction data pc = Ok i \<Longrightarrow>
     instructions_from data pc = map_option ((#) i) (instructions_from data (pc + step_of i))"
  using get_instruction_bounds(3) [of data pc i] by (simp add: instructions_from.simps)

lemma instructions_from_stuck:
  "pc < length data \<Longrightarrow> \<not> (\<exists>i. get_instruction data pc = Ok i) \<Longrightarrow> instructions_from data pc = None"
  by (simp add: instructions_from.simps split: outcome.splits)

text \<open>The rule for every loop over a script: at the end, at an error, one instruction on.\<close>

lemma script_walk_induct [case_names end_of error instruction]:
  assumes "\<And>pc. length data \<le> pc \<Longrightarrow> P pc"
    and "\<And>pc. pc < length data \<Longrightarrow> \<not> (\<exists>i. get_instruction data pc = Ok i) \<Longrightarrow> P pc"
    and "\<And>pc i. get_instruction data pc = Ok i \<Longrightarrow> P (pc + step_of i) \<Longrightarrow> P pc"
  shows "P (pc :: nat)"
proof (induction "length data - pc" arbitrary: pc rule: less_induct)
  case less
  show ?case
  proof (cases "pc < length data \<and> (\<exists>i. get_instruction data pc = Ok i)")
    case True
    then obtain i where i: "get_instruction data pc = Ok i" by blast
    have "length data - (pc + step_of i) < length data - pc"
      using get_instruction_bounds [OF i] by linarith
    then show ?thesis using assms(3) [OF i] less by blast
  next
    case False
    then show ?thesis by (cases "pc < length data") (simp_all add: assms(1,2))
  qed
qed

lemma instructions_from_drop:
  "n \<le> length data \<Longrightarrow> instructions_from (drop n data) pc = instructions_from data (n + pc)"
proof (induction pc rule: script_walk_induct [where data = "drop n data"])
  case (end_of pc)
  then show ?case by simp
next
  case (error pc)
  then have "instructions_from data (n + pc) = None"
    by (intro instructions_from_stuck) (auto simp: get_instruction_drop)
  with error show ?case by (simp add: instructions_from_stuck)
next
  case (instruction pc i)
  then have "get_instruction data (n + pc) = Ok i" by (simp add: get_instruction_drop)
  with instruction show ?case by (simp add: instructions_from_step add.assoc)
qed

lemma instructions_drop:
  "n \<le> length data \<Longrightarrow> instructions (drop n data) = instructions_from data n"
  by (simp add: instructions_def instructions_from_drop)

text \<open>A prefix that decodes keeps its instructions when bytes are added after it.\<close>

lemma instructions_from_append:
  assumes "instructions_from a pc = Some xs" and "pc \<le> length a"
  shows "instructions_from (a @ b) pc = map_option ((@) xs) (instructions b)"
  using assms
proof (induction pc arbitrary: xs rule: script_walk_induct [where data = a])
  case (end_of pc)
  then have "pc = length a" and "xs = []" by simp_all
  then show ?case using instructions_drop [of "length a" "a @ b"]
    by (simp add: option.map_ident)
next
  case (error pc)
  then show ?case by (simp add: instructions_from_stuck)
next
  case (instruction pc i)
  from instruction.prems instruction.hyps obtain ys where
    ys: "instructions_from a (pc + step_of i) = Some ys" "xs = i # ys"
    by (auto simp: instructions_from_step)
  have "instructions_from (a @ b) pc = map_option ((#) i) (instructions_from (a @ b) (pc + step_of i))"
    by (rule instructions_from_step) (rule get_instruction_append [OF instruction.hyps])
  also have "\<dots> = map_option ((#) i) (map_option ((@) ys) (instructions b))"
    using get_instruction_bounds [OF instruction.hyps] instruction.IH [OF ys(1)] by simp
  finally show ?case by (simp add: ys(2) option.map_comp comp_def)
qed

lemma instructions_append:
  "instructions a = Some xs \<Longrightarrow> instructions (a @ b) = map_option ((@) xs) (instructions b)"
  unfolding instructions_def [of a] instructions_def [of "a @ b"]
  by (rule instructions_from_append) simp_all

text \<open>An instruction decodes from its own \<open>step_of\<close> bytes.\<close>

lemma script_take_take:
  "script_take data offset len = Ok d \<Longrightarrow> offset + len \<le> n \<Longrightarrow> script_take (take n data) offset len = Ok d"
  by (auto simp: drop_take min_def)

lemma get_instruction_own_bytes:
  assumes "get_instruction data pc = Ok i"
  shows "get_instruction (take (step_of i) (drop pc data)) 0 = Ok i"
proof -
  let ?d = "drop pc data" and ?n = "step_of i"
  have d: "get_instruction ?d 0 = Ok i"
    using assms get_instruction_bounds(3) [OF assms] by (simp add: get_instruction_drop)
  then obtain op where op: "get_opcode ?d 0 = Ok op" by (auto simp: get_instruction_def)
  have op': "get_opcode (take ?n ?d) 0 = Ok op"
    using op get_instruction_bounds(1) [OF assms] by (auto simp: get_opcode_Ok)
  let ?pushdata = "op = OP_PUSHDATA1 \<or> op = OP_PUSHDATA2 \<or> op = OP_PUSHDATA4"
  let ?len = "if op = OP_PUSHDATA1 then 1 else if op = OP_PUSHDATA2 then 2 else 4 :: nat"
  consider (pushdata) ?pushdata | (bytes) "\<not> ?pushdata" "op \<le> OP_PUSHBYTES_75"
    | (other) "\<not> ?pushdata" "\<not> op \<le> OP_PUSHBYTES_75" by blast
  then show ?thesis
  proof cases
    case pushdata
    with d obtain slice n b where
      t: "script_take ?d (0 + 1) ?len = Ok slice" "read_usize slice ?len = Ok n"
        "script_take ?d (0 + 1 + ?len) n = Ok b" and i: "i = \<lparr> opcode_of = op, step_of = ?len + n + 1, data_of = Some b \<rparr>"
      unfolding get_instruction_def op Let_def
      by (simp only: if_True and_then.simps and_then_eq_Ok outcome.inject) blast
    have "script_take (take ?n ?d) (0 + 1) ?len = Ok slice"
      and "script_take (take ?n ?d) (0 + 1 + ?len) n = Ok b"
      by (rule script_take_take [OF t(1)], simp add: i) (rule script_take_take [OF t(3)], simp add: i)
    then show ?thesis
      unfolding get_instruction_def op' Let_def using pushdata t(2)
      by (simp only: if_True and_then.simps i)
  next
    case bytes
    with d obtain b where t: "script_take ?d (0 + 1) (unat (discriminant op)) = Ok b"
      and i: "i = \<lparr> opcode_of = op, step_of = unat (discriminant op) + 1, data_of = Some b \<rparr>"
      unfolding get_instruction_def op
      by (simp only: if_True if_False and_then.simps and_then_eq_Ok outcome.inject) blast
    have "script_take (take ?n ?d) (0 + 1) (unat (discriminant op)) = Ok b"
      using t by (rule script_take_take) (simp add: i)
    then show ?thesis
      unfolding get_instruction_def op' using bytes by (simp only: if_True if_False and_then.simps i)
  next
    case other
    with d show ?thesis
      unfolding get_instruction_def op op' by (simp only: if_False and_then.simps)
  qed
qed

lemma instructions_single:
  assumes "get_instruction data pc = Ok i"
  shows "instructions (take (step_of i) (drop pc data)) = Some [i]"
proof -
  have "length (take (step_of i) (drop pc data)) = step_of i"
    using get_instruction_bounds [OF assms] by simp
  then show ?thesis
    using instructions_from_step [OF get_instruction_own_bytes [OF assms]]
    by (simp add: instructions_def)
qed


section \<open>Push-only scripts and separators\<close>

lemma is_push_only_from_eq:
  "is_push_only_from data pc \<longleftrightarrow>
     (\<exists>is. instructions_from data pc = Some is \<and> list_all (\<lambda>i. opcode_of i \<le> OP_16) is)"
proof (induction pc rule: script_walk_induct [where data = data])
  case (end_of pc)
  then show ?case by (simp add: is_push_only_from.simps)
next
  case (error pc)
  then show ?case
    by (simp add: is_push_only_from.simps instructions_from_stuck split: outcome.splits)
next
  case (instruction pc i)
  then show ?case
    using get_instruction_bounds(3) [OF instruction.hyps]
    by (auto simp: is_push_only_from.simps [of data pc] instructions_from_step not_less)
qed

lemma without_separators_from_eq:
  assumes "instructions_from data pc = Some is" and "instructions result = Some js"
  shows "instructions (without_separators_from data pc result)
    = Some (js @ filter (\<lambda>i. opcode_of i \<noteq> OP_CODESEPARATOR) is)"
  using assms
proof (induction pc arbitrary: "is" js result rule: script_walk_induct [where data = data])
  case (end_of pc)
  then show ?case by (simp add: without_separators_from.simps)
next
  case (error pc)
  then show ?case by (simp add: instructions_from_stuck)
next
  case (instruction pc i)
  let ?chunk = "take (step_of i) (drop pc data)"
  from instruction.prems(1) instruction.hyps obtain ks where
    ks: "instructions_from data (pc + step_of i) = Some ks" "is = i # ks"
    by (auto simp: instructions_from_step)
  have "instructions (result @ ?chunk) = Some (js @ [i])"
    using instructions_append [OF instruction.prems(2)] instructions_single [OF instruction.hyps]
    by simp
  with instruction.IH [OF ks(1)] instruction.prems(2) show ?case
    using get_instruction_bounds(3) [OF instruction.hyps] instruction.hyps
    by (simp add: without_separators_from.simps [of data pc] ks(2))
qed


section \<open>Counting signature operations\<close>

lemma sigops_of_Ok:
  "\<exists>n m. sigops_of cds True l op = Ok n \<and> sigops_of cds False l op = Ok m \<and> n \<le> m \<and> m \<le> 20"
proof (cases "is_multisig_opcode op \<and> is_within_op_n l")
  case True
  then obtain d where d: "decode_op_n l = (Ok d :: u8 sres)" by (simp add: decode_op_n_def)
  with True decode_op_n_range [OF d] show ?thesis
    by (simp add: sigops_of_def script_limits)
next
  case False
  then show ?thesis by (auto simp: sigops_of_def script_limits)
qed

lemma sigops_count_from_bounds:
  "n \<le> m \<Longrightarrow> \<exists>a b. sigops_count_from cds True data pc l n = Ok a \<and>
     sigops_count_from cds False data pc l m = Ok b \<and> a \<le> b \<and> b \<le> m + 20 * (length data - pc)"
proof (induction pc arbitrary: l n m rule: script_walk_induct [where data = data])
  case (end_of pc)
  then show ?case by (simp add: sigops_count_from.simps)
next
  case (error pc)
  then show ?case by (simp add: sigops_count_from.simps split: outcome.splits)
next
  case (instruction pc i)
  obtain x y where xy: "sigops_of cds True l (opcode_of i) = Ok x"
      "sigops_of cds False l (opcode_of i) = Ok y" "x \<le> y" "y \<le> 20"
    using sigops_of_Ok by blast
  with instruction.prems have "n + x \<le> m + y" by simp
  from instruction.IH [OF this, of "opcode_of i"] obtain a b where
    ab: "sigops_count_from cds True data (pc + step_of i) (opcode_of i) (n + x) = Ok a"
      "sigops_count_from cds False data (pc + step_of i) (opcode_of i) (m + y) = Ok b" "a \<le> b"
      and le: "b \<le> m + y + 20 * (length data - (pc + step_of i))" by blast
  have "y + 20 * (length data - (pc + step_of i)) \<le> 20 * (length data - pc)"
    using get_instruction_bounds [OF instruction.hyps] xy(4) by arith
  with le have "b \<le> m + 20 * (length data - pc)" by linarith
  moreover have "sigops_count_from cds True data pc l n = Ok a"
    and "sigops_count_from cds False data pc l m = Ok b"
    using get_instruction_bounds(3) [OF instruction.hyps] instruction.hyps xy ab
    by (simp_all add: sigops_count_from.simps [of _ _ data pc])
  ultimately show ?case using ab(3) by blast
qed

lemma sigops_count_total: "\<exists>n. sigops_count data cds serialized = Ok n \<and> n \<le> 20 * length data"
proof -
  obtain a b where "sigops_count_from cds True data 0 OP_0 0 = Ok a"
      "sigops_count_from cds False data 0 OP_0 0 = Ok b" "a \<le> b" "b \<le> 0 + 20 * (length data - 0)"
    using sigops_count_from_bounds [of 0 0 cds data 0 OP_0] by blast
  then show ?thesis by (cases serialized) (auto simp: sigops_count_def)
qed

lemma iter_last_eq:
  "instructions_from data pc = Some is \<Longrightarrow>
     iter_last data pc item = Some (if is = [] then item else Some (Ok (last is)))"
proof (induction pc arbitrary: "is" item rule: script_walk_induct [where data = data])
  case (end_of pc)
  then show ?case by (auto simp: iter_last.simps)
next
  case (error pc)
  then show ?case by (simp add: instructions_from_stuck)
next
  case (instruction pc i)
  from instruction.prems instruction.hyps obtain ks where
    ks: "instructions_from data (pc + step_of i) = Some ks" "is = i # ks"
    by (auto simp: instructions_from_step)
  then show ?case
    using get_instruction_bounds(3) [OF instruction.hyps] instruction.hyps instruction.IH [OF ks(1)]
    by (simp add: iter_last.simps [of data pc])
qed

lemma pay_to_script_hash_sigops_eq:
  "pay_to_script_hash_sigops self cds prev_out = Some
     (if is_pay_to_script_hash prev_out \<and> self \<noteq> [] \<and> is_push_only self
      then (case data_of (last (the (instructions self))) of
              Some redeem \<Rightarrow> sigops_count redeem cds True
            | None \<Rightarrow> Panic)
      else Ok 0)"
proof (cases "self \<noteq> [] \<and> is_push_only self")
  case True
  then obtain is' where is': "instructions_from self 0 = Some is'"
    by (auto simp: is_push_only_def is_push_only_from_eq)
  moreover have "is' \<noteq> []"
    using True is' by (auto simp: instructions_from.simps split: outcome.splits)
  ultimately show ?thesis
    using True by (simp add: pay_to_script_hash_sigops_def iter_last_eq instructions_def)
next
  case False
  then show ?thesis by (auto simp: pay_to_script_hash_sigops_def)
qed


section \<open>Multisignature scripts and destinations\<close>

lemma push_key_data:
  assumes "get_instruction data pc = Ok i"
    and "opcode_of i = OP_PUSHBYTES_33 \<or> opcode_of i = OP_PUSHBYTES_65"
  shows "\<exists>d. data_of i = Some d \<and> (length d = 33 \<or> length d = 65) \<and> step_of i = length d + 1"
  using assms by (auto simp: get_instruction_def Let_def split: if_splits)

text \<open>Every key takes at least 34 bytes, so a script of less than \<open>34 * 256\<close> bytes cannot overflow the counter.\<close>

lemma multisig_keys_from_not_Panic:
  assumes "34 * unat keys < pc" and "length data < 34 * 256"
  shows "multisig_keys_from data pc keys \<noteq> Panic"
  using assms(1)
proof (induction pc arbitrary: keys rule: script_walk_induct [where data = data])
  case (end_of pc)
  then show ?case by (simp add: multisig_keys_from.simps less_diff_conv)
next
  case (error pc)
  then show ?case by (simp add: multisig_keys_from.simps split: outcome.splits)
next
  case (instruction pc i)
  show ?case
  proof (cases "opcode_of i = OP_PUSHBYTES_33 \<or> opcode_of i = OP_PUSHBYTES_65")
    case True
    then obtain d :: bytes where d: "length d = 33 \<or> length d = 65" "step_of i = length d + 1"
      using push_key_data [OF instruction.hyps] by blast
    have room: "pc + step_of i \<le> length data" using get_instruction_bounds [OF instruction.hyps] by simp
    have "unat keys < 255" using instruction.prems room d assms(2) by auto
    then have keys: "keys \<noteq> 0xff" "unat (keys + 1) = unat keys + 1"
      by (auto simp: unat_word_ariths)
    have "34 * unat (keys + 1) < pc + step_of i" using instruction.prems d keys by auto
    from instruction.IH [OF this] True instruction.hyps keys(1) show ?thesis
      by (simp add: multisig_keys_from.simps [of data pc])
  next
    case False
    with instruction.hyps show ?thesis by (simp add: multisig_keys_from.simps [of data pc])
  qed
qed

lemma multisig_destinations_from_Ok:
  assumes "multisig_keys_from data pc keys = Ok n"
  shows "\<exists>as. multisig_destinations_from h data pc acc = Ok as"
  using assms
proof (induction pc arbitrary: keys acc rule: script_walk_induct [where data = data])
  case (end_of pc)
  then show ?case by (simp add: multisig_destinations_from.simps less_diff_conv)
next
  case (error pc)
  then show ?case
    by (auto simp: multisig_keys_from.simps [of data pc] multisig_destinations_from.simps [of h data pc]
        split: outcome.splits if_splits)
next
  case (instruction pc i)
  show ?case
  proof (cases "pc < length data - 2")
    case True
    with instruction.prems instruction.hyps have
      op: "opcode_of i = OP_PUSHBYTES_33 \<or> opcode_of i = OP_PUSHBYTES_65"
      and next_keys: "multisig_keys_from data (pc + step_of i) (keys + 1) = Ok n"
      by (auto simp: multisig_keys_from.simps [of data pc] split: if_splits)
    obtain d where "data_of i = Some d" "length d = 33 \<or> length d = 65"
      using push_key_data [OF instruction.hyps op] by blast
    with True instruction.hyps instruction.IH [OF next_keys] show ?thesis
      by (auto simp: multisig_destinations_from.simps [of h data pc] public_from_slice_def)
  next
    case False
    then show ?thesis by (simp add: multisig_destinations_from.simps)
  qed
qed

lemma is_multisig_script_keys:
  "is_multisig_script data = Ok True \<Longrightarrow> \<exists>n. multisig_keys_from data 1 0 = Ok n"
  by (auto simp: is_multisig_script_def split: if_splits option.splits outcome.splits)



section \<open>The builder and the decoder\<close>

lemma word_of_nat_mod_u8 [simp]: "(word_of_nat (n mod 256) :: u8) = word_of_nat n"
  by (simp add: word_of_nat_eq_iff take_bit_eq_mod)

lemma le_bytes_unfold: "0 < k \<Longrightarrow> le_bytes k v = word_of_nat v # le_bytes (k - 1) (v div 256)"
  by (cases k) simp_all

lemma get_instruction_push_bytes:
  assumes "length d \<le> 75"
  shows "get_instruction (word_of_nat (length d) # d @ rest) 0
    = Ok \<lparr> opcode_of = Opcode (word_of_nat (length d)), step_of = length d + 1, data_of = Some d \<rparr>"
proof -
  have u: "unat (word_of_nat (length d) :: u8) = length d"
    using assms by (simp add: unat_word_of_nat_u8)
  then have le: "(word_of_nat (length d) :: u8) \<le> 0x4b" and ne: "(word_of_nat (length d) :: u8) \<notin> {0x4c, 0x4d, 0x4e}"
    using assms by (auto simp: word_le_nat_alt)
  then have "(word_of_nat (length d) :: u8) \<le> 0xbb" by (simp add: word_le_nat_alt)
  then have "get_opcode (word_of_nat (length d) # d @ rest) 0 = Ok (Opcode (word_of_nat (length d)))"
    by (simp add: get_opcode_Ok from_u8_def)
  with u le ne show ?thesis
    by (simp add: get_instruction_def script_take_def)
qed

lemma get_instruction_pushdata:
  assumes "(op, len) \<in> {(OP_PUSHDATA1, 1), (OP_PUSHDATA2, 2), (OP_PUSHDATA4, 4)}"
    and "length lb = len" and "le_nat lb = length d"
  shows "get_instruction (discriminant op # lb @ d @ rest) 0
    = Ok \<lparr> opcode_of = op, step_of = len + length d + 1, data_of = Some d \<rparr>"
proof -
  have op: "get_opcode (discriminant op # lb @ d @ rest) 0 = Ok op"
    using assms(1) by (auto simp: get_opcode_Ok from_u8_def)
  have "script_take (discriminant op # lb @ d @ rest) (0 + 1) len = Ok lb"
    and "script_take (discriminant op # lb @ d @ rest) (0 + 1 + len) (length d) = Ok d"
    using assms(2) by simp_all
  moreover have "read_usize lb len = Ok (length d)"
    using assms(2,3) by (simp add: read_usize_eq)
  ultimately show ?thesis
    using assms(1) unfolding get_instruction_def op by auto
qed

lemma push_data_decodes:
  assumes "push_data b d = Ok s"
  shows "\<exists>op. get_instruction (s @ rest) (length b)
    = Ok \<lparr> opcode_of = op, step_of = length s - length b, data_of = Some d \<rparr>"
proof -
  have drop: "get_instruction ((b @ x) @ rest) (length b) = get_instruction (x @ rest) 0" for x
    using get_instruction_drop [of "length b" "(b @ x) @ rest" 0] by simp
  let ?n = "length d"
  consider "?n < 76" | "76 \<le> ?n" "?n < 256" | "256 \<le> ?n" "?n < 65536"
    | "65536 \<le> ?n" "?n < 4294967296" | "4294967296 \<le> ?n" by linarith
  then show ?thesis
  proof cases
    case 1
    then have s: "s = b @ word_of_nat ?n # d" using assms by (simp add: push_data_def Let_def)
    with 1 show ?thesis using drop [of "word_of_nat ?n # d"] get_instruction_push_bytes [of d rest] by simp
  next
    case 2
    then have s: "s = b @ discriminant OP_PUSHDATA1 # [word_of_nat ?n] @ d" using assms by (simp add: push_data_def Let_def)
    have "le_nat [word_of_nat ?n] = ?n" using 2 by (simp add: unat_word_of_nat_u8)
    then show ?thesis using drop [of "discriminant OP_PUSHDATA1 # [word_of_nat ?n] @ d"]
      get_instruction_pushdata [of OP_PUSHDATA1 1 "[word_of_nat ?n]" d rest] by (simp add: s)
  next
    case 3
    let ?lb = "[word_of_nat ?n, word_of_nat (drop_bit 8 ?n)] :: bytes"
    have s: "s = b @ discriminant OP_PUSHDATA2 # ?lb @ d" using 3 assms by (simp add: push_data_def Let_def)
    have "?lb = le_bytes 2 ?n" by (simp add: le_bytes_unfold drop_bit_eq_div)
    then have "le_nat ?lb = ?n" using 3 by (simp only: le_nat_le_bytes) simp
    then show ?thesis using drop [of "discriminant OP_PUSHDATA2 # ?lb @ d"]
      get_instruction_pushdata [of OP_PUSHDATA2 2 ?lb d rest] by (simp add: s)
  next
    case 4
    let ?lb = "[word_of_nat ?n, word_of_nat (drop_bit 8 ?n), word_of_nat (drop_bit 16 ?n),
      word_of_nat (drop_bit 24 ?n)] :: bytes"
    have s: "s = b @ discriminant OP_PUSHDATA4 # ?lb @ d" using 4 assms by (simp add: push_data_def Let_def)
    have "?lb = le_bytes 4 ?n" by (simp add: le_bytes_unfold drop_bit_eq_div flip: div_mult2_eq)
    then have "le_nat ?lb = ?n" using 4 by (simp only: le_nat_le_bytes) simp
    then show ?thesis using drop [of "discriminant OP_PUSHDATA4 # ?lb @ d"]
      get_instruction_pushdata [of OP_PUSHDATA4 4 ?lb d rest] by (simp add: s)
  next
    case 5
    then show ?thesis using assms by (simp add: push_data_def Let_def)
  qed
qed



section \<open>Deleting a signature\<close>

lemma find_and_delete_from_none:
  assumes "\<And>k. current \<le> k \<Longrightarrow> k < length self - length data \<Longrightarrow> take (length data) (drop k self) \<noteq> data"
  shows "find_and_delete_from self data current result = result @ drop current self"
  using assms
proof (induction self data current result rule: find_and_delete_from.induct)
  case (1 self data current result)
  show ?case
  proof (cases "data \<noteq> [] \<and> current < length self - length data")
    case True
    then have "take (length data) (drop current self) \<noteq> data" using 1(3) by simp
    with True have "find_and_delete_from self data current result
        = find_and_delete_from self data (current + 1) (result @ [self ! current])"
      by (simp add: find_and_delete_from.simps [of self data current])
    also have "\<dots> = (result @ [self ! current]) @ drop (current + 1) self"
      using True 1(3) \<open>take _ _ \<noteq> _\<close> by (intro "1.IH"(1)) simp_all
    also have "\<dots> = result @ drop current self"
      using True Cons_nth_drop_Suc [of current self] by (simp add: less_diff_conv)
    finally show ?thesis .
  next
    case False
    then show ?thesis by (subst find_and_delete_from.simps) auto
  qed
qed

text \<open>Up to the first occurrence the loop copies.\<close>

lemma find_and_delete_from_first:
  assumes "\<And>k. current \<le> k \<Longrightarrow> k < n \<Longrightarrow> take (length data) (drop k self) \<noteq> data"
    and "current \<le> n" and "n < length self - length data" and "data \<noteq> []"
  shows "find_and_delete_from self data current result
    = find_and_delete_from self data n (result @ take (n - current) (drop current self))"
  using assms
proof (induction self data current result rule: find_and_delete_from.induct)
  case (1 self data current result)
  show ?case
  proof (cases "current = n")
    case False
    then have "take (length data) (drop current self) \<noteq> data" using 1(3,4) by simp
    with False have "find_and_delete_from self data current result
        = find_and_delete_from self data (current + 1) (result @ [self ! current])"
      using 1(4-6) by (simp add: find_and_delete_from.simps [of self data current])
    also have "\<dots> = find_and_delete_from self data n
        ((result @ [self ! current]) @ take (n - (current + 1)) (drop (current + 1) self))"
      using False 1(3-6) \<open>take _ _ \<noteq> _\<close> by (intro "1.IH"(1)) simp_all
    also have "(result @ [self ! current]) @ take (n - (current + 1)) (drop (current + 1) self)
        = result @ take (n - current) (drop current self)"
      using False 1(4,5) by (subst (2) Cons_nth_drop_Suc [symmetric]) (auto simp: take_Cons')
    finally show ?thesis .
  qed simp
qed


section \<open>Properties\<close>

text \<open>
  \<open>is_push_only\<close> accepts a script exactly when it decodes to its end and every
  instruction is a push (an opcode up to \<open>OP_16\<close>).
\<close>

theorem is_push_only_iff:
  "is_push_only s \<longleftrightarrow>
     (\<exists>is. instructions s = Some is \<and> list_all (\<lambda>i. opcode_of i \<le> OP_16) is)"
  by (simp add: is_push_only_def instructions_def is_push_only_from_eq)

text \<open>
  Removing the code separators of a script that decodes leaves the script of the
  remaining instructions: bytes that merely look like \<open>OP_CODESEPARATOR\<close> inside pushed
  data stay, and nothing is merged or split.
\<close>

theorem without_separators_filters:
  assumes "instructions s = Some is"
  shows "instructions (without_separators s)
    = Some (filter (\<lambda>i. opcode_of i \<noteq> OP_CODESEPARATOR) is)"
proof -
  have "instructions [] = Some []" by (simp add: instructions_def)
  from without_separators_from_eq [OF assms [unfolded instructions_def] this]
  show ?thesis by (simp add: without_separators_def)
qed

theorem without_separators_filters_witness:
  "instructions (without_separators [0xab, 0x01, 0xab, 0x51])
     = Some [\<lparr> opcode_of = OP_PUSHBYTES_1, step_of = 2, data_of = Some [0xab] \<rparr>,
             \<lparr> opcode_of = OP_1, step_of = 1, data_of = None \<rparr>]"
proof -
  have "instructions [0xab, 0x01, 0xab, 0x51]
     = Some [\<lparr> opcode_of = OP_CODESEPARATOR, step_of = 1, data_of = None \<rparr>,
             \<lparr> opcode_of = OP_PUSHBYTES_1, step_of = 2, data_of = Some [0xab] \<rparr>,
             \<lparr> opcode_of = OP_1, step_of = 1, data_of = None \<rparr>]"
    by code_simp
  from without_separators_filters [OF this] show ?thesis by simp
qed

text \<open>
  Counting signature operations always returns, never panics, counts at most twenty per
  script byte, and the accurate count (for a serialized script) never exceeds the
  legacy one.
\<close>

theorem sigops_count_bounds:
  "\<exists>a b. sigops_count s cds True = Ok a \<and> sigops_count s cds False = Ok b \<and>
     a \<le> b \<and> b \<le> MAX_PUBKEYS_PER_MULTISIG * length s"
  using sigops_count_from_bounds [of 0 0 cds s 0 OP_0] by (simp add: sigops_count_def script_limits)

text \<open>
  C39. Counting the signature operations of a pay-to-script-hash spend always returns, but
  its last \<open>expect\<close> is wrong: it panics exactly when the spent output is P2SH and the input
  script is push-only and ends in an instruction without data, such as \<open>OP_1\<close>, since
  push-only scripts may contain \<open>OP_1NEGATE\<close>, \<open>OP_RESERVED\<close> and \<open>OP_1\<close> to \<open>OP_16\<close>.
\<close>

theorem p2sh_sigops_panics:
  "(\<exists>r. pay_to_script_hash_sigops s cds prev_out = Some r) \<and>
   (pay_to_script_hash_sigops s cds prev_out = Some Panic \<longleftrightarrow>
      is_pay_to_script_hash prev_out \<and> s \<noteq> [] \<and> is_push_only s \<and>
      data_of (last (the (instructions s))) = None) \<and>
   pay_to_script_hash_sigops [discriminant OP_1] cds
     ([discriminant OP_HASH160, discriminant OP_PUSHBYTES_20] @ replicate 20 0 @ [discriminant OP_EQUAL])
     = Some Panic"
proof (intro conjI)
  have "sigops_count r cds True \<noteq> Panic" for r using sigops_count_total [of r cds True] by auto
  then show "pay_to_script_hash_sigops s cds prev_out = Some Panic \<longleftrightarrow>
      is_pay_to_script_hash prev_out \<and> s \<noteq> [] \<and> is_push_only s \<and>
      data_of (last (the (instructions s))) = None"
    by (auto simp: pay_to_script_hash_sigops_eq split: option.splits)
  have "is_pay_to_script_hash
      ([discriminant OP_HASH160, discriminant OP_PUSHBYTES_20] @ replicate 20 0 @ [discriminant OP_EQUAL])"
    by (simp add: is_pay_to_script_hash_def nth_append)
  moreover have "is_push_only [0x51]" and "data_of (last (the (instructions [0x51]))) = None"
    by code_simp+
  ultimately show "pay_to_script_hash_sigops [discriminant OP_1] cds
     ([discriminant OP_HASH160, discriminant OP_PUSHBYTES_20] @ replicate 20 0 @ [discriminant OP_EQUAL])
     = Some Panic"
    by (simp add: pay_to_script_hash_sigops_eq)
qed (simp add: pay_to_script_hash_sigops_eq)

text \<open>
  What the builder pushes the decoder reads back: after \<open>push_data\<close>, the instruction at
  the old end of the script carries exactly the pushed bytes and ends at the new end,
  whatever follows; and \<open>push_data\<close> refuses only data of \<open>2^32\<close> bytes or more.
\<close>

theorem push_data_round_trip:
  "if length d < 2 ^ 32
   then \<exists>s op. push_data b d = Ok s \<and> get_instruction (s @ rest) (length b)
     = Ok \<lparr> opcode_of = op, step_of = length s - length b, data_of = Some d \<rparr>
   else push_data b d = Panic"
proof (cases "length d < 2 ^ 32")
  case True
  then have "\<exists>s. push_data b d = Ok s" by (simp add: push_data_def Let_def)
  then obtain s where "push_data b d = Ok s" ..
  with True push_data_decodes [OF this, of rest] show ?thesis by auto
qed (simp add: push_data_def Let_def)

lemma build_p2pkh_eq: "length a = 20 \<Longrightarrow> build_p2pkh a = Ok ([0x76, 0xa9, 0x14] @ a @ [0x88, 0xac])"
  by (simp add: build_p2pkh_def push_bytes_def push_opcode_def from_u8_def Let_def)

lemma build_p2sh_eq: "length a = 20 \<Longrightarrow> build_p2sh a = Ok ([0xa9, 0x14] @ a @ [0x87])"
  by (simp add: build_p2sh_def push_bytes_def push_opcode_def from_u8_def Let_def)

lemma p2pkh_split:
  "length s = 25 \<Longrightarrow> s = [s ! 0, s ! 1, s ! 2] @ take 20 (drop 3 s) @ [s ! 23, s ! 24]"
  by (intro nth_equalityI)
    (auto simp: nth_append nth_Cons' not_less, (rule arg_cong [where f = "(!) s"], arith)+)

lemma p2sh_split:
  "length s = 23 \<Longrightarrow> s = [s ! 0, s ! 1] @ take 20 (drop 2 s) @ [s ! 22]"
  by (intro nth_equalityI)
    (auto simp: nth_append nth_Cons' not_less, (rule arg_cong [where f = "(!) s"], arith)+)

lemma p2pkh_iff:
  "is_pay_to_public_key_hash s \<longleftrightarrow> (\<exists>a. length a = 20 \<and> s = [0x76, 0xa9, 0x14] @ a @ [0x88, 0xac])"
proof
  assume p: "is_pay_to_public_key_hash s"
  then have "length s = 25" by (simp add: is_pay_to_public_key_hash_def)
  with p p2pkh_split [of s] have "s = [0x76, 0xa9, 0x14] @ take 20 (drop 3 s) @ [0x88, 0xac]"
    by (simp add: is_pay_to_public_key_hash_def)
  moreover have "length (take 20 (drop 3 s)) = 20" using \<open>length s = 25\<close> by simp
  ultimately show "\<exists>a. length a = 20 \<and> s = [0x76, 0xa9, 0x14] @ a @ [0x88, 0xac]" by blast
qed (auto simp: is_pay_to_public_key_hash_def nth_append)

lemma p2sh_iff:
  "is_pay_to_script_hash s \<longleftrightarrow> (\<exists>a. length a = 20 \<and> s = [0xa9, 0x14] @ a @ [0x87])"
proof
  assume p: "is_pay_to_script_hash s"
  then have "length s = 23" by (simp add: is_pay_to_script_hash_def)
  with p p2sh_split [of s] have "s = [0xa9, 0x14] @ take 20 (drop 2 s) @ [0x87]"
    by (simp add: is_pay_to_script_hash_def)
  moreover have "length (take 20 (drop 2 s)) = 20" using \<open>length s = 23\<close> by simp
  ultimately show "\<exists>a. length a = 20 \<and> s = [0xa9, 0x14] @ a @ [0x87]" by blast
qed (auto simp: is_pay_to_script_hash_def nth_append)

lemma p2pkh_destination:
  assumes "length a = 20"
  shows "extract_destinations h (0x76 # 0xa9 # 0x14 # a @ [0x88, 0xac]) = Ok [new_p2pkh a]"
proof -
  let ?s = "0x76 # 0xa9 # 0x14 # a @ [0x88, 0xac]"
  have "is_pay_to_public_key_hash ?s" using assms by (auto simp: p2pkh_iff)
  then have "script_type ?s = Ok PubKeyHash" by (simp add: script_type_def is_pay_to_public_key_def)
  then show ?thesis using assms by (simp add: extract_destinations_def)
qed

lemma p2sh_destination:
  assumes "length a = 20"
  shows "extract_destinations h (0xa9 # 0x14 # a @ [0x87]) = Ok [new_p2sh a]"
proof -
  let ?s = "0xa9 # 0x14 # a @ [0x87]"
  have "is_pay_to_script_hash ?s" using assms by (auto simp: p2sh_iff)
  then have "script_type ?s = Ok ScriptHash"
    using assms by (simp add: script_type_def is_pay_to_public_key_def is_pay_to_public_key_hash_def)
  then show ?thesis using assms by (simp add: extract_destinations_def)
qed

text \<open>
  Scripts are recognised as what they were built as: a script is a pay-to-public-key-hash
  (pay-to-script-hash) script exactly when it is \<open>build_p2pkh\<close> (\<open>build_p2sh\<close>) of some 20-byte
  hash, and its only destination is then that hash.
\<close>

theorem standard_scripts:
  "(is_pay_to_public_key_hash s \<longleftrightarrow>
      (\<exists>a. length a = 20 \<and> build_p2pkh a = Ok s \<and> extract_destinations h s = Ok [new_p2pkh a])) \<and>
   (is_pay_to_script_hash s \<longleftrightarrow>
      (\<exists>a. length a = 20 \<and> build_p2sh a = Ok s \<and> extract_destinations h s = Ok [new_p2sh a]))"
  unfolding p2pkh_iff p2sh_iff
  by (intro conjI iff_exI conj_cong refl)
    (auto simp: build_p2pkh_eq build_p2sh_eq p2pkh_destination p2sh_destination)

text \<open>
  Extracting the destinations of a script of less than 8704 bytes always succeeds: the
  \<open>unreachable!\<close>, the \<open>expect\<close>s and the slices rely on checks \<open>script_type\<close> has really made,
  and its \<open>u8\<close> key counter does not overflow.
\<close>

theorem extract_destinations_total:
  assumes "length s < 34 * 256"
  shows "\<exists>destinations. extract_destinations h s = Ok destinations"
proof -
  have "multisig_keys_from s 1 0 \<noteq> Panic"
    using assms by (intro multisig_keys_from_not_Panic) simp_all
  then have "\<exists>b. is_multisig_script s = Ok b"
    by (auto simp: is_multisig_script_def split: option.splits outcome.splits)
  then obtain b where b: "is_multisig_script s = Ok b" ..
  have "\<exists>t. script_type s = Ok t" by (simp add: script_type_def b)
  then obtain t where t: "script_type s = Ok t" ..
  show ?thesis
  proof (cases t)
    case PubKey
    then have "is_pay_to_public_key s"
      using t by (auto simp: script_type_def split: if_splits)
    with t PubKey show ?thesis
      by (auto simp: extract_destinations_def is_pay_to_public_key_def public_from_slice_def split: if_splits)
  next
    case Multisig
    then have "is_multisig_script s = Ok True"
      using t by (auto simp: script_type_def split: if_splits)
    then obtain n where "multisig_keys_from s 1 0 = Ok n" using is_multisig_script_keys by blast
    with t Multisig multisig_destinations_from_Ok [OF this] show ?thesis
      by (simp add: extract_destinations_def)
  qed (use t in \<open>simp_all add: extract_destinations_def\<close>)
qed

theorem extract_destinations_total_witness:
  "\<exists>destinations. extract_destinations padding_hasher [0x51, 0x51, 0xae] = Ok destinations"
  by (rule extract_destinations_total) simp

text \<open>
  C40. \<open>find_and_delete\<close> misses an occurrence that ends the script: with \<open>d\<close> found first at
  the end of \<open>s\<close>, \<open>s @ d\<close> is returned unchanged, while the same occurrence is deleted as soon
  as one more byte follows it.  The loop stops at \<open>current < end - len\<close> where the last
  candidate position is \<open>end - len\<close>.
\<close>

theorem find_and_delete_misses_end:
  assumes "d \<noteq> []" and "\<And>k. k < length s \<Longrightarrow> take (length d) (drop k (s @ d)) \<noteq> d"
  shows "find_and_delete (s @ d) d = s @ d \<and> find_and_delete (s @ d @ [x]) d = s @ [x]"
proof
  show "find_and_delete (s @ d) d = s @ d"
    using assms find_and_delete_from_none [of 0 "s @ d" d "[]"] by (simp add: find_and_delete_def)
  let ?t = "s @ d @ [x]"
  have "take (length d) (drop k ?t) \<noteq> d" if "k < length s" for k
    using assms(2) [OF that] that by simp
  then have "find_and_delete_from ?t d 0 [] = find_and_delete_from ?t d (length s) s"
    using assms(1) find_and_delete_from_first [of 0 "length s" d ?t "[]"] by simp
  also have "\<dots> = find_and_delete_from ?t d (length s + length d) s"
    using assms(1) by (simp add: find_and_delete_from.simps [of ?t d "length s"])
  also have "\<dots> = s @ [x]"
    using assms(1) by (subst find_and_delete_from.simps) (cases d; simp)
  finally show "find_and_delete ?t d = s @ [x]" using assms(1) by (simp add: find_and_delete_def)
qed

theorem find_and_delete_misses_end_witness:
  "find_and_delete [0x51, 0x01, 0xff] [0x01, 0xff] = [0x51, 0x01, 0xff]"
  using find_and_delete_misses_end [of "[0x01, 0xff]" "[0x51]" 0] by simp

end
