(* ===== verification/Interpreter_Props.thy ===== *)
theory Interpreter_Props
  imports Interpreter_Safety Script_Props
begin

text \<open>
  Whole inputs: \<open>verify_script\<close> does not panic, its assertions hold, and the interpreter computes
  what the opcodes are documented to compute.
\<close>

section \<open>Pay to script hash\<close>

text \<open>
  The comment above \<open>assert!(!stack.is_empty())\<close>: with an empty stack the first instruction of
  a P2SH script already fails.
\<close>

lemma eval_p2sh_empty_stack:
  assumes "is_pay_to_script_hash (e_script env)"
  shows "eval_script env [] = Err InvalidStackOperation"
proof -
  let ?m = "\<lparr> m_stack = [], m_altstack = [], m_exec_stack = [], m_begincode = 0 \<rparr>"
  have len: "length (e_script env) = 23" and op: "e_script env ! 0 = 0xa9"
    using assms by (simp_all add: is_pay_to_script_hash_def)
  have "get_opcode (e_script env) 0 = Ok OP_HASH160"
    using len op by (simp add: get_opcode_Ok from_u8_def)
  then have i: "get_instruction (e_script env) 0 = Ok \<lparr> opcode_of = OP_HASH160, step_of = 1, data_of = None \<rparr>"
    by (simp add: get_instruction_def)
  have "exec_opcode env \<lparr> opcode_of = OP_HASH160, step_of = 1, data_of = None \<rparr> 1 True ?m
      = Err InvalidStackOperation"
    by (simp add: exec_opcode_def exec_stack_op_def exec_numeric_op_def exec_signature_op_def Let_def
        is_within_op_n_def on_stack_def op_hash_def stack_pop_def)
  then have "eval_step env 0 0 ?m = Err InvalidStackOperation"
    by (simp add: eval_step_def i Let_def is_countable_def is_disabled_def script_limits)
  then have "eval_loop env 0 0 ?m = Err InvalidStackOperation"
    using len by (simp add: eval_loop.simps [of env 0])
  then show ?thesis using len by (simp add: eval_script_def script_limits)
qed

definition flags_consistent :: "verification_flags \<Rightarrow> bool" where
  "flags_consistent flags \<longleftrightarrow>
     \<not> verify_low_s flags \<and> (verify_cleanstack flags \<longrightarrow> verify_p2sh flags) \<and>
     (verify_witness flags \<longrightarrow> verify_p2sh flags)"

lemma verify_final_safe:
  "flags_consistent flags \<Longrightarrow> (cleanstack \<Longrightarrow> verify_p2sh flags) \<Longrightarrow>
     safe (\<lambda>_. True) (verify_final flags witness stack had_witness cleanstack)"
  by (auto simp: verify_final_def flags_consistent_def)

context signature_checking
begin

lemma eval_small:
  "\<not> verify_low_s flags \<Longrightarrow> list_all small s \<Longrightarrow> length s \<le> 1000 \<Longrightarrow>
     safe (\<lambda>(b, s'). list_all small s' \<and> length s' \<le> 1000)
       (eval_script (mk_env h flags checker version script) s)"
  by (intro eval_script_safe serves_mk_env) simp_all

lemma verify_p2sh_script_safe:
  assumes "flags_consistent flags" and "length witness < 2 ^ 39"
    and "list_all small stack" "length stack \<le> 1000" "stack \<noteq> []"
    and "cleanstack \<Longrightarrow> verify_p2sh flags"
  shows "safe (\<lambda>(s, hw, cs). cs \<longrightarrow> verify_p2sh flags)
    (verify_p2sh_script h script_sig witness flags checker version stack had_witness cleanstack)"
proof -
  obtain pubkey2 rest where pop: "stack_pop stack = Ok (pubkey2, rest)"
    and rest: "list_all small rest" "length rest \<le> 1000" and small: "small pubkey2"
    using assms(3-5) by (auto simp: stack_pop_def)
  have low: "\<not> verify_low_s flags" using assms(1) by (simp add: flags_consistent_def)
  have push: "safe (\<lambda>_. True) (push_data [] pubkey2)"
    using small by (simp add: push_data_def Let_def small_def script_limits)
  note run = eval_small [OF low rest]
    and wit = verify_witness_program_safe [OF low assms(2)]
  show ?thesis
    unfolding verify_p2sh_script_def pop and_then.simps
    using assms(5,6)
    by (auto intro!: safe_and_then [OF run] safe_and_then [OF push] safe_and_then [OF wit]
        split: option.splits)
qed

lemma verify_pubkey_witness_safe:
  assumes "flags_consistent flags" and "length witness < 2 ^ 39"
  shows "safe (\<lambda>(hw, cs). cs \<longrightarrow> verify_p2sh flags)
    (verify_pubkey_witness h script_sig script_pubkey witness flags checker)"
proof -
  have low: "\<not> verify_low_s flags" using assms(1) by (simp add: flags_consistent_def)
  note wit = verify_witness_program_safe [OF low assms(2)]
  show ?thesis
    using assms(1) unfolding verify_pubkey_witness_def flags_consistent_def
    by (auto intro!: safe_and_then [OF wit] split: option.splits)
qed

lemma verify_script_safe:
  assumes "flags_consistent flags" and "length witness < 2 ^ 39"
  shows "safe (\<lambda>_. True) (verify_script h script_sig script_pubkey witness flags checker version)"
proof -
  let ?env = "mk_env h flags checker version"
  have low: "\<not> verify_low_s flags" using assms(1) by (simp add: flags_consistent_def)
  have r1: "safe (\<lambda>(b, s'). list_all small s' \<and> length s' \<le> 1000) (eval_script (?env script_sig) [])"
    by (rule eval_small [OF low]) simp_all
  show ?thesis
  proof (cases "eval_script (?env script_sig) []")
    case (Ok r)
    then obtain b1 s1 where e1: "eval_script (?env script_sig) [] = Ok (b1, s1)"
      and s1: "list_all small s1" "length s1 \<le> 1000" using r1 by (cases r) auto
    note r2 = eval_small [OF low s1, of h version script_pubkey]
    have nonempty: "s1 \<noteq> []"
      if "is_pay_to_script_hash script_pubkey" "eval_script (?env script_pubkey) s1 = Ok r2" for r2
      using that eval_p2sh_empty_stack [of "?env script_pubkey"] by (auto simp: mk_env_def)
    show ?thesis
    proof (cases "eval_script (?env script_pubkey) s1")
      case (Ok r2)
      then obtain res s2 where e2: "eval_script (?env script_pubkey) s1 = Ok (res, s2)" by (cases r2) auto
      have p2sh: "safe (\<lambda>(s, hw, cs). cs \<longrightarrow> verify_p2sh flags)
          (if verify_p2sh flags \<and> is_pay_to_script_hash script_pubkey
           then verify_p2sh_script h script_sig witness flags checker version
             (if verify_p2sh flags then s1 else []) hw cs
           else Ok (s2, hw, cs))" if "cs \<longrightarrow> verify_p2sh flags" for hw cs
        using that nonempty [OF _ e2] s1 assms by (intro safe_if verify_p2sh_script_safe) auto
      show ?thesis
        unfolding verify_script_def e1 e2 Let_def and_then.simps prod.case
        by (intro safe_if safe_Err safe_and_then [OF verify_pubkey_witness_safe [OF assms]]
            safe_case_prod safe_and_then [OF p2sh])
          (auto intro!: verify_final_safe assms)
    qed (use r2 in \<open>auto simp: verify_script_def e1\<close>)
  qed (use r1 in \<open>auto simp: verify_script_def\<close>)
qed

end


section \<open>Truth of a stack element\<close>

lemma le_nat_eq_0: "le_nat xs = 0 \<longleftrightarrow> list_all (\<lambda>x. x = 0) xs"
  by (induction xs) (auto simp: unat_eq_zero)

text \<open>The interpreter's truth test is the numeric one: an element of any length is true exactly when the
  number it denotes, read as sign and magnitude, is not zero; in particular every encoding of negative
  zero is false.\<close>

theorem cast_to_bool_value: "cast_to_bool data \<longleftrightarrow> sign_magnitude data \<noteq> 0"
proof (cases "data = []")
  case False
  have bits: "(b AND 0x7f = 0) = (b = 0 \<or> b = 0x80)" for b :: u8
  proof -
    have "(b AND 0x7f = 0) = (unat b = 0 \<or> unat b = 128)"
      using unat_u8_less [of b] by (auto simp: u8_low_bits mod_if split: if_splits)
    also have "\<dots> = (b = 0 \<or> b = 0x80)"
      by (simp add: word_unat_eq_iff)
    finally show ?thesis .
  qed
  have "sign_magnitude data = 0 \<longleftrightarrow> le_nat (butlast data @ [last data AND 0x7f]) = 0"
    unfolding sign_magnitude_split [OF False] by simp
  also have "\<dots> \<longleftrightarrow> list_all (\<lambda>x. x = 0) (butlast data) \<and> (last data = 0 \<or> last data = 0x80)"
    by (simp add: le_nat_eq_0 bits)
  finally show ?thesis
    using False by (auto simp: cast_to_bool_def list_ex_iff list_all_iff)
qed (simp add: cast_to_bool_def sign_magnitude_def)


section \<open>Arithmetic opcodes\<close>

text \<open>Two numbers on top of the stack, as \<open>to_bytes\<close> writes them.\<close>

lemma pop_num_written:
  assumes "num_to_bytes a = Ok bs" and "operand a"
  shows "pop_num flags (s @ [bs]) = Ok (a, s)"
proof -
  have "\<bar>a\<bar> < 2 ^ 63" using assms(2) by (simp add: operand_def)
  then obtain bs' where bs': "num_to_bytes a = Ok bs'" "sign_magnitude bs' = a" "minimal bs'"
    by (rule num_to_bytes_sound)
  with assms have "bs' = bs" by simp
  moreover have "length bs' \<le> 4"
    using minimal_length_iff [OF bs'(3), of 4] bs'(2) assms(2) by (simp add: operand_def)
  ultimately show ?thesis
    using bs' by (simp add: pop_num_def stack_pop_def from_slice_eq_Ok)
qed


text \<open>An opcode without data.\<close>

definition plain :: "opcode \<Rightarrow> instruction" where
  "plain op = \<lparr> opcode_of = op, step_of = 1, data_of = None \<rparr>"

lemma plain_sel [simp]:
  "opcode_of (plain op) = op" "step_of (plain op) = 1" "data_of (plain op) = None"
  by (simp_all add: plain_def)

lemmas exec_defs =
  exec_opcode_def exec_stack_op_def exec_numeric_op_def exec_signature_op_def is_within_op_n_def

lemma exec_arithmetic:
  "exec_opcode env (plain OP_ADD) pc ex m = on_stack m (op_binary (e_flags env) num_add)"
  "exec_opcode env (plain OP_SUB) pc ex m = on_stack m (op_binary (e_flags env) (\<lambda>v1 v2. num_sub v2 v1))"
  "verify_div (e_flags env) \<Longrightarrow> exec_opcode env (plain OP_DIV) pc ex m = on_stack m (op_div (e_flags env))"
  "verify_mod (e_flags env) \<Longrightarrow> exec_opcode env (plain OP_MOD) pc ex m = on_stack m (op_mod (e_flags env))"
  by (simp_all add: exec_defs plain_def Let_def)

text \<open>What follows a computed number: it is written and pushed.\<close>

definition push_result :: "machine \<Rightarrow> bytes stack \<Rightarrow> num \<Rightarrow> machine sres" where
  "push_result m s n = and_then (num_to_bytes n) (\<lambda>bs. Ok (m\<lparr>m_stack := s @ [bs]\<rparr>))"

lemma push_num_result: "and_then (push_num_bytes s n) (\<lambda>s'. Ok (m\<lparr>m_stack := s'\<rparr>)) = push_result m s n"
  by (simp add: push_num_bytes_def push_result_def stack_push_def and_then_assoc)


section \<open>Running a script step by step\<close>

lemma eval_loop_exec:
  assumes "get_instruction (e_script env) pc = Ok i" and "m_exec_stack m = []"
    and "pred_option (\<lambda>d. small d \<and> check_minimal_push d (opcode_of i)) (data_of i)"
    and "is_countable (opcode_of i) \<Longrightarrow> c < MAX_OPS_PER_SCRIPT"
    and "\<not> is_disabled (opcode_of i) (e_flags env)"
  shows "eval_loop env pc c m =
    and_then (exec_opcode env i (pc + step_of i) True m) (\<lambda>m'.
      if length (m_stack m') + length (m_altstack m') > 1000 then Err StackSize
      else eval_loop env (pc + step_of i) (if is_countable (opcode_of i) then c + 1 else c) m')"
proof -
  have pc: "pc < length (e_script env)" using get_instruction_bounds [OF assms(1)] by simp
  have "(case data_of i of
           Some d \<Rightarrow> if length d > MAX_SCRIPT_ELEMENT_SIZE then Err PushSize
             else if True \<and> verify_minimaldata (e_flags env) \<and> \<not> check_minimal_push d (opcode_of i)
             then Err Minimaldata else Ok ()
         | None \<Rightarrow> Ok ()) = Ok ()"
    using assms(3) by (cases "data_of i") (auto simp: small_def)
  then have "eval_step env pc c m =
      and_then (exec_opcode env i (pc + step_of i) True m) (\<lambda>m'.
        if length (m_stack m') + length (m_altstack m') > 1000 then Err StackSize
        else Ok (pc + step_of i, if is_countable (opcode_of i) then c + 1 else c, m'))"
    using assms by (cases "is_countable (opcode_of i)") (simp_all add: eval_step_def Let_def not_less Suc_le_eq)
  then show ?thesis
    using pc by (simp add: eval_loop.simps [of env pc] and_then_assoc if_distrib [of "\<lambda>r. and_then r f" for f]
        cong: if_cong)
qed

definition p2pkh_script :: "bytes \<Rightarrow> script" where
  "p2pkh_script a = [0x76, 0xa9, 0x14] @ a @ [0x88, 0xac]"

lemma p2pkh_instructions:
  assumes "length a = 20"
  shows "get_instruction (p2pkh_script a) 0 = Ok (plain OP_DUP)"
    "get_instruction (p2pkh_script a) 1 = Ok (plain OP_HASH160)"
    "get_instruction (p2pkh_script a) 2 = Ok \<lparr> opcode_of = OP_PUSHBYTES_20, step_of = 21, data_of = Some a \<rparr>"
    "get_instruction (p2pkh_script a) 23 = Ok (plain OP_EQUALVERIFY)"
    "get_instruction (p2pkh_script a) 24 = Ok (plain OP_CHECKSIG)"
  using assms
  by (simp_all add: get_instruction_def get_opcode_def index_def p2pkh_script_def plain_def from_u8_def
      nth_append script_take_def)


lemma exec_p2pkh:
  "m_stack m = s @ [v] \<Longrightarrow> exec_opcode env (plain OP_DUP) pc ex m = Ok (m\<lparr>m_stack := s @ [v, v]\<rparr>)"
  "m_stack m = s @ [v] \<Longrightarrow> exec_opcode env (plain OP_HASH160) pc ex m
     = Ok (m\<lparr>m_stack := s @ [dhash160 (e_hasher env) v]\<rparr>)"
  "m_stack m = s @ [v, w] \<Longrightarrow> exec_opcode env (plain OP_EQUALVERIFY) pc ex m
     = (if v = w then Ok (m\<lparr>m_stack := s\<rparr>) else Err EqualVerify)"
  "exec_opcode env (plain OP_CHECKSIG) pc ex m = on_stack m (op_checksig env OP_CHECKSIG (m_begincode m))"
  "exec_opcode env \<lparr> opcode_of = OP_PUSHBYTES_20, step_of = k, data_of = Some d \<rparr> pc ex m
     = Ok (m\<lparr>m_stack := m_stack m @ [d]\<rparr>)"
  by (simp_all add: exec_defs plain_def Let_def on_stack_def stack_dup_eq op_hash_def stack_pop_def
      stack_push_def op_equalverify_def op_push_data_def butlast_append)

lemma op_checksig_result:
  "op_checksig env OP_CHECKSIG 0 (s @ [sig, pk]) =
     and_then (strip_signature (e_version env) sig (e_script env)) (\<lambda>code.
     and_then (check_signature_encoding sig (e_flags env) (e_version env)) (\<lambda>_.
     and_then (check_pubkey_encoding pk (e_flags env)) (\<lambda>_.
     and_then (check_signature (e_checker env) sig pk code (e_version env)) (\<lambda>ok.
       Ok (s @ [if ok then [1] else []])))))"
  by (simp add: op_checksig_def stack_pop_def subscript_def push_bool_bytes_def stack_push_def butlast_append)

lemma cast_to_bool_flag [simp]: "cast_to_bool (if ok then [1] else []) = ok"
  by (simp add: cast_to_bool_def null_padded_def)

lemma p2pkh_run:
  assumes "e_script env = p2pkh_script a" and "length a = 20" and "length s \<le> 996"
  shows "eval_loop env 0 0 \<lparr> m_stack = s @ [sig, pk], m_altstack = [], m_exec_stack = [], m_begincode = 0 \<rparr> =
    (if dhash160 (e_hasher env) pk \<noteq> a then Err EqualVerify
     else and_then (op_checksig env OP_CHECKSIG 0 (s @ [sig, pk])) (\<lambda>t.
       if length t > 1000 then Err StackSize
       else Ok \<lparr> m_stack = t, m_altstack = [], m_exec_stack = [], m_begincode = 0 \<rparr>))"
proof -
  let ?m = "\<lambda>t. \<lparr> m_stack = t, m_altstack = [], m_exec_stack = [], m_begincode = 0 \<rparr>"
  let ?h = "dhash160 (e_hasher env) pk"
  note i = p2pkh_instructions [OF assms(2), folded assms(1)]
  have sizes: "small a" "check_minimal_push a OP_PUSHBYTES_20"
    using assms(2) by (auto simp: small_def script_limits check_minimal_push_def)
  have counts: "is_countable OP_DUP" "is_countable OP_HASH160" "\<not> is_countable OP_PUSHBYTES_20"
    "is_countable OP_EQUALVERIFY" "is_countable OP_CHECKSIG"
    by (simp_all add: is_countable_def)
  have stop: "eval_loop env 25 4 m = Ok m" for m
    using assms(1,2) by (subst eval_loop.simps) (simp add: p2pkh_script_def)
  have "eval_loop env 0 0 (?m (s @ [sig, pk])) = eval_loop env 1 1 (?m (s @ [sig, pk, pk]))"
    using assms(3) counts exec_p2pkh(1) [of "?m (s @ [sig, pk])" "s @ [sig]" pk]
    by (subst eval_loop_exec [OF i(1)]) (simp_all add: is_disabled_def script_limits)
  also have "\<dots> = eval_loop env 2 2 (?m (s @ [sig, pk, ?h]))"
    using assms(3) counts exec_p2pkh(2) [of "?m (s @ [sig, pk, pk])" "s @ [sig, pk]" pk]
    by (subst eval_loop_exec [OF i(2)]) (simp_all add: is_disabled_def script_limits numeral_2_eq_2 [symmetric])
  also have "\<dots> = eval_loop env 23 2 (?m (s @ [sig, pk, ?h, a]))"
    using assms(3) counts sizes exec_p2pkh(5) [of env 21 a 23 True "?m (s @ [sig, pk, ?h])"]
    by (subst eval_loop_exec [OF i(3)]) (simp_all add: is_disabled_def script_limits)
  also have "\<dots> = (if ?h \<noteq> a then Err EqualVerify else eval_loop env 24 3 (?m (s @ [sig, pk])))"
    using assms(3) counts exec_p2pkh(3) [of "?m (s @ [sig, pk, ?h, a])" "s @ [sig, pk]" ?h a]
    by (subst eval_loop_exec [OF i(4)]) (simp_all add: is_disabled_def script_limits)
  also have "eval_loop env 24 3 (?m (s @ [sig, pk])) =
      and_then (op_checksig env OP_CHECKSIG 0 (s @ [sig, pk])) (\<lambda>t.
        if length t > 1000 then Err StackSize else eval_loop env 25 4 (?m t))"
    using counts
    by (subst eval_loop_exec [OF i(5)])
      (simp_all add: is_disabled_def script_limits exec_p2pkh(4) on_stack_def and_then_assoc cong: if_cong)
  finally show ?thesis by (simp add: stop cong: if_cong)
qed

text \<open>C17. Pay-to-public-key-hash means what it says.  Run on a stack whose top two elements are a
  signature and a public key, the 25-byte script fails with EqualVerify when the key does not hash to
  the address hash; otherwise it strips the signature from the code, checks the two encodings and asks
  the signature checker, and leaves exactly the rest of the stack and the checker's answer.\<close>

theorem eval_p2pkh:
  assumes "e_script env = p2pkh_script a" and "length a = 20" and "length s \<le> 996"
  shows "eval_script env (s @ [sig, pk]) =
    (if dhash160 (e_hasher env) pk \<noteq> a then Err EqualVerify
     else and_then (strip_signature (e_version env) sig (p2pkh_script a)) (\<lambda>code.
          and_then (check_signature_encoding sig (e_flags env) (e_version env)) (\<lambda>_.
          and_then (check_pubkey_encoding pk (e_flags env)) (\<lambda>_.
          and_then (check_signature (e_checker env) sig pk code (e_version env)) (\<lambda>ok.
            Ok (ok, s @ [if ok then [1] else []]))))))"
proof -
  have "length (p2pkh_script a) \<le> MAX_SCRIPT_SIZE" using assms(2) by (simp add: p2pkh_script_def script_limits)
  with p2pkh_run [OF assms, of sig pk] assms show ?thesis
    by (simp add: eval_script_def op_checksig_result and_then_assoc stack_last_def cong: if_cong)
qed

theorem eval_p2pkh_witness:
  "\<forall>secp. eval_script \<lparr> e_script = p2pkh_script (2 # replicate 19 0), e_flags = default_flags,
        e_checker = (noop_signature_checker secp)\<lparr>check_signature_with := \<lambda>_ _ _ _ _. Ok True\<rparr>,
        e_version = WitnessV0, e_hasher = padding_hasher \<rparr> [[7], [1], 2 # replicate 32 0]
      = Ok (True, [[7], [1]])"
proof
  fix secp
  let ?env = "\<lparr> e_script = p2pkh_script (2 # replicate 19 0), e_flags = default_flags,
        e_checker = (noop_signature_checker secp)\<lparr>check_signature_with := \<lambda>_ _ _ _ _. Ok True\<rparr>,
        e_version = WitnessV0, e_hasher = padding_hasher \<rparr>"
  have "dhash160 padding_hasher (2 # replicate 32 0) = 2 # replicate 19 0"
    by (simp add: dhash160_def pad_def eval_nat_numeral)
  moreover have "check_signature_encoding [1] default_flags WitnessV0 = Ok ()"
    and "check_pubkey_encoding (2 # replicate 32 0) default_flags = Ok ()"
    by (simp_all add: check_signature_encoding_def check_pubkey_encoding_def default_flags_def)
  moreover obtain public where "public_from_slice (2 # replicate 32 0) = Ok public"
    by (simp add: public_from_slice_def)
  ultimately show "eval_script ?env [[7], [1], 2 # replicate 32 0] = Ok (True, [[7], [1]])"
    using eval_p2pkh [of ?env "2 # replicate 19 0" "[[7]]" "[1]" "2 # replicate 32 0"]
    by (simp add: strip_signature_def check_signature_def)
qed

text \<open>C31. Arithmetic on two stack elements that encode numbers a and, on top, b in the range of operands:
  OP_ADD and OP_SUB leave the encodings of a + b and a - b; OP_DIV and OP_MOD, where enabled, leave the
  truncated quotient and remainder of b by a, and fail with DivisionByZero exactly when the lower
  element a is zero.\<close>

theorem arithmetic_opcodes:
  assumes "num_to_bytes a = Ok A" and "operand a" and "num_to_bytes b = Ok B" and "operand b"
    and "m_stack m = s @ [A, B]"
  shows "exec_opcode env (plain OP_ADD) pc ex m = push_result m s (a + b)
    \<and> exec_opcode env (plain OP_SUB) pc ex m = push_result m s (a - b)
    \<and> (verify_div (e_flags env) \<longrightarrow> exec_opcode env (plain OP_DIV) pc ex m
          = (if a = 0 then Err DivisionByZero else push_result m s (b sdiv a)))
    \<and> (verify_mod (e_flags env) \<longrightarrow> exec_opcode env (plain OP_MOD) pc ex m
          = (if a = 0 then Err DivisionByZero else push_result m s (b smod a)))"
proof -
  note pops = pop_num_written [OF assms(3,4), of _ "s @ [A]", simplified]
    pop_num_written [OF assms(1,2), of _ s]
  note arith = operand_arith [OF assms(4,2)] operand_arith [OF assms(2,4)] operand_div [OF assms(4)]
  show ?thesis
    using assms(5) by (simp add: exec_arithmetic on_stack_def op_binary_def op_div_def op_mod_def pops arith
        is_zero_def push_num_result add.commute)
qed

theorem arithmetic_opcodes_witness:
  "\<forall>env. let m = \<lparr> m_stack = [[7], [2]], m_altstack = [], m_exec_stack = [], m_begincode = 0 \<rparr> in
     exec_opcode env (plain OP_ADD) 1 True m = Ok (m\<lparr>m_stack := [[9]]\<rparr>)
     \<and> exec_opcode (env\<lparr>e_flags := default_flags\<lparr>verify_div := True\<rparr>\<rparr>) (plain OP_DIV) 1 True m
         = Ok (m\<lparr>m_stack := [[]]\<rparr>)"
proof
  fix env :: eval_env
  let ?m = "\<lparr> m_stack = [[7], [2]], m_altstack = [], m_exec_stack = [], m_begincode = 0 \<rparr>"
  have enc: "num_to_bytes 7 = Ok [7]" "num_to_bytes 2 = Ok [2]" "num_to_bytes 9 = Ok [9]" "num_to_bytes 0 = Ok []"
    by code_simp+
  have q: "(2::int) sdiv 7 = 0" by code_simp
  note ops = arithmetic_opcodes [OF enc(1) _ enc(2), of ?m "[]" _ 1 True]
  have "exec_opcode env (plain OP_ADD) 1 True ?m = Ok (?m\<lparr>m_stack := [[9]]\<rparr>)"
    using ops [of env] enc(3) by (simp add: operand_def push_result_def)
  moreover have "exec_opcode (env\<lparr>e_flags := default_flags\<lparr>verify_div := True\<rparr>\<rparr>) (plain OP_DIV) 1 True ?m
      = Ok (?m\<lparr>m_stack := [[]]\<rparr>)"
    using ops [of "env\<lparr>e_flags := default_flags\<lparr>verify_div := True\<rparr>\<rparr>"] enc(4) q
    by (simp add: operand_def push_result_def)
  ultimately show "let m = ?m in exec_opcode env (plain OP_ADD) 1 True m = Ok (m\<lparr>m_stack := [[9]]\<rparr>)
     \<and> exec_opcode (env\<lparr>e_flags := default_flags\<lparr>verify_div := True\<rparr>\<rparr>) (plain OP_DIV) 1 True m
         = Ok (m\<lparr>m_stack := [[]]\<rparr>)"
    unfolding Let_def by blast
qed


end
