(* ===== verification/Signer.thy ===== *)
theory Signer
  imports Chain_Props Interpreter_Props
begin

text \<open>
  Signature hashes and the signature checker of a transaction input (\<open>script/src/sign.rs\<close>,
  \<open>script/src/verify.rs\<close>).  The checker meets the contract \<open>signature_checking\<close> that the
  interpreter relies on whenever its input index is in range, so that script verification never
  panics; what a signature commits to is stated up to collisions of the double hash.
\<close>

section \<open>Signature hashes\<close>

record unsigned_input =
  ui_previous_output :: out_point
  ui_sequence :: u32

record signer =
  sg_version :: i32
  sg_inputs :: "unsigned_input list"
  sg_outputs :: "transaction_output list"
  sg_lock_time :: u32

definition unsigned_from :: "transaction_input \<Rightarrow> unsigned_input" where
  "unsigned_from i = \<lparr> ui_previous_output = ti_previous_output i, ui_sequence = ti_sequence i \<rparr>"

definition signer_from :: "transaction \<Rightarrow> signer" where
  "signer_from t =
     \<lparr> sg_version = tx_version t, sg_inputs = map unsigned_from (tx_inputs t), sg_outputs = tx_outputs t,
       sg_lock_time = tx_lock_time t \<rparr>"

text \<open>\<open>H256::from(v)\<close>\<close>

definition h256_from_u8 :: "u8 \<Rightarrow> bytes" where
  "h256_from_u8 v = v # replicate 31 0"

definition compute_hash_prevouts :: "hasher \<Rightarrow> sighash \<Rightarrow> unsigned_input list \<Rightarrow> bytes" where
  "compute_hash_prevouts h sighash inputs =
     (if anyone_can_pay sighash then h256_from_u8 0
      else dhash256 h (concat (map (\<lambda>i. serialize_out_point (ui_previous_output i)) inputs)))"

definition compute_hash_sequence :: "hasher \<Rightarrow> sighash \<Rightarrow> unsigned_input list \<Rightarrow> bytes" where
  "compute_hash_sequence h sighash inputs =
     (if base sighash = SighashAll \<and> \<not> anyone_can_pay sighash
      then dhash256 h (concat (map (\<lambda>i. serialize_u32 (ui_sequence i)) inputs))
      else h256_from_u8 0)"

definition compute_hash_outputs :: "hasher \<Rightarrow> sighash \<Rightarrow> nat \<Rightarrow> transaction_output list \<Rightarrow> bytes" where
  "compute_hash_outputs h sighash input_index outputs =
     (if base sighash = SighashAll then dhash256 h (concat (map serialize_output outputs))
      else if base sighash = SighashSingle \<and> input_index < length outputs
        then dhash256 h (serialize_output (outputs ! input_index))
      else h256_from_u8 0)"

text \<open>The inputs and outputs of the transaction that \<open>signature_hash_original\<close> hashes.\<close>

definition original_inputs :: "signer \<Rightarrow> nat \<Rightarrow> script \<Rightarrow> sighash \<Rightarrow> transaction_input list" where
  "original_inputs s input_index script_pubkey sighash =
     (if anyone_can_pay sighash then
        [\<lparr> ti_previous_output = ui_previous_output (sg_inputs s ! input_index), ti_script_sig = script_pubkey,
           ti_sequence = ui_sequence (sg_inputs s ! input_index), ti_script_witness = [] \<rparr>]
      else
        map (\<lambda>(n, i).
          \<lparr> ti_previous_output = ui_previous_output i,
            ti_script_sig = (if n = input_index then script_pubkey else []),
            ti_sequence = (if base sighash \<noteq> SighashAll \<and> n \<noteq> input_index then 0 else ui_sequence i),
            ti_script_witness = [] \<rparr>)
          (enumerate 0 (sg_inputs s)))"

definition original_outputs :: "signer \<Rightarrow> nat \<Rightarrow> sighash \<Rightarrow> transaction_output list" where
  "original_outputs s input_index sighash =
     (case base sighash of
        SighashAll \<Rightarrow> sg_outputs s
      | SighashSingle \<Rightarrow>
          map (\<lambda>(n, out). if n = input_index then out else output_default)
            (enumerate 0 (take (input_index + 1) (sg_outputs s)))
      | SighashNone \<Rightarrow> [])"

definition signature_hash_original :: "hasher \<Rightarrow> signer \<Rightarrow> nat \<Rightarrow> script \<Rightarrow> u32 \<Rightarrow> sighash \<Rightarrow> bytes" where
  "signature_hash_original h s input_index script_pubkey sighashtype sighash =
     (if input_index \<ge> length (sg_inputs s) then h256_from_u8 1
      else if base sighash = SighashSingle \<and> input_index \<ge> length (sg_outputs s) then h256_from_u8 1
      else dhash256 h
        (serialize_transaction 0
           \<lparr> tx_version = sg_version s,
             tx_inputs = original_inputs s input_index (without_separators script_pubkey) sighash,
             tx_outputs = original_outputs s input_index sighash,
             tx_lock_time = sg_lock_time s \<rparr>
         @ serialize_u32 sighashtype))"

text \<open>The stream that \<open>signature_hash_witness0\<close> hashes.\<close>

definition witness0_preimage ::
  "hasher \<Rightarrow> signer \<Rightarrow> unsigned_input \<Rightarrow> nat \<Rightarrow> u64 \<Rightarrow> script \<Rightarrow> u32 \<Rightarrow> sighash \<Rightarrow> bytes" where
  "witness0_preimage h s input input_index input_amount script_pubkey sighashtype sighash =
     serialize_i32 (sg_version s)
     @ compute_hash_prevouts h sighash (sg_inputs s)
     @ compute_hash_sequence h sighash (sg_inputs s)
     @ serialize_out_point (ui_previous_output input)
     @ append_list serialize_u8 script_pubkey
     @ serialize_u64 input_amount
     @ serialize_u32 (ui_sequence input)
     @ compute_hash_outputs h sighash input_index (sg_outputs s)
     @ serialize_u32 (sg_lock_time s)
     @ serialize_u32 sighashtype"

definition signature_hash_witness0 ::
  "hasher \<Rightarrow> signer \<Rightarrow> nat \<Rightarrow> u64 \<Rightarrow> script \<Rightarrow> u32 \<Rightarrow> sighash \<Rightarrow> bytes sres" where
  "signature_hash_witness0 h s input_index input_amount script_pubkey sighashtype sighash =
     and_then (index (sg_inputs s) input_index) (\<lambda>input.
       Ok (dhash256 h
         (witness0_preimage h s input input_index input_amount script_pubkey sighashtype sighash)))"

definition signature_hash_fork_id ::
  "hasher \<Rightarrow> signer \<Rightarrow> nat \<Rightarrow> u64 \<Rightarrow> script \<Rightarrow> u32 \<Rightarrow> sighash \<Rightarrow> bytes sres" where
  "signature_hash_fork_id h s input_index input_amount script_pubkey sighashtype sighash =
     (if input_index \<ge> length (sg_inputs s) then Ok (h256_from_u8 1)
      else if base sighash = SighashSingle \<and> input_index \<ge> length (sg_outputs s) then Ok (h256_from_u8 1)
      else signature_hash_witness0 h s input_index input_amount script_pubkey sighashtype sighash)"

definition signature_hash ::
  "hasher \<Rightarrow> signer \<Rightarrow> nat \<Rightarrow> u64 \<Rightarrow> script \<Rightarrow> signature_version \<Rightarrow> u32 \<Rightarrow> bytes sres" where
  "signature_hash h s input_index input_amount script_pubkey sigversion sighashtype =
     (let sighash = sighash_from_u32 sigversion sighashtype in
      if sigversion = ForkId \<and> fork_id sighash
        then signature_hash_fork_id h s input_index input_amount script_pubkey sighashtype sighash
      else if sigversion = WitnessV0
        then signature_hash_witness0 h s input_index input_amount script_pubkey sighashtype sighash
      else Ok (signature_hash_original h s input_index script_pubkey sighashtype sighash))"


section \<open>The signature checker of a transaction input\<close>

definition tx_check_lock_time :: "signer \<Rightarrow> nat \<Rightarrow> num \<Rightarrow> bool sres" where
  "tx_check_lock_time s input_index lock_time =
     (let lock_time_u32 = num_to_u32 lock_time in
      if \<not> (sg_lock_time s < LOCKTIME_THRESHOLD \<and> lock_time_u32 < LOCKTIME_THRESHOLD \<or>
             sg_lock_time s \<ge> LOCKTIME_THRESHOLD \<and> lock_time_u32 \<ge> LOCKTIME_THRESHOLD)
      then Ok False
      else if lock_time > uint (sg_lock_time s) then Ok False
      else and_then (index (sg_inputs s) input_index) (\<lambda>input. Ok (SEQUENCE_FINAL \<noteq> ui_sequence input)))"

definition tx_check_sequence :: "signer \<Rightarrow> nat \<Rightarrow> num \<Rightarrow> bool sres" where
  "tx_check_sequence s input_index sequence =
     and_then (index (sg_inputs s) input_index) (\<lambda>input.
       let to_sequence = uint (ui_sequence input) in
       if sg_version s < 2 then Ok False
       else if to_sequence AND uint SEQUENCE_LOCKTIME_DISABLE_FLAG \<noteq> 0 then Ok False
       else
         let locktime_mask = uint (SEQUENCE_LOCKTIME_TYPE_FLAG OR SEQUENCE_LOCKTIME_MASK);
             to_sequence_masked = to_sequence AND locktime_mask;
             sequence_masked = sequence AND locktime_mask;
             type_flag = uint SEQUENCE_LOCKTIME_TYPE_FLAG in
         if \<not> (to_sequence_masked < type_flag \<and> sequence_masked < type_flag \<or>
                to_sequence_masked \<ge> type_flag \<and> sequence_masked \<ge> type_flag)
         then Ok False
         else Ok (sequence_masked \<le> to_sequence_masked))"

definition transaction_signature_checker ::
  "hasher \<Rightarrow> secp256k1 \<Rightarrow> signer \<Rightarrow> nat \<Rightarrow> u64 \<Rightarrow> signature_checker" where
  "transaction_signature_checker h secp s input_index input_amount =
     \<lparr> verify_signature_with = verify_or_false secp,
       check_signature_with = (\<lambda>signature public script_code sighashtype version.
         and_then (signature_hash h s input_index input_amount script_code version sighashtype) (\<lambda>hash.
           verify_or_false secp signature public hash)),
       check_lock_time = tx_check_lock_time s input_index,
       check_sequence = tx_check_sequence s input_index \<rparr>"


section \<open>The checker answers\<close>

lemma signature_hash_answers:
  assumes "input_index < length (sg_inputs s)"
  shows "\<exists>hash. signature_hash h s input_index input_amount script version sighashtype = Ok hash"
  using assms
  by (simp add: signature_hash_def signature_hash_fork_id_def signature_hash_witness0_def index_def Let_def)

lemma transaction_checker:
  assumes "input_index < length (sg_inputs s)"
  shows "signature_checking (transaction_signature_checker h secp s input_index amount)"
proof unfold_locales
  fix sig pk code hash_type version
  obtain hash where "signature_hash h s input_index amount code version hash_type = Ok hash"
    using signature_hash_answers [OF assms] by blast
  then show "\<exists>b. check_signature_with (transaction_signature_checker h secp s input_index amount) sig pk code
      hash_type version = Ok b"
    by (simp add: transaction_signature_checker_def verify_or_false_answers)
qed (use assms in \<open>auto simp: transaction_signature_checker_def verify_or_false_answers tx_check_lock_time_def
    tx_check_sequence_def index_def Let_def\<close>)


text \<open>C1. Script verification of a transaction input never panics: whatever the two scripts, the witness
  and the curve library's answers, verification returns or fails with a script error, provided the
  input exists, the witness has fewer than 2^39 items, and the flags are consistent (the clean-stack
  and witness rules come with pay-to-script-hash, and the unimplemented low-S rule is off).\<close>

theorem verify_script_never_panics:
  assumes "flags_consistent flags" and "length witness < 2 ^ 39" and "input_index < length (tx_inputs t)"
  shows "verify_script h script_sig script_pubkey witness flags
    (transaction_signature_checker h secp (signer_from t) input_index amount) version \<noteq> Panic"
proof -
  have "input_index < length (sg_inputs (signer_from t))" using assms(3) by (simp add: signer_from_def)
  from signature_checking.verify_script_safe [OF transaction_checker [OF this] assms(1,2)]
  have "safe (\<lambda>_. True) (verify_script h script_sig script_pubkey witness flags
      (transaction_signature_checker h secp (signer_from t) input_index amount) version)" .
  then show ?thesis by (auto simp: safe_def)
qed

theorem verify_script_never_panics_witness:
  "\<forall>h secp script_sig. verify_script h script_sig [0x51] [] default_flags
     (transaction_signature_checker h secp (signer_from sample_transaction) 0 0) Base \<noteq> Panic"
proof (intro allI)
  fix h secp script_sig
  show "verify_script h script_sig [0x51] [] default_flags
     (transaction_signature_checker h secp (signer_from sample_transaction) 0 0) Base \<noteq> Panic"
    by (rule verify_script_never_panics)
      (simp_all add: flags_consistent_def default_flags_def sample_transaction_def)
qed


text \<open>C12. The interpreter keeps its limits: a run that starts with at most 1000 elements of at most 520
  bytes, with the checker of an existing input, does not panic, and the stack it leaves has at most
  1000 elements of at most 520 bytes.\<close>

theorem eval_script_keeps_limits:
  assumes "\<not> verify_low_s flags" and "input_index < length (tx_inputs t)"
    and "list_all (\<lambda>e. length e \<le> 520) s" and "length s \<le> 1000"
  shows "case eval_script (mk_env h flags
      (transaction_signature_checker h secp (signer_from t) input_index amount) version script) s of
    Ok (_, s') \<Rightarrow> list_all (\<lambda>e. length e \<le> 520) s' \<and> length s' \<le> 1000
  | Err _ \<Rightarrow> True
  | Panic \<Rightarrow> False"
proof -
  have "input_index < length (sg_inputs (signer_from t))" using assms(2) by (simp add: signer_from_def)
  note checker = transaction_checker [OF this]
  have "list_all small s" using assms(3) by (simp add: small_def [abs_def] script_limits)
  from signature_checking.eval_small [OF checker assms(1) this assms(4)]
  have "safe (\<lambda>(_, s'). list_all small s' \<and> length s' \<le> 1000) (eval_script (mk_env h flags
      (transaction_signature_checker h secp (signer_from t) input_index amount) version script) s)" .
  then show ?thesis by (auto simp: safe_def small_def [abs_def] script_limits split: outcome.splits)
qed

theorem eval_script_keeps_limits_witness:
  "\<forall>h secp script. case eval_script (mk_env h default_flags
      (transaction_signature_checker h secp (signer_from sample_transaction) 0 0) Base script) [[1], []] of
    Ok (_, s') \<Rightarrow> list_all (\<lambda>e. length e \<le> 520) s' \<and> length s' \<le> 1000
  | Err _ \<Rightarrow> True
  | Panic \<Rightarrow> False"
proof (intro allI)
  fix h secp script
  show "case eval_script (mk_env h default_flags
      (transaction_signature_checker h secp (signer_from sample_transaction) 0 0) Base script) [[1], []] of
    Ok (_, s') \<Rightarrow> list_all (\<lambda>e. length e \<le> 520) s' \<and> length s' \<le> 1000
  | Err _ \<Rightarrow> True
  | Panic \<Rightarrow> False"
    by (rule eval_script_keeps_limits) (simp_all add: default_flags_def sample_transaction_def)
qed


section \<open>Lock times\<close>

text \<open>C18. Absolute lock times (BIP 65): for a non-negative operand the check succeeds exactly when the
  operand does not exceed the transaction's lock time, both are heights or both are times, and the
  input is not final; truncating the operand to 32 bits in the comparison of kinds does no harm.\<close>

theorem check_lock_time_bip65:
  assumes "0 \<le> n" and "input_index < length (tx_inputs t)"
  shows "check_lock_time (transaction_signature_checker h secp (signer_from t) input_index amount) n =
    Ok (n \<le> uint (tx_lock_time t) \<and> (n < 500000000 \<longleftrightarrow> tx_lock_time t < 500000000)
        \<and> ti_sequence (tx_inputs t ! input_index) \<noteq> 0xffffffff)"
proof (cases "n < 2 ^ 32")
  case True
  with assms(1) have "uint (num_to_u32 n) = n"
    by (simp add: num_to_u32_def uint_word_of_int)
  then have "num_to_u32 n < LOCKTIME_THRESHOLD \<longleftrightarrow> n < 500000000"
    by (simp add: word_less_def LOCKTIME_THRESHOLD_def)
  then show ?thesis
    using assms(2)
    by (auto simp: transaction_signature_checker_def tx_check_lock_time_def Let_def signer_from_def index_def
        unsigned_from_def LOCKTIME_THRESHOLD_def SEQUENCE_FINAL_def not_less)
next
  case False
  have "uint (tx_lock_time t) < 2 ^ 32" using uint_lt2p [of "tx_lock_time t"] by simp
  with False assms show ?thesis
    by (auto simp: transaction_signature_checker_def tx_check_lock_time_def Let_def signer_from_def)
qed

theorem check_lock_time_bip65_witness:
  "\<forall>h secp. check_lock_time (transaction_signature_checker h secp
     (signer_from (sample_transaction\<lparr>tx_lock_time := 100\<rparr>)) 0 0) 99 = Ok True"
proof (intro allI)
  fix h secp
  show "check_lock_time (transaction_signature_checker h secp
     (signer_from (sample_transaction\<lparr>tx_lock_time := 100\<rparr>)) 0 0) 99 = Ok True"
    using check_lock_time_bip65 [of 99 0 "sample_transaction\<lparr>tx_lock_time := 100\<rparr>" h secp 0]
    by (simp add: sample_transaction_def)
qed

lemma and_exp: "x AND 2 ^ n = (if bit x n then 2 ^ n else (0 :: int))"
  by (rule bit_eqI) (auto simp: bit_simps)

lemma exp_or_low: "k \<le> n \<Longrightarrow> (if c then 2 ^ n else 0) OR take_bit k x = (if c then 2 ^ n else 0) + take_bit k (x :: int)"
  by (rule disjunctive_add_eq_or [symmetric], rule bit_eqI) (auto simp: bit_simps)

lemma sequence_masked: "x AND 0x40ffff = (if bit x 22 then 2 ^ 22 else 0) + take_bit 16 (x :: int)"
proof -
  have "x AND 0x40ffff = (x AND 2 ^ 22) OR take_bit 16 x"
  proof -
    have "(0x40ffff :: int) = 2 ^ 22 OR mask 16" by (simp add: mask_eq_exp_minus_1)
    moreover have "x AND (a OR b) = (x AND a) OR (x AND b)" for a b
      by (rule bit_eqI) (auto simp: bit_and_iff bit_or_iff)
    ultimately show ?thesis by (simp only: take_bit_eq_mask)
  qed
  also have "x AND 2 ^ 22 = (if bit x 22 then 2 ^ 22 else 0)"
    by (rule and_exp)
  also have "(if bit x 22 then 2 ^ 22 else 0) OR take_bit 16 x = (if bit x 22 then 2 ^ 22 else 0) + take_bit 16 x"
    by (rule exp_or_low) simp
  finally show ?thesis .
qed


text \<open>C19. Relative lock times (BIP 68 and 112): the check succeeds exactly when the version is at least 2,
  the input's sequence number does not disable the rule, the operand and the sequence number are of
  the same kind (bit 22), and the low 16 bits of the operand do not exceed those of the sequence
  number.\<close>

theorem check_sequence_bip112:
  assumes "input_index < length (tx_inputs t)"
  shows "check_sequence (transaction_signature_checker h secp (signer_from t) input_index amount) n =
    (let sequence = uint (ti_sequence (tx_inputs t ! input_index)) in
     Ok (2 \<le> tx_version t \<and> \<not> bit sequence 31 \<and> (bit n 22 \<longleftrightarrow> bit sequence 22)
         \<and> take_bit 16 n \<le> take_bit 16 sequence))"
proof -
  let ?seq = "uint (ti_sequence (tx_inputs t ! input_index))"
  have disable: "?seq AND uint SEQUENCE_LOCKTIME_DISABLE_FLAG = 0 \<longleftrightarrow> \<not> bit ?seq 31"
    using and_exp_eq_0_iff_not_bit [of ?seq 31] by (simp add: SEQUENCE_LOCKTIME_DISABLE_FLAG_def)
  have mask: "uint (SEQUENCE_LOCKTIME_TYPE_FLAG OR SEQUENCE_LOCKTIME_MASK) = 0x40ffff"
    and flag: "uint SEQUENCE_LOCKTIME_TYPE_FLAG = 2 ^ 22"
    by (simp_all add: SEQUENCE_LOCKTIME_TYPE_FLAG_def SEQUENCE_LOCKTIME_MASK_def)
  have low: "0 \<le> take_bit 16 x" "take_bit 16 x < 2 ^ 16" for x :: int
    by (rule take_bit_nonnegative, rule take_bit_int_less_exp)
  define a b where "a = ?seq AND 0x40ffff" and "b = n AND 0x40ffff"
  have "(x AND 0x40ffff < 2 ^ 22) \<longleftrightarrow> \<not> bit x 22" for x :: int
    using low [of x] by (auto simp: sequence_masked)
  then have kinds: "a < 2 ^ 22 \<longleftrightarrow> \<not> bit ?seq 22" "b < 2 ^ 22 \<longleftrightarrow> \<not> bit n 22" by (simp_all only: a_def b_def)
  have order: "b \<le> a \<longleftrightarrow> take_bit 16 n \<le> take_bit 16 ?seq" if "bit n 22 \<longleftrightarrow> bit ?seq 22"
    using that by (simp add: a_def b_def sequence_masked)
  have "tx_check_sequence (signer_from t) input_index n =
      (if tx_version t < 2 \<or> bit ?seq 31 then Ok False
       else if \<not> (a < 2 ^ 22 \<and> b < 2 ^ 22 \<or> a \<ge> 2 ^ 22 \<and> b \<ge> 2 ^ 22) then Ok False
       else Ok (b \<le> a))"
    using assms disable
    by (simp add: tx_check_sequence_def index_def signer_from_def unsigned_from_def mask flag a_def b_def Let_def)
  also have "\<dots> = Ok (2 \<le> tx_version t \<and> \<not> bit ?seq 31 \<and> (bit n 22 \<longleftrightarrow> bit ?seq 22) \<and> take_bit 16 n \<le> take_bit 16 ?seq)"
    using kinds order by (cases "bit n 22"; cases "bit ?seq 22") (simp_all add: not_less linorder_not_le [symmetric])
  finally show ?thesis by (simp add: transaction_signature_checker_def Let_def)
qed

theorem check_sequence_bip112_witness:
  "\<forall>h secp. check_sequence (transaction_signature_checker h secp
     (signer_from (sample_transaction\<lparr>tx_version := 2\<rparr>)) 0 0) 5 = Ok True"
proof (intro allI)
  fix h secp
  show "check_sequence (transaction_signature_checker h secp
     (signer_from (sample_transaction\<lparr>tx_version := 2\<rparr>)) 0 0) 5 = Ok True"
    using check_sequence_bip112 [of 0 "sample_transaction\<lparr>tx_version := 2\<rparr>" h secp 0 5]
    by (simp add: sample_transaction_def Let_def)
qed


section \<open>What a signature commits to\<close>

definition signer_ok :: "signer \<Rightarrow> bool" where
  "signer_ok s \<longleftrightarrow> list_all (\<lambda>i. out_point_ok (ui_previous_output i)) (sg_inputs s) \<and> list_all output_ok (sg_outputs s)"

lemma length_compute_hashes [simp]:
  "length (compute_hash_prevouts h sighash inputs) = 32"
  "length (compute_hash_sequence h sighash inputs) = 32"
  "length (compute_hash_outputs h sighash i outputs) = 32"
  by (simp_all add: compute_hash_prevouts_def compute_hash_sequence_def compute_hash_outputs_def h256_from_u8_def)

lemma script_prefix_free:
  assumes "length a < 2 ^ 63" and "length b < 2 ^ 63" and "append_list serialize_u8 a @ s = append_list serialize_u8 b @ t"
  shows "a = b \<and> s = t"
  by (rule codec.prefix_free [OF u8.list_codec [of 1]]) (use assms in \<open>simp_all add: list_ok_def list_all_iff\<close>)

lemma witness0_preimage_inj:
  assumes eq: "witness0_preimage h s input i amount script ty sighash =
      witness0_preimage h s' input' i' amount' script' ty' sighash'"
    and ok: "out_point_ok (ui_previous_output input)" "out_point_ok (ui_previous_output input')"
    and len: "length script < 2 ^ 63" "length script' < 2 ^ 63"
  shows "sg_version s = sg_version s'"
    and "compute_hash_prevouts h sighash (sg_inputs s) = compute_hash_prevouts h sighash' (sg_inputs s')"
    and "compute_hash_sequence h sighash (sg_inputs s) = compute_hash_sequence h sighash' (sg_inputs s')"
    and "input = input'" and "script = script'" and "amount = amount'"
    and "compute_hash_outputs h sighash i (sg_outputs s) = compute_hash_outputs h sighash' i' (sg_outputs s')"
    and "sg_lock_time s = sg_lock_time s'" and "ty = ty'"
proof -
  note e1 = i32.prefix_free [OF TrueI TrueI eq [unfolded witness0_preimage_def]]
  then show "sg_version s = sg_version s'" by (rule conjunct1)
  note e2 = conjunct2 [OF e1, unfolded append_eq_append_conv [OF disjI1 [OF trans [OF length_compute_hashes(1) length_compute_hashes(1) [symmetric]]]]]
  then show "compute_hash_prevouts h sighash (sg_inputs s) = compute_hash_prevouts h sighash' (sg_inputs s')"
    by (rule conjunct1)
  note e3 = conjunct2 [OF e2, unfolded append_eq_append_conv [OF disjI1 [OF trans [OF length_compute_hashes(2) length_compute_hashes(2) [symmetric]]]]]
  then show "compute_hash_sequence h sighash (sg_inputs s) = compute_hash_sequence h sighash' (sg_inputs s')"
    by (rule conjunct1)
  note e4 = out_point.prefix_free [OF ok conjunct2 [OF e3]]
  note e5 = script_prefix_free [OF len conjunct2 [OF e4]]
  then show "script = script'" by (rule conjunct1)
  note e6 = u64.prefix_free [OF TrueI TrueI conjunct2 [OF e5]]
  then show "amount = amount'" by (rule conjunct1)
  note e7 = u32.prefix_free [OF TrueI TrueI conjunct2 [OF e6]]
  from e4 e7 show "input = input'" by (cases input; cases input') simp
  note e8 = conjunct2 [OF e7, unfolded append_eq_append_conv [OF disjI1 [OF trans [OF length_compute_hashes(3) length_compute_hashes(3) [symmetric]]]]]
  then show "compute_hash_outputs h sighash i (sg_outputs s) = compute_hash_outputs h sighash' i' (sg_outputs s')"
    by (rule conjunct1)
  note e9 = u32.prefix_free [OF TrueI TrueI conjunct2 [OF e8]]
  then show "sg_lock_time s = sg_lock_time s'" by (rule conjunct1)
  show "ty = ty'" using u32.prefix_free [OF TrueI TrueI, of ty "[]" ty' "[]"] e9 by simp
qed

text \<open>The four strings that are hashed for a witness signature with hash type ALL.\<close>

definition sighash_strings :: "hasher \<Rightarrow> signer \<Rightarrow> nat \<Rightarrow> u64 \<Rightarrow> script \<Rightarrow> u32 \<Rightarrow> bytes list" where
  "sighash_strings h s i amount script ty =
     [witness0_preimage h s (sg_inputs s ! i) i amount script ty (sighash_from_u32 WitnessV0 ty),
      concat (map (\<lambda>i. serialize_out_point (ui_previous_output i)) (sg_inputs s)),
      concat (map (\<lambda>i. serialize_u32 (ui_sequence i)) (sg_inputs s)),
      concat (map serialize_output (sg_outputs s))]"

lemma collide_freeD: "\<not> collide h as bs \<Longrightarrow> dhash256 h a = dhash256 h b \<Longrightarrow> a \<in> set as \<Longrightarrow> b \<in> set bs \<Longrightarrow> a = b"
  by (auto simp: collide_def)

lemma inputs_eq:
  fixes xs ys :: "unsigned_input list"
  assumes "concat (map (\<lambda>i. serialize_out_point (ui_previous_output i)) xs) =
      concat (map (\<lambda>i. serialize_out_point (ui_previous_output i)) ys)"
    and "concat (map (\<lambda>i. serialize_u32 (ui_sequence i)) xs) = concat (map (\<lambda>i. serialize_u32 (ui_sequence i)) ys)"
    and "list_all (\<lambda>i. out_point_ok (ui_previous_output i)) xs" "list_all (\<lambda>i. out_point_ok (ui_previous_output i)) ys"
  shows "xs = ys"
proof -
  have "map ui_previous_output xs = map ui_previous_output ys"
    by (rule out_point.concat_inj)
      (use assms in \<open>auto simp: list_all_iff o_def serialize_out_point_def serialize_u32_def dest: arg_cong [of _ _ length]\<close>)
  moreover have "map ui_sequence xs = map ui_sequence ys"
    by (rule u32.concat_inj)
      (use assms(2) in \<open>auto simp: list_all_iff o_def serialize_u32_def dest: arg_cong [of _ _ length]\<close>)
  ultimately show ?thesis
    by (intro nth_equalityI) (auto dest: map_eq_imp_length_eq simp: list_eq_iff_nth_eq intro!: unsigned_input.equality)
qed

lemma outputs_eq:
  assumes "concat (map serialize_output xs) = concat (map serialize_output ys)"
    and "list_all output_ok xs" and "list_all output_ok ys"
  shows "xs = ys"
  by (rule tx_output.concat_inj [OF assms(2,3) _ assms(1)])
    (auto simp: serialize_output_def serialize_u64_def dest: arg_cong [of _ _ length])


text \<open>C4. A witness signature of hash type ALL commits to the whole transaction: if the signature hashes
  of two inputs are equal, then the transactions agree in version, all inputs with their sequence
  numbers, all outputs and lock time, and the signed input, the amount, the script code and the
  hash type are the same; unless two different strings among those hashed for the two inputs have
  the same double hash.\<close>

theorem witness_signature_commits:
  assumes "signer_ok s" and "signer_ok s'" and "i < length (sg_inputs s)" and "i' < length (sg_inputs s')"
    and "length script < 2 ^ 63" and "length script' < 2 ^ 63"
    and all: "base (sighash_from_u32 WitnessV0 ty) = SighashAll" "\<not> anyone_can_pay (sighash_from_u32 WitnessV0 ty)"
    and hash: "signature_hash h s i amount script WitnessV0 ty = signature_hash h s' i' amount' script' WitnessV0 ty'"
  shows "s = s' \<and> sg_inputs s ! i = sg_inputs s' ! i' \<and> amount = amount' \<and> script = script' \<and> ty = ty'
    \<or> collide h (sighash_strings h s i amount script ty) (sighash_strings h s' i' amount' script' ty')"
proof (rule disjCI)
  assume free: "\<not> collide h (sighash_strings h s i amount script ty) (sighash_strings h s' i' amount' script' ty')"
  note eqD = collide_freeD [OF free]
  have main: "witness0_preimage h s (sg_inputs s ! i) i amount script ty (sighash_from_u32 WitnessV0 ty) =
      witness0_preimage h s' (sg_inputs s' ! i') i' amount' script' ty' (sighash_from_u32 WitnessV0 ty')"
    by (rule eqD) (use hash assms(3,4) in
      \<open>simp_all add: signature_hash_def signature_hash_witness0_def index_def Let_def sighash_strings_def\<close>)
  have ok: "out_point_ok (ui_previous_output (sg_inputs s ! i))" "out_point_ok (ui_previous_output (sg_inputs s' ! i'))"
    using assms(1-4) by (auto simp: signer_ok_def list_all_length)
  note inj = witness0_preimage_inj [OF main ok assms(5,6)]
  have "concat (map (\<lambda>i. serialize_out_point (ui_previous_output i)) (sg_inputs s)) =
      concat (map (\<lambda>i. serialize_out_point (ui_previous_output i)) (sg_inputs s'))"
    by (rule eqD) (use inj(2,9) all in \<open>simp_all add: sighash_strings_def compute_hash_prevouts_def\<close>)
  moreover have "concat (map (\<lambda>i. serialize_u32 (ui_sequence i)) (sg_inputs s)) =
      concat (map (\<lambda>i. serialize_u32 (ui_sequence i)) (sg_inputs s'))"
    by (rule eqD) (use inj(3,9) all in \<open>simp_all add: sighash_strings_def compute_hash_sequence_def\<close>)
  moreover have "concat (map serialize_output (sg_outputs s)) = concat (map serialize_output (sg_outputs s'))"
    by (rule eqD) (use inj(7,9) all in \<open>simp_all add: sighash_strings_def compute_hash_outputs_def\<close>)
  ultimately have "sg_inputs s = sg_inputs s'" "sg_outputs s = sg_outputs s'"
    using assms(1,2) by (auto simp: signer_ok_def intro: inputs_eq outputs_eq)
  with inj show "s = s' \<and> sg_inputs s ! i = sg_inputs s' ! i' \<and> amount = amount' \<and> script = script' \<and> ty = ty'"
    by (auto intro: signer.equality)
qed

theorem witness_signature_commits_witness:
  "let s = signer_from sample_transaction in
   signature_hash padding_hasher s 0 1 [] WitnessV0 1 = signature_hash padding_hasher s 0 2 [] WitnessV0 1
   \<and> collide padding_hasher (sighash_strings padding_hasher s 0 1 [] 1) (sighash_strings padding_hasher s 0 2 [] 1)"
proof -
  let ?s = "signer_from sample_transaction"
  have ok: "signer_ok ?s" "0 < length (sg_inputs ?s)"
    using sample_transaction_ok(1)
    by (simp_all add: signer_ok_def signer_from_def sample_transaction_def unsigned_from_def out_point_ok_def output_ok_def)
  have ty: "base (sighash_from_u32 WitnessV0 1) = SighashAll" "\<not> anyone_can_pay (sighash_from_u32 WitnessV0 1)"
    by (simp_all add: sighash_from_u32_def)
  have "signature_hash padding_hasher ?s 0 1 [] WitnessV0 1 = signature_hash padding_hasher ?s 0 2 [] WitnessV0 1"
    using ok(2)
    by (simp add: signature_hash_def signature_hash_witness0_def index_def Let_def dhash256_def pad_def
        witness0_preimage_def serialize_i32_def)
  with witness_signature_commits [OF ok(1) ok(1) ok(2) ok(2) _ _ ty, of "[]" "[]" padding_hasher 1 2 1] show ?thesis
    by (simp add: Let_def)
qed


end
