(* ===== verification/Compact.thy ===== *)
theory Compact
  imports Prelude "HOL-Library.Log_Nat"
begin

text \<open>
  \<open>primitives/src/compact.rs\<close>: the compact form of a 256-bit target, a base-256 floating-point
  number with a 23-bit mantissa and a sign bit.

  \<open>U256\<close> comes from the \<open>bigint\<close> crate: it is the 256-bit unsigned integer, whose shifts drop
  what leaves the 256 bits.  What its addition and multiplication do on overflow is left open: the
  definitions that add or multiply take that behaviour as an argument \<open>ov\<close>, applied to the
  wrapped result.
\<close>

type_synonym u256 = "256 word"
type_synonym compact = u32

definition u256_bits :: "u256 \<Rightarrow> nat" where
  "u256_bits v = floorlog 2 (unat v)"

definition to_u256 :: "compact \<Rightarrow> (u256, u256) outcome" where
  "to_u256 c =
     (let sz = drop_bit 24 c;
          w0 = c AND 0x007fffff;
          (w, result) =
            (if sz \<le> 3 then let w = drop_bit (8 * (3 - unat sz)) w0 in (w, ucast w)
             else (w0, push_bit (8 * (unat sz - 3)) (ucast w0)));
          is_negative = (w \<noteq> 0 \<and> c AND 0x00800000 \<noteq> 0);
          is_overflow = ((w \<noteq> 0 \<and> sz > 34) \<or> (w > 0xff \<and> sz > 33) \<or> (w > 0xffff \<and> sz > 32)) in
      if is_negative \<or> is_overflow then Err result else Ok result)"

text \<open>\<open>From<Compact> for U256\<close> ignores overflows and negative values.\<close>

definition u256_from_compact :: "compact \<Rightarrow> u256" where
  "u256_from_compact c = (case to_u256 c of Ok v \<Rightarrow> v | Err v \<Rightarrow> v | Panic \<Rightarrow> 0)"

definition from_u256 :: "u256 \<Rightarrow> ('e, compact) outcome" where
  "from_u256 v =
     (let sz = (u256_bits v + 7) div 8;
          c0 = (if sz \<le> 3 then ucast (push_bit (8 * (3 - sz)) (ucast v :: u64))
                else ucast (drop_bit (8 * (sz - 3)) v)) :: u32;
          (c, sz) = (if c0 AND 0x00800000 \<noteq> 0 then (drop_bit 8 c0, sz + 1) else (c0, sz)) in
      if c AND NOT 0x007fffff \<noteq> 0 then Panic
      else if \<not> sz < 256 then Panic
      else Ok (c OR word_of_nat (push_bit 24 sz)))"

definition compact_max_value :: "('e, compact) outcome" where
  "compact_max_value = from_u256 (NOT 0)"


section \<open>The byte length of a value\<close>

abbreviation byte_length :: "nat \<Rightarrow> nat" where
  "byte_length n \<equiv> (floorlog 2 n + 7) div 8"

lemma byte_length_upper: "n < 256 ^ byte_length n"
proof (cases "n = 0")
  case False
  have "n < 2 ^ floorlog 2 n" using floorlog_bounds [of n 2] False by simp
  also have "\<dots> \<le> 2 ^ (8 * byte_length n)" by (rule power_increasing) (linarith, simp)
  finally show ?thesis by (simp add: power_mult)
qed simp

lemma byte_length_lower: "0 < n \<Longrightarrow> 256 ^ (byte_length n - 1) \<le> n"
proof -
  assume n: "0 < n"
  then have "0 < floorlog 2 n" by (simp add: floorlog_def)
  then have "(2 :: nat) ^ (8 * (byte_length n - 1)) \<le> 2 ^ (floorlog 2 n - 1)"
    by (intro power_increasing) (linarith, simp)
  also have "\<dots> \<le> n" using floorlog_bounds [of n 2] n by simp
  finally show ?thesis by (simp add: power_mult)
qed

lemma byte_length_0 [simp]: "byte_length 0 = 0"
  by (simp add: floorlog_def)

lemma byte_length_unique: "256 ^ k \<le> n \<Longrightarrow> n < 256 ^ Suc k \<Longrightarrow> byte_length n = Suc k"
proof (rule ccontr)
  assume lo: "256 ^ k \<le> n" and hi: "n < 256 ^ Suc k" and ne: "byte_length n \<noteq> Suc k"
  have pos: "0 < n" using lo by (metis gr0I le_zero_eq power_not_zero zero_neq_numeral)
  consider "byte_length n \<le> k" | "Suc k \<le> byte_length n - 1" using ne by linarith
  then show False
  proof cases
    case 1
    then have "(256 :: nat) ^ byte_length n \<le> 256 ^ k" by (intro power_increasing) simp_all
    then show False using lo byte_length_upper [of n] by linarith
  next
    case 2
    then have "(256 :: nat) ^ Suc k \<le> 256 ^ (byte_length n - 1)" by (intro power_increasing) simp_all
    then show False using hi byte_length_lower [OF pos] by linarith
  qed
qed

lemma byte_length_le: "n < 256 ^ k \<Longrightarrow> byte_length n \<le> k"
proof (cases "n = 0")
  case False
  assume "n < 256 ^ k"
  then have "(256 :: nat) ^ (byte_length n - 1) < 256 ^ k"
    using byte_length_lower [of n] False by linarith
  then have "byte_length n - 1 < k" by (rule power_less_imp_less_exp [rotated]) simp
  then show ?thesis by linarith
qed simp


section \<open>Mantissa and exponent\<close>

text \<open>The mantissa and the exponent that \<open>from_u256\<close> chooses for the value \<open>n\<close>.\<close>

definition top_bytes :: "nat \<Rightarrow> nat" where
  "top_bytes n =
     (if byte_length n \<le> 3 then n * 256 ^ (3 - byte_length n) else n div 256 ^ (byte_length n - 3))"

definition mantissa :: "nat \<Rightarrow> nat" where
  "mantissa n = (if top_bytes n < 2 ^ 23 then top_bytes n else top_bytes n div 256)"

definition exponent :: "nat \<Rightarrow> nat" where
  "exponent n = (if top_bytes n < 2 ^ 23 then byte_length n else byte_length n + 1)"

lemma top_bytes_less: "top_bytes n < 2 ^ 24"
proof (cases "byte_length n \<le> 3")
  case True
  have "n * 256 ^ (3 - byte_length n) < 256 ^ byte_length n * 256 ^ (3 - byte_length n)"
    by (rule mult_strict_right_mono [OF byte_length_upper]) simp
  also have "\<dots> = 256 ^ 3" using True by (simp flip: power_add)
  finally show ?thesis using True by (simp add: top_bytes_def)
next
  case False
  have "(256 :: nat) ^ byte_length n = 256 ^ 3 * 256 ^ (byte_length n - 3)"
    using False by (metis le_add_diff_inverse nle_le power_add)
  then have "n div 256 ^ (byte_length n - 3) < 256 ^ 3"
    using byte_length_upper [of n] by (simp add: less_mult_imp_div_less)
  then show ?thesis using False by (simp add: top_bytes_def)
qed

lemma mantissa_less: "mantissa n < 2 ^ 23"
  using top_bytes_less [of n] by (auto simp: mantissa_def)

lemma exponent_le: "n < 2 ^ 256 \<Longrightarrow> exponent n \<le> 33"
  using byte_length_le [of n 32] by (auto simp: exponent_def)

lemma exponent_33: "n < 2 ^ 256 \<Longrightarrow> exponent n = 33 \<Longrightarrow> mantissa n < 2 ^ 16"
  using byte_length_le [of n 32] top_bytes_less [of n]
  by (auto simp: exponent_def mantissa_def split: if_splits)

text \<open>What the compact form represents: \<open>n\<close> without its low bytes.\<close>

definition truncated :: "nat \<Rightarrow> nat" where
  "truncated n = n div 256 ^ (exponent n - 3) * 256 ^ (exponent n - 3)"

lemma mantissa_value:
  "(if exponent n \<le> 3 then mantissa n div 256 ^ (3 - exponent n) else mantissa n * 256 ^ (exponent n - 3))
     = truncated n"
proof (cases "top_bytes n < 2 ^ 23")
  case True
  then have "mantissa n = top_bytes n" "exponent n = byte_length n"
    by (simp_all add: mantissa_def exponent_def)
  then show ?thesis by (simp add: truncated_def top_bytes_def)
next
  case big: False
  then have parts: "mantissa n = top_bytes n div 256" "exponent n = byte_length n + 1"
    by (simp_all add: mantissa_def exponent_def)
  show ?thesis
  proof (cases "byte_length n \<le> 2")
    case True
    then have "(256 :: nat) ^ (3 - byte_length n) = 256 * 256 ^ (2 - byte_length n)"
      by (metis Suc_diff_le numeral_2_eq_2 numeral_3_eq_3 power_Suc)
    then have "top_bytes n div 256 = n * 256 ^ (2 - byte_length n)"
      using True by (simp add: top_bytes_def)
    then show ?thesis using True parts by (simp add: truncated_def)
  next
    case False
    then have "byte_length n \<ge> 3" by linarith
    then have "exponent n - 3 = Suc (byte_length n - 3)" "\<not> exponent n \<le> 3"
      using parts by auto
    moreover have "top_bytes n = n div 256 ^ (byte_length n - 3)"
      using \<open>byte_length n \<ge> 3\<close> by (auto simp: top_bytes_def)
    ultimately show ?thesis using parts
      by (simp add: truncated_def mult.commute flip: div_mult2_eq)
  qed
qed


section \<open>Both conversions on mantissas and exponents\<close>

lemma mask_23: "(0x007fffff :: u32) = mask 23"
  by (simp add: mask_eq_exp_minus_1)

lemma bit_23: "c AND 0x00800000 = 0 \<longleftrightarrow> even (unat (c :: u32) div 2 ^ 23)"
proof -
  have "c AND 2 ^ 23 = 0 \<longleftrightarrow> \<not> bit c 23" by (rule and_exp_eq_0_iff_not_bit)
  moreover have "bit c 23 \<longleftrightarrow> bit (unat c) 23" by (simp add: bit_unsigned_iff)
  ultimately show ?thesis by (simp add: bit_iff_odd)
qed

lemma bit_23_small: "unat (c :: u32) < 2 ^ 24 \<Longrightarrow> c AND 0x00800000 = 0 \<longleftrightarrow> unat c < 2 ^ 23"
proof -
  assume "unat c < 2 ^ 24"
  then have "unat c div 2 ^ 23 < 2" by (simp add: less_mult_imp_div_less)
  then have "even (unat c div 2 ^ 23) \<longleftrightarrow> unat c div 2 ^ 23 = 0" by (auto dest: less_2_cases)
  then show ?thesis by (simp add: bit_23 div_eq_0_iff)
qed

lemma low_23: "unat (c AND 0x007fffff :: u32) = unat c mod 2 ^ 23"
  by (simp only: mask_23 take_bit_eq_mask [symmetric]) (simp add: unsigned_take_bit_eq take_bit_eq_mod unat_mod)

lemma high_bits_clear: "unat (c :: u32) < 2 ^ 23 \<Longrightarrow> c AND NOT 0x007fffff = 0"
proof -
  assume "unat c < 2 ^ 23"
  then have "c AND 0x007fffff = c" by (metis low_23 mod_less unsigned_word_eqI)
  then show ?thesis by (metis word_bw_assocs(1) word_and_not and_zero_eq)
qed

lemma unat_word_of_nat_u32: "n < 2 ^ 32 \<Longrightarrow> unat (word_of_nat n :: u32) = n"
  by (simp add: unat_of_nat)

lemma unat_ucast_u32: "unat (ucast (w :: 'a::len word) :: u32) = unat w mod 2 ^ 32"
  by (simp add: unsigned_ucast_eq take_bit_eq_mod)

lemma unat_push_bit_u64: "unat (push_bit k w :: u64) = unat w * 2 ^ k mod 2 ^ 64"
  by (simp add: unsigned_push_bit_eq take_bit_eq_mod) (simp add: push_bit_eq_mult)

lemma unat_drop_bit: "unat (drop_bit k (w :: 'a::len word)) = unat w div 2 ^ k"
  by (simp add: unsigned_drop_bit_eq) (simp add: drop_bit_eq_div take_bit_nat_eq_self)

lemma first_bytes:
  fixes v :: u256
  shows "unat (if byte_length (unat v) \<le> 3
               then ucast (push_bit (8 * (3 - byte_length (unat v))) (ucast v :: u64))
               else ucast (drop_bit (8 * (byte_length (unat v) - 3)) v) :: u32) = top_bytes (unat v)"
proof -
  have t: "top_bytes (unat v) < 2 ^ 24" by (rule top_bytes_less)
  show ?thesis
  proof (cases "byte_length (unat v) \<le> 3")
    case True
    have "unat v < 256 ^ byte_length (unat v)" by (rule byte_length_upper)
    also have "\<dots> \<le> 256 ^ 3" using True by (intro power_increasing) simp_all
    finally have low: "unat (ucast v :: u64) = unat v" by (simp add: unsigned_ucast_eq take_bit_eq_mod)
    have "unat (ucast (push_bit (8 * (3 - byte_length (unat v))) (ucast v :: u64)) :: u32)
        = unat v * 256 ^ (3 - byte_length (unat v)) mod 2 ^ 64 mod 2 ^ 32"
      by (simp only: unat_ucast_u32 unat_push_bit_u64 low) (simp add: power_mult)
    then show ?thesis using True t by (simp add: top_bytes_def)
  next
    case False
    have "unat (ucast (drop_bit (8 * (byte_length (unat v) - 3)) v) :: u32)
        = unat v div 256 ^ (byte_length (unat v) - 3) mod 2 ^ 32"
      by (simp only: unat_ucast_u32 unat_drop_bit) (simp add: power_mult)
    then show ?thesis using False t by (simp add: top_bytes_def)
  qed
qed

lemma join_parts:
  "unat (m :: u32) < 2 ^ 23 \<Longrightarrow> e < 256 \<Longrightarrow> m OR word_of_nat (push_bit 24 e) = word_of_nat (unat m + e * 2 ^ 24)"
proof -
  assume m: "unat m < 2 ^ 23" and e: "e < 256"
  let ?e = "word_of_nat (push_bit 24 e) :: u32"
  have "push_bit 24 e < 2 ^ 32" using e by (simp add: push_bit_eq_mult)
  then have "unat ?e = push_bit 24 e" by (rule unat_word_of_nat_u32)
  then have "unat (m AND ?e) = unat m AND push_bit 24 e" by (simp only: unsigned_and_eq)
  also have "\<dots> = take_bit 23 (unat m) AND push_bit 24 e" using m by (simp add: take_bit_eq_mod)
  also have "\<dots> = 0" by (rule bit_eqI) (auto simp: bit_simps)
  finally have "m AND ?e = 0" by (simp add: unat_eq_zero)
  then have "m OR ?e = m + ?e" by (simp add: disjunctive_add_eq_or)
  then show ?thesis by (simp add: push_bit_eq_mult)
qed

lemma unat_u256_less: "unat (v :: u256) < 2 ^ 256"
proof -
  have "unat v < 2 ^ LENGTH(256)" by (rule unsigned_less)
  then show ?thesis by simp
qed

lemma from_u256_eq:
  "from_u256 v = Ok (word_of_nat (mantissa (unat v) + exponent (unat v) * 2 ^ 24))"
proof -
  let ?n = "unat v"
  define c0 where "c0 = (if byte_length ?n \<le> 3
      then ucast (push_bit (8 * (3 - byte_length ?n)) (ucast v :: u64))
      else ucast (drop_bit (8 * (byte_length ?n - 3)) v) :: u32)"
  have c0: "unat c0 = top_bytes ?n" unfolding c0_def by (rule first_bytes)
  have e: "exponent ?n < 256" using exponent_le [OF unat_u256_less, of v] by simp
  define c where "c = (if c0 AND 0x00800000 \<noteq> 0 then drop_bit 8 c0 else c0)"
  have top: "c0 AND 0x00800000 \<noteq> 0 \<longleftrightarrow> \<not> top_bytes ?n < 2 ^ 23"
    using bit_23_small [of c0] top_bytes_less [of ?n] by (simp add: c0)
  have c: "unat c = mantissa ?n"
    by (simp add: c_def top c0 mantissa_def unat_drop_bit)
  have "from_u256 v = (if c AND NOT 0x007fffff \<noteq> 0 then Panic else if \<not> exponent ?n < 256 then Panic
      else Ok (c OR word_of_nat (push_bit 24 (exponent ?n))))"
    unfolding from_u256_def u256_bits_def Let_def c0_def [symmetric]
    by (simp add: c_def exponent_def top)
  moreover have m: "unat c < 2 ^ 23" using mantissa_less by (simp only: c)
  ultimately show ?thesis
    using e by (simp only: high_bits_clear [OF m] join_parts [OF m e] c) simp
qed

lemma split_parts:
  assumes "m < 2 ^ 23"
  shows "(m + e * 2 ^ 24) mod 2 ^ 23 = (m :: nat)" "(m + e * 2 ^ 24) div 2 ^ 23 = 2 * e"
    "(m + e * 2 ^ 24) div 2 ^ 24 = e"
proof -
  have eq: "m + e * 2 ^ 24 = m + (2 * e) * 2 ^ 23" by simp
  show "(m + e * 2 ^ 24) mod 2 ^ 23 = m" unfolding eq mod_mult_self1 using assms by (rule mod_less)
  show "(m + e * 2 ^ 24) div 2 ^ 23 = 2 * e"
    unfolding eq using assms by (subst div_mult_self1) (simp, simp only: div_less add_0_right)
  show "(m + e * 2 ^ 24) div 2 ^ 24 = e" using assms by (subst div_mult_self1) simp_all
qed

lemma to_u256_parts:
  assumes m: "m < 2 ^ 23" and e: "e \<le> 33" and fits: "e = 33 \<Longrightarrow> m < 2 ^ 16"
  shows "to_u256 (word_of_nat (m + e * 2 ^ 24))
           = Ok (word_of_nat (if e \<le> 3 then m div 256 ^ (3 - e) else m * 256 ^ (e - 3)))"
proof -
  let ?c = "word_of_nat (m + e * 2 ^ 24) :: u32"
  have c: "unat ?c = m + e * 2 ^ 24" using m e by (intro unat_word_of_nat_u32) simp
  have sz: "drop_bit 24 ?c = word_of_nat e"
    by (rule word_unat_eq_iff [THEN iffD2]) (use e in \<open>simp only: unat_drop_bit c split_parts [OF m], simp add: unat_word_of_nat_u32\<close>)
  have w: "?c AND 0x007fffff = word_of_nat m"
    by (rule word_unat_eq_iff [THEN iffD2]) (use m in \<open>simp only: low_23 c split_parts [OF m], simp add: unat_word_of_nat_u32\<close>)
  have pos: "?c AND 0x00800000 = 0" by (simp only: bit_23 c split_parts [OF m]) simp
  have unats: "unat (word_of_nat m :: u32) = m" "unat (word_of_nat e :: u32) = e"
    using m e by (simp_all add: unat_word_of_nat_u32)
  have small: "(word_of_nat e :: u32) \<le> 3 \<longleftrightarrow> e \<le> 3"
    using unats by (simp add: word_le_nat_alt)
  have bounds: "\<not> (word_of_nat e :: u32) > 34" "\<not> (word_of_nat e :: u32) > 33"
    "\<not> ((word_of_nat m :: u32) > 0xffff \<and> (word_of_nat e :: u32) > 32)"
    using unats e fits by (auto simp: word_less_nat_alt)
  have shr: "ucast (drop_bit k (word_of_nat m :: u32)) = (word_of_nat (m div 2 ^ k) :: u256)" for k
    by (rule word_unat_eq_iff [THEN iffD2])
      (use m in \<open>simp add: unsigned_ucast_eq take_bit_eq_mod unat_drop_bit unats unat_of_nat\<close>)
  have shl: "push_bit k (ucast (word_of_nat m :: u32)) = (word_of_nat (m * 2 ^ k) :: u256)" for k
    using shr [of 0] by (simp add: push_bit_eq_mult)
  have low: "e \<le> 3 \<Longrightarrow> \<not> (word_of_nat e :: u32) > 32"
    using unats by (simp add: word_less_nat_alt)
  show ?thesis
    unfolding to_u256_def Let_def sz w pos unats
    using small bounds low by (cases "e \<le> 3") (simp_all add: shr shl power_mult)
qed

lemma to_u256_from_u256:
  "to_u256 (word_of_nat (mantissa (unat v) + exponent (unat v) * 2 ^ 24)) = Ok (word_of_nat (truncated (unat (v :: u256))))"
  using to_u256_parts [OF mantissa_less exponent_le [OF unat_u256_less] exponent_33 [OF unat_u256_less], of v]
  by (simp only: mantissa_value)


section \<open>The compact form as an approximation\<close>

lemma truncated_small: "exponent n \<le> 3 \<Longrightarrow> truncated n = n"
  by (simp add: truncated_def)

text \<open>Beyond three bytes the dropped part is at most a \<open>2 ^ 15\<close>th of the value.\<close>

lemma dropped_bytes:
  assumes "3 < exponent n"
  shows "2 ^ 15 * 256 ^ (exponent n - 3) \<le> n" "3 \<le> byte_length n"
    "top_bytes n = n div 256 ^ (byte_length n - 3)"
proof -
  show bl: "3 \<le> byte_length n" using assms by (auto simp: exponent_def split: if_splits)
  then show top: "top_bytes n = n div 256 ^ (byte_length n - 3)" by (auto simp: top_bytes_def)
  show "2 ^ 15 * 256 ^ (exponent n - 3) \<le> n"
  proof (cases "top_bytes n < 2 ^ 23")
    case True
    then have "3 < byte_length n" using assms by (simp add: exponent_def)
    have "2 ^ 15 * 256 ^ (exponent n - 3) \<le> (256 :: nat) ^ 2 * 256 ^ (byte_length n - 3)"
      using True by (simp add: exponent_def)
    also have "\<dots> = 256 ^ (byte_length n - 1)"
    proof -
      have "byte_length n - 1 = 2 + (byte_length n - 3)" using bl by simp
      then show ?thesis by (simp only: power_add)
    qed
    also have "\<dots> \<le> n" using bl by (intro byte_length_lower) (cases n; simp)
    finally show ?thesis .
  next
    case False
    then have "exponent n - 3 = Suc (byte_length n - 3)" using bl by (simp add: exponent_def)
    then have "2 ^ 15 * 256 ^ (exponent n - 3) = (2 ^ 23 :: nat) * 256 ^ (byte_length n - 3)" by simp
    also have "\<dots> \<le> n div 256 ^ (byte_length n - 3) * 256 ^ (byte_length n - 3)"
      using False top by (intro mult_right_mono) simp_all
    also have "\<dots> \<le> n" by simp
    finally show ?thesis .
  qed
qed

lemma truncated_le: "truncated n \<le> n"
  by (simp add: truncated_def)

lemma truncated_error: "(n - truncated n) * 2 ^ 15 \<le> n"
proof (cases "exponent n \<le> 3")
  case False
  have "n - truncated n = n mod 256 ^ (exponent n - 3)"
    by (simp add: truncated_def minus_div_mult_eq_mod)
  also have "\<dots> \<le> 256 ^ (exponent n - 3)" by (simp add: less_imp_le)
  finally have "(n - truncated n) * 2 ^ 15 \<le> 2 ^ 15 * 256 ^ (exponent n - 3)" by simp
  also have "\<dots> \<le> n" using False by (intro dropped_bytes) simp
  finally show ?thesis .
qed (simp add: truncated_small)

lemma byte_length_truncated: "byte_length (truncated n) = byte_length n"
proof (cases "exponent n \<le> 3")
  case False
  let ?k = "exponent n - 3" and ?l = "byte_length n - 1"
  have bl: "3 \<le> byte_length n" using False by (intro dropped_bytes) simp
  have "?k \<le> ?l" by (auto simp: exponent_def)
  then have "(256 :: nat) ^ ?l = 256 ^ (?l - ?k) * 256 ^ ?k" by (simp flip: power_add)
  moreover have "256 ^ ?l \<le> n" using bl by (intro byte_length_lower) (cases n; simp)
  ultimately have "256 ^ (?l - ?k) \<le> n div 256 ^ ?k" by (simp add: less_eq_div_iff_mult_less_eq)
  then have "256 ^ ?l \<le> truncated n"
    using \<open>256 ^ ?l = 256 ^ (?l - ?k) * 256 ^ ?k\<close> by (simp add: truncated_def)
  moreover have "truncated n < 256 ^ Suc ?l"
    using truncated_le [of n] byte_length_upper [of n] bl by simp
  ultimately show ?thesis using byte_length_unique [of ?l "truncated n"] bl by simp
qed (simp add: truncated_small)

lemma truncated_parts: "mantissa (truncated n) = mantissa n" "exponent (truncated n) = exponent n"
proof -
  have "mantissa (truncated n) = mantissa n \<and> exponent (truncated n) = exponent n"
  proof (cases "exponent n \<le> 3")
    case False
    let ?p = "(256 :: nat) ^ (byte_length n - 3)"
    have bl: "3 \<le> byte_length n" and top: "top_bytes n = n div ?p"
      using False by (intro dropped_bytes; simp)+
    have top': "top_bytes (truncated n) = truncated n div ?p"
      using bl by (auto simp: top_bytes_def byte_length_truncated)
    show ?thesis
    proof (cases "top_bytes n < 2 ^ 23")
      case True
      then have "truncated n = n div ?p * ?p" by (simp add: truncated_def exponent_def)
      then have "top_bytes (truncated n) = top_bytes n" using top top' by simp
      then show ?thesis by (simp add: mantissa_def exponent_def byte_length_truncated)
    next
      case big: False
      then have "exponent n - 3 = Suc (byte_length n - 3)" using bl by (simp add: exponent_def)
      then have "truncated n = n div ?p div 256 * 256 * ?p"
        by (simp add: truncated_def mult.commute flip: div_mult2_eq)
      then have "top_bytes (truncated n) = top_bytes n div 256 * 256" using top top' by simp
      moreover have "\<not> top_bytes n div 256 * 256 < 2 ^ 23" using big by simp
      ultimately show ?thesis using big by (simp add: mantissa_def exponent_def byte_length_truncated)
    qed
  qed (simp add: truncated_small)
  then show "mantissa (truncated n) = mantissa n" "exponent (truncated n) = exponent n" by simp_all
qed

text \<open>
  C20. Writing a target in compact form never fails an assertion; reading it back gives a target
  that is at most the original, loses at most a \<open>2 ^ 15\<close>th of it, and has the same compact form.
\<close>

theorem compact_approximates:
  "\<exists>c v'. from_u256 v = Ok c \<and> to_u256 c = Ok v' \<and> v' \<le> v \<and> (unat v - unat v') * 2 ^ 15 \<le> unat v
           \<and> from_u256 v' = Ok c"
proof -
  let ?n = "unat v"
  let ?c = "word_of_nat (mantissa ?n + exponent ?n * 2 ^ 24) :: compact"
  let ?v = "word_of_nat (truncated ?n) :: u256"
  have v': "unat ?v = truncated ?n"
    using truncated_le [of ?n] unat_u256_less [of v] by (simp add: unat_of_nat)
  have "from_u256 v = Ok ?c" "to_u256 ?c = Ok ?v" by (rule from_u256_eq, rule to_u256_from_u256)
  moreover have "?v \<le> v" using truncated_le [of ?n] by (simp add: word_le_nat_alt v')
  moreover have "(?n - unat ?v) * 2 ^ 15 \<le> ?n" unfolding v' by (rule truncated_error)
  moreover have "from_u256 ?v = Ok ?c" unfolding from_u256_eq v' truncated_parts ..
  ultimately show ?thesis by blast
qed

end
