(* ===== verification/Network.thy ===== *)
theory Network
  imports Compact Chain
begin

text \<open>
  The \<open>network\<close> crate: the networks with their magic numbers, ports and maximal targets
  (\<open>network.rs\<close>), the consensus parameters and the limits that depend on the fork
  (\<open>consensus.rs\<close>), and version-bits deployments (\<open>deployments.rs\<close>).  The genesis blocks, given
  as hexadecimal literals, are not part of the model.
\<close>

section \<open>Networks\<close>

datatype network = Mainnet | Testnet | Regtest | Unitest | Other u32

record bitcoin_cash_params =
  bc_height :: u32
  bc_difficulty_adjustion_height :: u32
  bc_monolith_time :: u32
  bc_magnetic_anomaly_time :: u32

datatype consensus_fork = BitcoinCore | BitcoinCash bitcoin_cash_params

fun network_magic :: "network \<Rightarrow> consensus_fork \<Rightarrow> u32" where
  "network_magic Mainnet (BitcoinCash _) = 0xE8F3E1E3"
| "network_magic Testnet (BitcoinCash _) = 0xF4F3E5F4"
| "network_magic Regtest (BitcoinCash _) = 0xFABFB5DA"
| "network_magic Mainnet BitcoinCore = 0xD9B4BEF9"
| "network_magic Testnet BitcoinCore = 0x0709110B"
| "network_magic Regtest BitcoinCore = 0xDAB5BFFA"
| "network_magic Unitest _ = 0"
| "network_magic (Other v) _ = v"

text \<open>The three literals of \<open>lazy_static!\<close>, and the maximal compact target for unit tests.\<close>

definition MAX_BITS_MAINNET :: u256 where
  "MAX_BITS_MAINNET = 0x00000000ffffffffffffffffffffffffffffffffffffffffffffffffffffffff"

definition MAX_BITS_TESTNET :: u256 where
  "MAX_BITS_TESTNET = 0x00000000ffffffffffffffffffffffffffffffffffffffffffffffffffffffff"

definition MAX_BITS_REGTEST :: u256 where
  "MAX_BITS_REGTEST = 0x7fffffffffffffffffffffffffffffffffffffffffffffffffffffffffffffff"

fun network_max_bits :: "network \<Rightarrow> ('e, u256) outcome" where
  "network_max_bits Mainnet = Ok MAX_BITS_MAINNET"
| "network_max_bits (Other _) = Ok MAX_BITS_MAINNET"
| "network_max_bits Testnet = Ok MAX_BITS_TESTNET"
| "network_max_bits Regtest = Ok MAX_BITS_REGTEST"
| "network_max_bits Unitest = and_then compact_max_value (\<lambda>c. Ok (u256_from_compact c))"

fun network_port :: "network \<Rightarrow> u16" where
  "network_port Mainnet = 8333"
| "network_port (Other _) = 8333"
| "network_port Testnet = 18333"
| "network_port Regtest = 18444"
| "network_port Unitest = 18444"

fun network_rpc_port :: "network \<Rightarrow> u16" where
  "network_rpc_port Mainnet = 8332"
| "network_rpc_port (Other _) = 8332"
| "network_rpc_port Testnet = 18332"
| "network_rpc_port Regtest = 18443"
| "network_rpc_port Unitest = 18443"


section \<open>Deployments\<close>

record deployment =
  dp_name :: string
  dp_bit :: u8
  dp_start_time :: u32
  dp_timeout :: u32
  dp_activation :: "u32 option"

definition VERSIONBITS_TOP_MASK :: u32 where "VERSIONBITS_TOP_MASK = 0xe0000000"
definition VERSIONBITS_TOP_BITS :: u32 where "VERSIONBITS_TOP_BITS = 0x20000000"

text \<open>The shift overflows for a bit number of 32 or more; \<open>&&\<close> evaluates it only for version-bits headers.\<close>

definition deployment_matches :: "deployment \<Rightarrow> u32 \<Rightarrow> ('e, bool) outcome" where
  "deployment_matches d version =
     (if version AND VERSIONBITS_TOP_MASK \<noteq> VERSIONBITS_TOP_BITS then Ok False
      else if unat (dp_bit d) \<ge> 32 then Panic
      else Ok (version AND push_bit (unat (dp_bit d)) 1 \<noteq> 0))"


section \<open>Consensus parameters\<close>

record consensus_params =
  cp_network :: network
  cp_bip16_time :: u32
  cp_bip34_height :: u32
  cp_bip65_height :: u32
  cp_bip66_height :: u32
  cp_fork :: consensus_fork
  cp_rule_change_activation_threshold :: u32
  cp_miner_confirmation_window :: u32
  cp_csv_deployment :: "deployment option"
  cp_segwit_deployment :: "deployment option"

definition segwit_unless_cash :: "consensus_fork \<Rightarrow> deployment \<Rightarrow> deployment option" where
  "segwit_unless_cash fork d = (case fork of BitcoinCore \<Rightarrow> Some d | BitcoinCash _ \<Rightarrow> None)"

definition mainnet_params :: "network \<Rightarrow> consensus_fork \<Rightarrow> consensus_params" where
  "mainnet_params net fork =
     \<lparr> cp_network = net, cp_bip16_time = 1333238400, cp_bip34_height = 227931, cp_bip65_height = 388381,
       cp_bip66_height = 363725, cp_fork = fork, cp_rule_change_activation_threshold = 1916,
       cp_miner_confirmation_window = 2016,
       cp_csv_deployment = Some \<lparr> dp_name = ''csv'', dp_bit = 0, dp_start_time = 1462060800,
         dp_timeout = 1493596800, dp_activation = Some 419328 \<rparr>,
       cp_segwit_deployment = segwit_unless_cash fork \<lparr> dp_name = ''segwit'', dp_bit = 1,
         dp_start_time = 1479168000, dp_timeout = 1510704000, dp_activation = Some 481824 \<rparr> \<rparr>"

definition testnet_params :: "network \<Rightarrow> consensus_fork \<Rightarrow> consensus_params" where
  "testnet_params net fork =
     \<lparr> cp_network = net, cp_bip16_time = 1333238400, cp_bip34_height = 21111, cp_bip65_height = 581885,
       cp_bip66_height = 330776, cp_fork = fork, cp_rule_change_activation_threshold = 1512,
       cp_miner_confirmation_window = 2016,
       cp_csv_deployment = Some \<lparr> dp_name = ''csv'', dp_bit = 0, dp_start_time = 1456790400,
         dp_timeout = 1493596800, dp_activation = Some 770112 \<rparr>,
       cp_segwit_deployment = segwit_unless_cash fork \<lparr> dp_name = ''segwit'', dp_bit = 1,
         dp_start_time = 1462060800, dp_timeout = 1493596800, dp_activation = Some 834624 \<rparr> \<rparr>"

definition regtest_params :: "network \<Rightarrow> consensus_fork \<Rightarrow> consensus_params" where
  "regtest_params net fork =
     \<lparr> cp_network = net, cp_bip16_time = 1333238400, cp_bip34_height = 100000000, cp_bip65_height = 1351,
       cp_bip66_height = 1251, cp_fork = fork, cp_rule_change_activation_threshold = 108,
       cp_miner_confirmation_window = 144,
       cp_csv_deployment = Some \<lparr> dp_name = ''csv'', dp_bit = 0, dp_start_time = 0,
         dp_timeout = 0, dp_activation = Some 0 \<rparr>,
       cp_segwit_deployment = segwit_unless_cash fork \<lparr> dp_name = ''segwit'', dp_bit = 1,
         dp_start_time = 0, dp_timeout = 0xffffffff, dp_activation = None \<rparr> \<rparr>"

fun consensus_params_new :: "network \<Rightarrow> consensus_fork \<Rightarrow> consensus_params" where
  "consensus_params_new Mainnet fork = mainnet_params Mainnet fork"
| "consensus_params_new (Other v) fork = mainnet_params (Other v) fork"
| "consensus_params_new Testnet fork = testnet_params Testnet fork"
| "consensus_params_new Regtest fork = regtest_params Regtest fork"
| "consensus_params_new Unitest fork = regtest_params Unitest fork"

fun bitcoin_cash_params_new :: "network \<Rightarrow> bitcoin_cash_params" where
  "bitcoin_cash_params_new net =
     (let (height, adjustion) =
        (case net of Mainnet \<Rightarrow> (478559, 504031) | Other _ \<Rightarrow> (478559, 504031)
         | Testnet \<Rightarrow> (1155876, 1188697) | Regtest \<Rightarrow> (0, 0) | Unitest \<Rightarrow> (0, 0)) in
      \<lparr> bc_height = height, bc_difficulty_adjustion_height = adjustion,
        bc_monolith_time = 1526400000, bc_magnetic_anomaly_time = 1542300000 \<rparr>)"

definition consensus_magic :: "consensus_params \<Rightarrow> u32" where
  "consensus_magic p = network_magic (cp_network p) (cp_fork p)"

text \<open>A hash given as the hexadecimal literal of its reversed bytes is the little-endian form of the number.\<close>

definition is_bip30_exception :: "bytes \<Rightarrow> u32 \<Rightarrow> bool" where
  "is_bip30_exception hash height \<longleftrightarrow>
     (height = 91842
        \<and> hash = le_bytes 32 0x00000000000a4d0a398161ffc163c503763b1f4360639393e0e4c8e300e0caec)
     \<or> (height = 91880
        \<and> hash = le_bytes 32 0x00000000000743f190a18c5577a3c2d2a1f610ae9601ac046a38084ccb7cd721)"

definition is_segwit_possible :: "consensus_params \<Rightarrow> bool" where
  "is_segwit_possible p =
     (case cp_fork p of BitcoinCore \<Rightarrow> cp_network p \<noteq> Regtest | BitcoinCash _ \<Rightarrow> False)"


section \<open>Limits of the forks\<close>

datatype transaction_ordering = Topological | Canonical

definition absolute_maximum_block_size :: nat where "absolute_maximum_block_size = 32000000"
definition absolute_maximum_block_sigops :: nat where "absolute_maximum_block_sigops = 160000"
definition witness_scale_factor :: nat where "witness_scale_factor = 4"

fun activation_height :: "consensus_fork \<Rightarrow> u32" where
  "activation_height BitcoinCore = 0"
| "activation_height (BitcoinCash fork) = bc_height fork"

fun min_transaction_size :: "consensus_fork \<Rightarrow> u32 \<Rightarrow> nat" where
  "min_transaction_size (BitcoinCash fork) median_time_past =
     (if median_time_past \<ge> bc_magnetic_anomaly_time fork then 100 else 0)"
| "min_transaction_size BitcoinCore median_time_past = 0"

definition max_transaction_size :: nat where "max_transaction_size = 1000000"

fun min_block_size :: "consensus_fork \<Rightarrow> u32 \<Rightarrow> nat" where
  "min_block_size (BitcoinCash fork) height = (if height = bc_height fork then 1000001 else 0)"
| "min_block_size BitcoinCore height = 0"

fun max_block_size :: "consensus_fork \<Rightarrow> u32 \<Rightarrow> u32 \<Rightarrow> nat" where
  "max_block_size (BitcoinCash fork) height median_time_past =
     (if median_time_past \<ge> bc_monolith_time fork then 32000000
      else if height \<ge> bc_height fork then 8000000
      else 1000000)"
| "max_block_size BitcoinCore height median_time_past = 1000000"

fun max_block_sigops :: "consensus_fork \<Rightarrow> u32 \<Rightarrow> nat \<Rightarrow> ('e, nat) outcome" where
  "max_block_sigops (BitcoinCash fork) height block_size =
     (if height \<ge> bc_height fork then
        if block_size = 0 then Panic else Ok (20000 * (1 + (block_size - 1) div 1000000))
      else Ok 20000)"
| "max_block_sigops BitcoinCore height block_size = Ok 20000"

fun max_block_sigops_cost :: "consensus_fork \<Rightarrow> u32 \<Rightarrow> nat \<Rightarrow> ('e, nat) outcome" where
  "max_block_sigops_cost (BitcoinCash fork) height block_size =
     and_then (max_block_sigops (BitcoinCash fork) height block_size) (\<lambda>n. Ok (n * witness_scale_factor))"
| "max_block_sigops_cost BitcoinCore height block_size = Ok 80000"

fun max_block_weight :: "consensus_fork \<Rightarrow> ('e, nat) outcome" where
  "max_block_weight BitcoinCore = Ok 4000000"
| "max_block_weight (BitcoinCash _) = Panic"

fun fork_transaction_ordering :: "consensus_fork \<Rightarrow> u32 \<Rightarrow> transaction_ordering" where
  "fork_transaction_ordering (BitcoinCash fork) median_time_past =
     (if median_time_past \<ge> bc_magnetic_anomaly_time fork then Canonical else Topological)"
| "fork_transaction_ordering BitcoinCore median_time_past = Topological"

end
