(* ===== verification/Storage.thy ===== *)
theory Storage
  imports Network
begin

text \<open>
  The \<open>storage\<close> crate: references to blocks, the iterators over headers, the providers of headers
  and previous outputs, and the index entry of a transaction.

  A provider is a trait object in the sources and a function or a record of functions here.  The
  \<open>bit-vec\<close> crate is a parameter: a bit vector is the list of its bits, and the two conversions
  between bit vectors and bytes are the record \<open>bit_vec_crate\<close>, whose documented behaviour is
  \<open>bit_vec_pads\<close>.
\<close>

section \<open>Headers\<close>

datatype block_ref = Number u32 | Hash bytes

type_synonym header_provider = "block_ref \<Rightarrow> indexed_header option"

record best_block =
  bb_number :: u32
  bb_hash :: bytes

definition best_block_default :: best_block where
  "best_block_default = \<lparr> bb_number = 0, bb_hash = replicate 32 0 \<rparr>"

text \<open>The first \<open>n\<close> items of \<open>BlockAncestors\<close>: a block and its ancestors, following parent hashes.\<close>

fun block_ancestors :: "header_provider \<Rightarrow> block_ref \<Rightarrow> nat \<Rightarrow> indexed_header list" where
  "block_ancestors headers block 0 = []"
| "block_ancestors headers block (Suc n) =
     (case headers block of
        None \<Rightarrow> []
      | Some header \<Rightarrow> header # block_ancestors headers (Hash (bh_previous_header_hash (ih_raw header))) n)"

text \<open>One step of \<open>BlockIterator\<close>: every \<open>period\<close>th header; the block number is increased without a check.\<close>

record block_iterator =
  bi_block :: u32
  bi_period :: u32

definition block_iterator_next ::
    "header_provider \<Rightarrow> block_iterator \<Rightarrow> ('e, (u32 \<times> indexed_header) option \<times> block_iterator) outcome" where
  "block_iterator_next headers it =
     (let result = headers (Number (bi_block it)) in
      if unat (bi_block it) + unat (bi_period it) \<ge> 2 ^ 32 then Panic
      else Ok (map_option (\<lambda>header. (bi_block it, header)) result, it\<lparr>bi_block := bi_block it + bi_period it\<rparr>))"


section \<open>Errors and origins\<close>

datatype db_error = DatabaseError string | CannotCanonize | CannotDecanonize | UnknownParent | AncientFork

record side_chain_origin =
  sc_ancestor :: u32
  sc_canonized_route :: "bytes list"
  sc_decanonized_route :: "bytes list"
  sc_block_number :: u32

datatype block_origin =
    KnownBlock
  | CanonChain u32
  | SideChain side_chain_origin
  | SideChainBecomingCanonChain side_chain_origin


section \<open>Previous outputs\<close>

record output_provider =
  transaction_output :: "out_point \<Rightarrow> nat \<Rightarrow> transaction_output option"
  is_spent :: "out_point \<Rightarrow> bool"

definition usize_max :: nat where "usize_max = 0xffffffffffffffff"

text \<open>\<open>block_impls.rs\<close>: the transactions of a block as previous transactions.\<close>

definition txs_output :: "indexed_transaction list \<Rightarrow> out_point \<Rightarrow> transaction_output option" where
  "txs_output txs prevout =
     (case find (\<lambda>tx. it_hash tx = op_hash prevout) txs of
        None \<Rightarrow> None
      | Some tx \<Rightarrow>
          (if unat (op_index prevout) < length (tx_outputs (it_raw tx))
           then Some (tx_outputs (it_raw tx) ! unat (op_index prevout)) else None))"

definition txs_is_spent :: "indexed_transaction list \<Rightarrow> out_point \<Rightarrow> bool" where
  "txs_is_spent txs prevout =
     (length (take 2 (filter (\<lambda>i. ti_previous_output i = prevout) (concat (map (\<lambda>tx. tx_inputs (it_raw tx)) txs)))) = 2)"

definition block_outputs :: "indexed_block \<Rightarrow> output_provider" where
  "block_outputs b =
     \<lparr> transaction_output = (\<lambda>prevout i. txs_output (take (min i (length (ib_transactions b))) (ib_transactions b)) prevout),
       is_spent = txs_is_spent (ib_transactions b) \<rparr>"

definition duplex :: "output_provider \<Rightarrow> output_provider \<Rightarrow> output_provider" where
  "duplex first second =
     \<lparr> transaction_output = (\<lambda>prevout i.
         case transaction_output first prevout i of
           Some o1 \<Rightarrow> Some o1
         | None \<Rightarrow> transaction_output second prevout i),
       is_spent = (\<lambda>prevout. is_spent first prevout \<or> is_spent second prevout) \<rparr>"

definition noop_store :: output_provider where
  "noop_store = \<lparr> transaction_output = (\<lambda>_ _. None), is_spent = (\<lambda>_. False) \<rparr>"

fun transaction_index_for_output_check :: "transaction_ordering \<Rightarrow> nat \<Rightarrow> nat" where
  "transaction_index_for_output_check Topological tx_idx = tx_idx"
| "transaction_index_for_output_check Canonical tx_idx = usize_max"

text \<open>
  \<open>CachedTransactionOutputProvider\<close>: the cache is a map from out points to answers, and a lookup
  returns the updated cache.
\<close>

type_synonym output_cache = "(out_point \<times> transaction_output option) list"

definition cached_transaction_output ::
    "output_provider \<Rightarrow> output_cache \<Rightarrow> out_point \<Rightarrow> nat \<Rightarrow> transaction_output option \<times> output_cache" where
  "cached_transaction_output backend cache outpoint i =
     (case map_of cache outpoint of
        Some v \<Rightarrow> (v, cache)
      | None \<Rightarrow> let v = transaction_output backend outpoint i in (v, (outpoint, v) # cache))"

definition cached_is_spent :: "output_provider \<Rightarrow> out_point \<Rightarrow> bool" where
  "cached_is_spent backend outpoint = is_spent backend outpoint"

text \<open>Every entry of the cache is the answer of a backend that does not look at the index.\<close>

definition cache_ok :: "output_provider \<Rightarrow> output_cache \<Rightarrow> bool" where
  "cache_ok backend cache \<longleftrightarrow>
     list_all (\<lambda>(p, v). v = transaction_output backend p 0) cache"

fun cached_lookups ::
    "output_provider \<Rightarrow> output_cache \<Rightarrow> (out_point \<times> nat) list \<Rightarrow> transaction_output option list" where
  "cached_lookups backend cache [] = []"
| "cached_lookups backend cache ((p, i) # qs) =
     (case cached_transaction_output backend cache p i of
        (v, cache) \<Rightarrow> v # cached_lookups backend cache qs)"

lemma cached_lookups_backend:
  assumes "\<And>p i j. transaction_output backend p i = transaction_output backend p j"
    and "cache_ok backend cache"
  shows "cached_lookups backend cache qs = map (\<lambda>(p, i). transaction_output backend p i) qs"
  using assms(2)
proof (induction qs arbitrary: cache)
  case (Cons q qs)
  obtain p i where q: "q = (p, i)" by force
  have "map_of cache p = Some v \<Longrightarrow> v = transaction_output backend p i" for v
    using Cons.prems assms(1) [of p i 0]
    by (auto dest!: map_of_SomeD simp: cache_ok_def list_all_iff)
  moreover have "cache_ok backend ((p, transaction_output backend p i) # cache)"
    using Cons.prems assms(1) [of p i 0] by (simp add: cache_ok_def)
  ultimately show ?case
    using Cons.IH Cons.prems
    by (auto simp: q cached_transaction_output_def Let_def split: option.splits)
qed simp


section \<open>The index entry of a transaction\<close>

record transaction_meta =
  tm_block_height :: u32
  tm_bits :: "bool list"

record bit_vec_crate =
  bv_to_bytes :: "bool list \<Rightarrow> bytes"
  bv_from_bytes :: "bytes \<Rightarrow> bool list"

text \<open>\<open>BitVec::set\<close> panics out of range.\<close>

definition bit_vec_set :: "bool list \<Rightarrow> nat \<Rightarrow> bool \<Rightarrow> ('e, bool list) outcome" where
  "bit_vec_set bits i x = (if i < length bits then Ok (bits[i := x]) else Panic)"

definition meta_new :: "u32 \<Rightarrow> nat \<Rightarrow> transaction_meta" where
  "meta_new block_height outputs = \<lparr> tm_block_height = block_height, tm_bits = replicate (outputs + 1) False \<rparr>"

definition meta_new_coinbase :: "u32 \<Rightarrow> nat \<Rightarrow> ('e, transaction_meta) outcome" where
  "meta_new_coinbase block_height outputs =
     (let result = meta_new block_height outputs in
      and_then (bit_vec_set (tm_bits result) 0 True) (\<lambda>bits. Ok (result\<lparr>tm_bits := bits\<rparr>)))"

definition meta_is_coinbase :: "transaction_meta \<Rightarrow> ('e, bool) outcome" where
  "meta_is_coinbase m = index (tm_bits m) 0"

definition denote_used :: "transaction_meta \<Rightarrow> nat \<Rightarrow> ('e, transaction_meta) outcome" where
  "denote_used m i = and_then (bit_vec_set (tm_bits m) (i + 1) True) (\<lambda>bits. Ok (m\<lparr>tm_bits := bits\<rparr>))"

definition denote_unused :: "transaction_meta \<Rightarrow> nat \<Rightarrow> ('e, transaction_meta) outcome" where
  "denote_unused m i = and_then (bit_vec_set (tm_bits m) (i + 1) False) (\<lambda>bits. Ok (m\<lparr>tm_bits := bits\<rparr>))"

definition meta_is_spent :: "transaction_meta \<Rightarrow> nat \<Rightarrow> bool option" where
  "meta_is_spent m i = (if i + 1 < length (tm_bits m) then Some (tm_bits m ! (i + 1)) else None)"

definition is_fully_spent :: "transaction_meta \<Rightarrow> bool" where
  "is_fully_spent m = list_all (\<lambda>x. x) (drop 1 (tm_bits m))"

definition serialize_meta :: "bit_vec_crate \<Rightarrow> transaction_meta \<Rightarrow> bytes" where
  "serialize_meta bv m = serialize_u32 (tm_block_height m) @ serialize_bytes (bv_to_bytes bv (tm_bits m))"

definition read_meta :: "bit_vec_crate \<Rightarrow> transaction_meta deserializer" where
  "read_meta bv r =
     and_then (read_u32 r) (\<lambda>(block_height, r).
     and_then (read_bytes r) (\<lambda>(bits, r).
       Ok (\<lparr> tm_block_height = block_height, tm_bits = bv_from_bytes bv bits \<rparr>, r)))"

text \<open>
  The documentation of \<open>BitVec\<close>: \<open>to_bytes\<close> fills the last byte with zero bits, and \<open>from_bytes\<close>
  makes eight bits of each byte.
\<close>

definition padding :: "nat \<Rightarrow> nat" where
  "padding n = (8 - n mod 8) mod 8"

definition bit_vec_pads :: "bit_vec_crate \<Rightarrow> bool" where
  "bit_vec_pads bv \<longleftrightarrow>
     (\<forall>bits. bv_from_bytes bv (bv_to_bytes bv bits) = bits @ replicate (padding (length bits)) False
             \<and> 8 * length (bv_to_bytes bv bits) = length bits + padding (length bits))"

lemma deserialize_yields: "yields (de (reader_new bs)) x [] \<Longrightarrow> deserialize de bs = Ok x"
  by (auto simp: yields_def deserialize_def is_finished_iff)

text \<open>What is read back from the written form of an entry: its bits, and the padding as further bits.\<close>

lemma read_meta_padded:
  assumes pads: "bit_vec_pads bv" and len: "length (tm_bits m) < 2 ^ 63"
  shows "deserialize (read_meta bv) (serialize_meta bv m)
           = Ok (m\<lparr>tm_bits := tm_bits m @ replicate (padding (length (tm_bits m))) False\<rparr>)"
proof (rule deserialize_yields)
  have "8 * length (bv_to_bytes bv (tm_bits m)) = length (tm_bits m) + padding (length (tm_bits m))"
    using pads by (simp add: bit_vec_pads_def)
  moreover have "padding (length (tm_bits m)) < 8" by (simp add: padding_def)
  ultimately have short: "length (bv_to_bytes bv (tm_bits m)) < 2 ^ 63" using len by linarith
  have bits: "bv_from_bytes bv (bv_to_bytes bv (tm_bits m))
      = tm_bits m @ replicate (padding (length (tm_bits m))) False"
    using pads by (simp add: bit_vec_pads_def)
  show "yields (read_meta bv (reader_new (serialize_meta bv m)))
      (m\<lparr>tm_bits := tm_bits m @ replicate (padding (length (tm_bits m))) False\<rparr>) []"
    unfolding read_meta_def
    by (rule u32.reads_bind [OF TrueI, where x = "tm_block_height m"], simp add: serialize_meta_def)
      (auto intro!: byte_string.reads_bind [OF short, where rest = "[]"] simp: bits)
qed

lemma nth_append_padding: "i < length bits \<Longrightarrow> (bits @ replicate n False) ! i = bits ! i"
  by (simp add: nth_append)

text \<open>
  C37. An index entry that goes through its written form keeps the spent bit of every output, but
  unless the number of outputs plus one is a multiple of eight a fully spent transaction is read
  back as one that is not fully spent: the padding bits count as unspent outputs.
\<close>

theorem fully_spent_lost:
  assumes "bit_vec_pads bv" and "length (tm_bits m) < 2 ^ 63"
    and "is_fully_spent m" and "length (tm_bits m) mod 8 \<noteq> 0"
  shows "\<exists>m'. deserialize (read_meta bv) (serialize_meta bv m) = Ok m' \<and> \<not> is_fully_spent m'
           \<and> tm_block_height m' = tm_block_height m
           \<and> (\<forall>i spent. meta_is_spent m i = Some spent \<longrightarrow> meta_is_spent m' i = Some spent)"
proof -
  let ?m = "m\<lparr>tm_bits := tm_bits m @ replicate (padding (length (tm_bits m))) False\<rparr>"
  have "0 < padding (length (tm_bits m))"
    using assms(4) mod_less_divisor [of 8 "length (tm_bits m)"] by (simp add: padding_def)
  moreover have "tm_bits m \<noteq> []" using assms(4) by auto
  ultimately have "\<not> is_fully_spent ?m" by (cases "tm_bits m") (auto simp: is_fully_spent_def list_all_iff)
  moreover have "meta_is_spent m i = Some spent \<Longrightarrow> meta_is_spent ?m i = Some spent" for i spent
    by (auto simp: meta_is_spent_def nth_append_padding split: if_splits)
  ultimately show ?thesis using read_meta_padded [OF assms(1,2)] by auto
qed

text \<open>An implementation with the documented behaviour.\<close>

definition msb_bits :: "u8 \<Rightarrow> bool list" where
  "msb_bits b = map (\<lambda>i. bit b (7 - i)) [0..<8]"

function pack_bits :: "bool list \<Rightarrow> bytes" where
  "pack_bits bits =
     (if bits = [] then []
      else horner_sum of_bool 2 (rev (take 8 (bits @ replicate 7 False))) # pack_bits (drop 8 bits))"
  by pat_completeness auto
termination by (relation "measure length") auto

declare pack_bits.simps [simp del]

definition packed_bit_vec :: bit_vec_crate where
  "packed_bit_vec = \<lparr> bv_to_bytes = pack_bits, bv_from_bytes = (\<lambda>bs. concat (map msb_bits bs)) \<rparr>"

lemma msb_bits_pack: "length xs = 8 \<Longrightarrow> msb_bits (horner_sum of_bool 2 (rev xs)) = xs"
  by (rule nth_equalityI) (auto simp: msb_bits_def bit_horner_sum_bit_iff rev_nth)

lemma unpack_pack:
  "concat (map msb_bits (pack_bits bits)) = bits @ replicate (padding (length bits)) False
   \<and> 8 * length (pack_bits bits) = length bits + padding (length bits)"
proof (induction bits rule: pack_bits.induct)
  case (1 bits)
  consider "bits = []" | "bits \<noteq> []" "length bits < 8" | "8 \<le> length bits" by linarith
  then show ?case
  proof cases
    case 1
    then show ?thesis by (simp add: pack_bits.simps padding_def)
  next
    case 2
    then have "padding (length bits) = 8 - length bits" by (cases "length bits") (auto simp: padding_def)
    moreover have "min (8 - length bits) 7 = 8 - length bits" using 2 by (cases bits) auto
    then have "pack_bits bits = [horner_sum of_bool 2 (rev (bits @ replicate (8 - length bits) False))]"
      using 2 by (simp add: pack_bits.simps [of bits] pack_bits.simps [of "[]"])
    ultimately show ?thesis using 2 msb_bits_pack [of "bits @ replicate (8 - length bits) False"] by simp
  next
    case 3
    then have "padding (length (drop 8 bits)) = padding (length bits)"
      by (simp add: padding_def le_mod_geq)
    moreover have "msb_bits (horner_sum of_bool 2 (rev (take 8 bits))) = take 8 bits"
      using 3 by (intro msb_bits_pack) simp
    moreover have "pack_bits bits = horner_sum of_bool 2 (rev (take 8 bits)) # pack_bits (drop 8 bits)"
      using 3 by (subst pack_bits.simps) auto
    moreover have "bits \<noteq> []" using 3 by auto
    note "1.IH" [OF this]
    ultimately show ?thesis using 3 append_take_drop_id [of 8 bits] by (simp flip: append_assoc)
  qed
qed

lemma packed_bit_vec_pads: "bit_vec_pads packed_bit_vec"
  using unpack_pack by (simp add: bit_vec_pads_def packed_bit_vec_def)

theorem fully_spent_lost_witness:
  "is_fully_spent \<lparr> tm_block_height = 7, tm_bits = [False, True] \<rparr>
   \<and> (\<exists>m'. deserialize (read_meta packed_bit_vec)
             (serialize_meta packed_bit_vec \<lparr> tm_block_height = 7, tm_bits = [False, True] \<rparr>) = Ok m'
           \<and> \<not> is_fully_spent m' \<and> meta_is_spent m' 0 = Some True)"
proof -
  let ?m = "\<lparr> tm_block_height = 7, tm_bits = [False, True] \<rparr> :: transaction_meta"
  have full: "is_fully_spent ?m" by (simp add: is_fully_spent_def)
  have "meta_is_spent ?m 0 = Some True" by (simp add: meta_is_spent_def)
  then show ?thesis using fully_spent_lost [OF packed_bit_vec_pads, of ?m] full by auto
qed

end
