(* ===== verification/Work.thy ===== *)
theory Work
  imports Storage
begin

text \<open>
  Proof of work and time: \<open>verification/src/constants.rs\<close>, \<open>timestamp.rs\<close>, \<open>work.rs\<close> and
  \<open>work_bch.rs\<close>.

  A header provider is an argument.  \<open>expect\<close> on a missing header, arithmetic that leaves its type
  and failed assertions panic; the loop of \<open>compute_work_between_blocks\<close>, which follows parents until
  it meets a given hash, is a partial function whose divergence is \<open>None\<close>.
\<close>

section \<open>Constants\<close>

definition BLOCK_MAX_FUTURE :: int where "BLOCK_MAX_FUTURE = 2 * 60 * 60"
definition COINBASE_MATURITY :: u32 where "COINBASE_MATURITY = 100"
definition MIN_COINBASE_SIZE :: nat where "MIN_COINBASE_SIZE = 2"
definition MAX_COINBASE_SIZE :: nat where "MAX_COINBASE_SIZE = 100"
definition RETARGETING_FACTOR :: u32 where "RETARGETING_FACTOR = 4"
definition TARGET_SPACING_SECONDS :: u32 where "TARGET_SPACING_SECONDS = 10 * 60"
definition DOUBLE_SPACING_SECONDS :: u32 where "DOUBLE_SPACING_SECONDS = 2 * TARGET_SPACING_SECONDS"
definition TARGET_TIMESPAN_SECONDS :: u32 where "TARGET_TIMESPAN_SECONDS = 2 * 7 * 24 * 60 * 60"
definition MIN_TIMESPAN :: u32 where "MIN_TIMESPAN = TARGET_TIMESPAN_SECONDS div RETARGETING_FACTOR"
definition MAX_TIMESPAN :: u32 where "MAX_TIMESPAN = TARGET_TIMESPAN_SECONDS * RETARGETING_FACTOR"
definition RETARGETING_INTERVAL :: u32 where
  "RETARGETING_INTERVAL = TARGET_TIMESPAN_SECONDS div TARGET_SPACING_SECONDS"


section \<open>Checked arithmetic\<close>

definition u32_add :: "u32 \<Rightarrow> u32 \<Rightarrow> ('e, u32) outcome" where
  "u32_add a b = (if unat a + unat b < 2 ^ 32 then Ok (a + b) else Panic)"

definition u32_sub :: "u32 \<Rightarrow> u32 \<Rightarrow> ('e, u32) outcome" where
  "u32_sub a b = (if b \<le> a then Ok (a - b) else Panic)"

definition u256_add :: "(u256 \<Rightarrow> ('e, u256) outcome) \<Rightarrow> u256 \<Rightarrow> u256 \<Rightarrow> ('e, u256) outcome" where
  "u256_add ov a b = (if unat a + unat b < 2 ^ 256 then Ok (a + b) else ov (a + b))"

definition u256_mul :: "(u256 \<Rightarrow> ('e, u256) outcome) \<Rightarrow> u256 \<Rightarrow> u256 \<Rightarrow> ('e, u256) outcome" where
  "u256_mul ov a b = (if unat a * unat b < 2 ^ 256 then Ok (a * b) else ov (a * b))"

definition u256_div :: "u256 \<Rightarrow> u256 \<Rightarrow> ('e, u256) outcome" where
  "u256_div a b = (if b = 0 then Panic else Ok (a div b))"

text \<open>\<open>Option::expect\<close>.\<close>

primrec expect :: "'a option \<Rightarrow> ('e, 'a) outcome" where
  "expect None = Panic"
| "expect (Some x) = Ok x"


section \<open>Timestamps\<close>

definition median_timestamp_inclusive :: "bytes \<Rightarrow> header_provider \<Rightarrow> u32" where
  "median_timestamp_inclusive previous_header_hash store =
     (let timestamps = map (\<lambda>header. bh_time (ih_raw header)) (block_ancestors store (Hash previous_header_hash) 11) in
      if timestamps = [] then 0 else sort timestamps ! (length timestamps div 2))"

definition median_timestamp :: "block_header \<Rightarrow> header_provider \<Rightarrow> u32" where
  "median_timestamp header store = median_timestamp_inclusive (bh_previous_header_hash header) store"


section \<open>Proof of work\<close>

definition is_retarget_height :: "u32 \<Rightarrow> bool" where
  "is_retarget_height height \<longleftrightarrow> height mod RETARGETING_INTERVAL = 0"

definition range_constrain :: "int \<Rightarrow> int \<Rightarrow> int \<Rightarrow> int" where
  "range_constrain v lo hi = min (max v lo) hi"

text \<open>The reversed hash read as a big-endian number is the hash read as a little-endian number.\<close>

definition hash_value :: "bytes \<Rightarrow> u256" where
  "hash_value hash = word_of_nat (le_nat hash)"

definition is_valid_proof_of_work_hash :: "compact \<Rightarrow> bytes \<Rightarrow> bool" where
  "is_valid_proof_of_work_hash bits hash =
     (case to_u256 bits of Ok target \<Rightarrow> hash_value hash \<le> target | _ \<Rightarrow> False)"

definition is_valid_proof_of_work :: "compact \<Rightarrow> compact \<Rightarrow> bytes \<Rightarrow> bool" where
  "is_valid_proof_of_work max_work_bits bits hash =
     (case to_u256 max_work_bits of
        Ok maximum \<Rightarrow>
          (case to_u256 bits of
             Ok target \<Rightarrow> target \<le> maximum \<and> hash_value hash \<le> target
           | _ \<Rightarrow> False)
      | _ \<Rightarrow> False)"

definition retarget_timespan :: "u32 \<Rightarrow> u32 \<Rightarrow> u32" where
  "retarget_timespan retarget_timestamp last_timestamp =
     (let timespan = uint last_timestamp - uint retarget_timestamp in
      word_of_int (range_constrain timespan (uint MIN_TIMESPAN) (uint MAX_TIMESPAN)))"

definition work_required_retarget ::
    "(u256 \<Rightarrow> ('e, u256) outcome) \<Rightarrow> indexed_header \<Rightarrow> u32 \<Rightarrow> header_provider \<Rightarrow> compact \<Rightarrow> ('e, compact) outcome" where
  "work_required_retarget ov parent_header height store max_work_bits =
     and_then (u32_sub height RETARGETING_INTERVAL) (\<lambda>retarget_ref.
     and_then (expect (store (Number retarget_ref))) (\<lambda>retarget_header.
       let retarget_timestamp = bh_time (ih_raw retarget_header);
           last_timestamp = bh_time (ih_raw parent_header);
           last_bits = bh_bits (ih_raw parent_header);
           maximum = u256_from_compact max_work_bits in
       and_then (u256_mul ov (u256_from_compact last_bits) (ucast (retarget_timespan retarget_timestamp last_timestamp))) (\<lambda>retarget.
       and_then (u256_div retarget (ucast TARGET_TIMESPAN_SECONDS)) (\<lambda>retarget.
         if retarget > maximum then Ok max_work_bits else from_u256 retarget))))"

text \<open>The second loop of \<open>work_required_testnet\<close>: the first difficulty that is not the minimal one,
  or the one of the last retarget block.\<close>

fun testnet_bits :: "compact \<Rightarrow> u32 \<Rightarrow> nat \<Rightarrow> compact list \<Rightarrow> ('e, compact) outcome" where
  "testnet_bits max_bits height i [] = Ok max_bits"
| "testnet_bits max_bits height i (b # bs) =
     (if b \<noteq> max_bits then Ok b
      else and_then (and_then (u32_sub height (word_of_nat i)) (\<lambda>x. u32_sub x 1)) (\<lambda>x.
        if is_retarget_height x then Ok b else testnet_bits max_bits height (i + 1) bs))"

definition work_required_testnet ::
    "bytes \<Rightarrow> u32 \<Rightarrow> u32 \<Rightarrow> header_provider \<Rightarrow> network \<Rightarrow> ('e, compact) outcome" where
  "work_required_testnet parent_hash time height store network =
     (if height = 0 then Panic
      else and_then (expect (store (Hash parent_hash))) (\<lambda>parent_header.
        and_then (u32_add (bh_time (ih_raw parent_header)) DOUBLE_SPACING_SECONDS) (\<lambda>max_time_gap.
        and_then (and_then (network_max_bits network) from_u256) (\<lambda>max_bits.
          if time > max_time_gap then Ok max_bits
          else testnet_bits max_bits height 0
                 (map (\<lambda>h. bh_bits (ih_raw h))
                    (block_ancestors store (Hash parent_hash) (unat RETARGETING_INTERVAL)))))))"


section \<open>The adjusted difficulty of Bitcoin Cash\<close>

text \<open>The median by time of three consecutive headers, found by three conditional swaps.\<close>

definition sort3 :: "indexed_header \<Rightarrow> indexed_header \<Rightarrow> indexed_header \<Rightarrow> indexed_header" where
  "sort3 header0 header1 header2 =
     (let (header0, header2) =
            (if bh_time (ih_raw header0) > bh_time (ih_raw header2) then (header2, header0) else (header0, header2));
          (header0, header1) =
            (if bh_time (ih_raw header0) > bh_time (ih_raw header1) then (header1, header0) else (header0, header1));
          (header1, header2) =
            (if bh_time (ih_raw header1) > bh_time (ih_raw header2) then (header2, header1) else (header1, header2)) in
      header1)"

definition suitable_block :: "indexed_header \<Rightarrow> header_provider \<Rightarrow> ('e, indexed_header) outcome" where
  "suitable_block header2 store =
     and_then (expect (store (Hash (bh_previous_header_hash (ih_raw header2))))) (\<lambda>header1.
     and_then (expect (store (Hash (bh_previous_header_hash (ih_raw header1))))) (\<lambda>header0.
       Ok (sort3 header0 header1 header2)))"

definition block_proof :: "(u256 \<Rightarrow> ('e, u256) outcome) \<Rightarrow> indexed_header \<Rightarrow> ('e, u256) outcome" where
  "block_proof ov header =
     (let proof1 = u256_from_compact (bh_bits (ih_raw header)) in
      and_then (u256_add ov proof1 1) (\<lambda>d.
      and_then (u256_div (NOT proof1) d) (\<lambda>q. u256_add ov q 1)))"

partial_function (option) chain_work_from ::
    "(u256 \<Rightarrow> ('e, u256) outcome) \<Rightarrow> header_provider \<Rightarrow> bytes \<Rightarrow> bytes \<Rightarrow> u256 \<Rightarrow> ('e, u256) outcome option" where
  "chain_work_from ov store first prev_hash chain_work =
     (case store (Hash prev_hash) of
        None \<Rightarrow> Some Panic
      | Some header \<Rightarrow>
          (case and_then (block_proof ov header) (u256_add ov chain_work) of
             Ok chain_work \<Rightarrow>
               (if bh_previous_header_hash (ih_raw header) = first then Some (Ok chain_work)
                else chain_work_from ov store first (bh_previous_header_hash (ih_raw header)) chain_work)
           | Err e \<Rightarrow> Some (Err e)
           | Panic \<Rightarrow> Some Panic))"

text \<open>A loop that does not return has no outcome of its own here and counts as a panic.\<close>

definition compute_work_between_blocks ::
    "(u256 \<Rightarrow> ('e, u256) outcome) \<Rightarrow> bytes \<Rightarrow> indexed_header \<Rightarrow> header_provider \<Rightarrow> ('e, u256) outcome" where
  "compute_work_between_blocks ov first last_header store =
     (if ih_hash last_header = first then Panic
      else and_then (block_proof ov last_header) (\<lambda>chain_work.
        case chain_work_from ov store first (bh_previous_header_hash (ih_raw last_header)) chain_work of
          Some r \<Rightarrow> r
        | None \<Rightarrow> Panic))"

definition compute_target ::
    "(u256 \<Rightarrow> ('e, u256) outcome) \<Rightarrow> indexed_header \<Rightarrow> indexed_header \<Rightarrow> header_provider \<Rightarrow> ('e, u256) outcome" where
  "compute_target ov first_header last_header store =
     and_then (compute_work_between_blocks ov (ih_hash first_header) last_header store) (\<lambda>work.
     and_then (u256_mul ov work (ucast TARGET_SPACING_SECONDS)) (\<lambda>work.
       if \<not> bh_time (ih_raw last_header) > bh_time (ih_raw first_header) then Panic
       else
         let actual_timespan = bh_time (ih_raw last_header) - bh_time (ih_raw first_header);
             actual_timespan =
               (if actual_timespan > 288 * TARGET_SPACING_SECONDS then 288 * TARGET_SPACING_SECONDS
                else if actual_timespan < 72 * TARGET_SPACING_SECONDS then 72 * TARGET_SPACING_SECONDS
                else actual_timespan) in
         and_then (u256_div work (ucast actual_timespan)) (\<lambda>work. u256_div (NOT work) work)))"

definition work_required_bitcoin_cash_adjusted ::
    "(u256 \<Rightarrow> ('e, u256) outcome) \<Rightarrow> indexed_header \<Rightarrow> u32 \<Rightarrow> u32 \<Rightarrow> header_provider \<Rightarrow> consensus_params \<Rightarrow>
      ('e, compact) outcome" where
  "work_required_bitcoin_cash_adjusted ov parent_header time height store consensus =
     (if \<not> height > 0 then Panic
      else and_then (network_max_bits (cp_network consensus)) (\<lambda>max_bits.
        and_then
          (if cp_network consensus = Testnet \<or> cp_network consensus = Unitest then
             and_then (u32_add (bh_time (ih_raw parent_header)) DOUBLE_SPACING_SECONDS) (\<lambda>gap. Ok (time > gap))
           else Ok False) (\<lambda>minimal.
          if minimal then from_u256 max_bits
          else
            let last_height = height - 1 in
            if \<not> last_height \<ge> RETARGETING_INTERVAL then Panic
            else
              and_then (suitable_block parent_header store) (\<lambda>last_header.
              and_then (u32_sub last_height 144) (\<lambda>first_height.
              and_then (expect (store (Number first_height))) (\<lambda>first_header.
              and_then (suitable_block first_header store) (\<lambda>first_header.
              and_then (compute_target ov first_header last_header store) (\<lambda>next_target.
                if next_target > max_bits then from_u256 max_bits else from_u256 next_target))))))))"

definition work_required_bitcoin_cash ::
    "(u256 \<Rightarrow> ('e, u256) outcome) \<Rightarrow> indexed_header \<Rightarrow> u32 \<Rightarrow> u32 \<Rightarrow> header_provider \<Rightarrow> consensus_params \<Rightarrow>
      bitcoin_cash_params \<Rightarrow> compact \<Rightarrow> ('e, compact) outcome" where
  "work_required_bitcoin_cash ov parent_header time height store consensus fork max_bits =
     (if (if height = 0 then 0 else height - 1) \<ge> bc_difficulty_adjustion_height fork then
        work_required_bitcoin_cash_adjusted ov parent_header time height store consensus
      else if is_retarget_height height then
        work_required_retarget ov parent_header height store max_bits
      else if cp_network consensus = Testnet then
        work_required_testnet (ih_hash parent_header) time height store Testnet
      else if bh_bits (ih_raw parent_header) = max_bits then Ok (bh_bits (ih_raw parent_header))
      else
        and_then (and_then (u32_sub height 6) (\<lambda>x. u32_sub x 1)) (\<lambda>ancient_block_ref.
        and_then (expect (store (Number ancient_block_ref))) (\<lambda>ancient_header.
          let ancient_timestamp = median_timestamp_inclusive (ih_hash ancient_header) store;
              parent_timestamp = median_timestamp_inclusive (ih_hash parent_header) store;
              timestamp_diff = (if ancient_timestamp \<le> parent_timestamp then parent_timestamp - ancient_timestamp else 0) in
          if timestamp_diff < 43200 then Ok (bh_bits (ih_raw parent_header))
          else
            let new_bits = u256_from_compact (bh_bits (ih_raw parent_header));
                max_bits = u256_from_compact max_bits in
            and_then (u256_add ov new_bits (drop_bit 2 new_bits)) (\<lambda>new_bits.
              from_u256 (if new_bits > max_bits then max_bits else new_bits)))))"


section \<open>Required work and reward\<close>

definition work_required ::
    "(u256 \<Rightarrow> ('e, u256) outcome) \<Rightarrow> bytes \<Rightarrow> u32 \<Rightarrow> u32 \<Rightarrow> header_provider \<Rightarrow> consensus_params \<Rightarrow> ('e, compact) outcome" where
  "work_required ov parent_hash time height store consensus =
     and_then (and_then (network_max_bits (cp_network consensus)) from_u256) (\<lambda>max_bits.
       if height = 0 then Ok max_bits
       else and_then (expect (store (Hash parent_hash))) (\<lambda>parent_header.
         case (case cp_fork consensus of
                 BitcoinCash fork \<Rightarrow> if height \<ge> bc_height fork then Some fork else None
               | BitcoinCore \<Rightarrow> None) of
           Some fork \<Rightarrow> work_required_bitcoin_cash ov parent_header time height store consensus fork max_bits
         | None \<Rightarrow>
             (if is_retarget_height height then work_required_retarget ov parent_header height store max_bits
              else if cp_network consensus = Testnet then
                work_required_testnet parent_hash time height store Testnet
              else Ok (bh_bits (ih_raw parent_header)))))"

definition block_reward_satoshi :: "u32 \<Rightarrow> u64" where
  "block_reward_satoshi block_height =
     ((\<lambda>res. res div 2) ^^ unat (block_height div 210000)) (50 * 100 * 1000 * 1000)"

end
