(* ===== verification/Work_Props.thy ===== *)
theory Work_Props
  imports Work
begin

text \<open>
  What the proof-of-work code guarantees: the supply that all block rewards add up to, the bounds
  of a retarget, the monotonicity of the median time, and the work summed between two blocks.
\<close>

section \<open>The block reward\<close>

lemma unat_u32_less: "unat (x :: u32) < 4294967296"
proof -
  have "unat x < 2 ^ LENGTH(32)" by (rule unsigned_less)
  then show ?thesis by simp
qed

lemma unat_halvings: "unat (((\<lambda>r. r div 2) ^^ k) (x :: u64)) = unat x div 2 ^ k"
  by (induction k) (simp_all add: unat_div div_mult2_eq mult.commute flip: div_mult2_eq)

lemma block_reward_eq: "unat (block_reward_satoshi h) = 5000000000 div 2 ^ (unat h div 210000)"
  by (simp add: block_reward_satoshi_def unat_halvings unat_div)

lemma sum_eras:
  fixes k :: nat and f :: "nat \<Rightarrow> nat"
  shows "(\<Sum>h<k * 210000. f (h div 210000)) = 210000 * (\<Sum>e<k. f e)"
proof -
  have "(\<Sum>h = e * 210000..<e * 210000 + 210000. f (h div 210000)) = 210000 * f e" for e :: nat
  proof -
    have "h div 210000 = e" if "h \<in> {e * 210000..<e * 210000 + 210000}" for h
      using that by (intro div_nat_eqI) simp_all
    then have "(\<Sum>h = e * 210000..<e * 210000 + 210000. f (h div 210000))
        = (\<Sum>h = e * 210000..<e * 210000 + 210000. f e)" by (intro sum.cong) auto
    then show ?thesis by simp
  qed
  then have "(\<Sum>e<k. \<Sum>h = e * 210000..<e * 210000 + 210000. f (h div 210000)) = (\<Sum>e<k. 210000 * f e)"
    by simp
  then show ?thesis by (simp add: sum.nat_group sum_distrib_left)
qed

lemma sum_rewards: "(\<Sum>e<33. 5000000000 div 2 ^ e :: nat) = 9999999989"
  by (simp add: lessThan_nat_numeral lessThan_Suc)

lemma no_reward: "33 \<le> e \<Longrightarrow> 5000000000 div 2 ^ e = (0 :: nat)"
proof -
  assume "33 \<le> e"
  then have "(2 :: nat) ^ 33 \<le> 2 ^ e" by (intro power_increasing) simp_all
  then show ?thesis by simp
qed

text \<open>
  The rewards of all block heights together are 20 999 999.9769 coins: the subsidy can never
  create more than that.
\<close>

theorem block_reward_supply:
  "(\<Sum>height\<in>UNIV. unat (block_reward_satoshi height)) = 2099999997690000"
proof -
  let ?f = "\<lambda>h. 5000000000 div 2 ^ (h div 210000) :: nat"
  have bij: "bij_betw (unat :: u32 \<Rightarrow> nat) UNIV {..<2 ^ 32}"
    by (rule bij_betw_byWitness [where f' = word_of_nat]) (auto simp: unat_of_nat unat_u32_less)
  have "(\<Sum>height\<in>UNIV. unat (block_reward_satoshi height)) = (\<Sum>height\<in>(UNIV :: u32 set). ?f (unat height))"
    by (simp add: block_reward_eq)
  also have "\<dots> = (\<Sum>h<2 ^ 32. ?f h)" by (rule sum.reindex_bij_betw [OF bij])
  also have "\<dots> = (\<Sum>h<33 * 210000. ?f h)"
    by (rule sum.mono_neutral_right) (auto intro!: no_reward simp: less_eq_div_iff_mult_less_eq)
  also have "\<dots> = 210000 * 9999999989" using sum_eras [of "\<lambda>e. 5000000000 div 2 ^ e" 33] by (simp only: sum_rewards)
  finally show ?thesis by simp
qed


section \<open>Retargeting\<close>

lemma timespans: "uint MIN_TIMESPAN = 302400" "uint MAX_TIMESPAN = 4838400" "unat TARGET_TIMESPAN_SECONDS = 1209600"
  by (simp_all add: MIN_TIMESPAN_def MAX_TIMESPAN_def TARGET_TIMESPAN_SECONDS_def RETARGETING_FACTOR_def)

lemma retarget_timespan_bounds:
  "302400 \<le> unat (retarget_timespan a b)" "unat (retarget_timespan a b) \<le> 4838400"
proof -
  define t where "t = range_constrain (uint b - uint a) (uint MIN_TIMESPAN) (uint MAX_TIMESPAN)"
  have t: "302400 \<le> t" "t \<le> 4838400" by (auto simp: t_def range_constrain_def timespans)
  then have "unat (retarget_timespan a b) = nat t"
    by (simp add: retarget_timespan_def unat_eq_nat_uint uint_word_of_int del: nat_uint_eq flip: t_def)
  then show "302400 \<le> unat (retarget_timespan a b)" "unat (retarget_timespan a b) \<le> 4838400" using t by auto
qed

lemma u256_from_compact_Ok: "to_u256 c = Ok t \<Longrightarrow> u256_from_compact c = t"
  by (simp add: u256_from_compact_def)

text \<open>What \<open>from_u256\<close> writes is a compact form of nearly the same value.\<close>

lemma from_u256_value:
  "\<exists>c v'. from_u256 v = Ok c \<and> to_u256 c = Ok v' \<and> unat v' \<le> unat v \<and> (2 ^ 15 - 1) * unat v \<le> 2 ^ 15 * unat v'"
proof -
  let ?n = "unat v"
  have v': "unat (word_of_nat (truncated ?n) :: u256) = truncated ?n"
    using truncated_le [of ?n] unat_u256_less [of v] by (simp add: unat_of_nat)
  have "(2 ^ 15 - 1) * ?n \<le> 2 ^ 15 * truncated ?n"
    using truncated_error [of ?n] truncated_le [of ?n] by (simp add: algebra_simps)
  then show ?thesis
    using from_u256_eq [of v] to_u256_from_u256 [of v] truncated_le [of ?n] by (auto simp: v')
qed

lemma scaled_bounds:
  fixes t s :: nat
  assumes "302400 \<le> s" "s \<le> 4838400"
  shows "t * s div 1209600 \<le> 4 * t" "t div 4 \<le> t * s div 1209600"
proof -
  have "t * s \<le> t * 4838400" using assms by (intro mult_left_mono) simp_all
  then have "t * s div 1209600 \<le> t * 4838400 div 1209600" by (rule div_le_mono)
  also have "t * 4838400 = (4 * t) * 1209600" by simp
  finally show "t * s div 1209600 \<le> 4 * t" by simp
  have "t * 302400 \<le> t * s" using assms by (intro mult_left_mono) simp_all
  then have "t * 302400 div 1209600 \<le> t * s div 1209600" by (rule div_le_mono)
  then show "t div 4 \<le> t * s div 1209600" using div_mult_mult2 [of 302400 t 4] by simp
qed

lemma retarget_value:
  assumes "unat t < 2 ^ 232"
  shows "and_then (u256_mul ov t (ucast (retarget_timespan a b)))
           (\<lambda>r. and_then (u256_div r (ucast TARGET_TIMESPAN_SECONDS)) f)
         = f (word_of_nat (unat t * unat (retarget_timespan a b) div 1209600))"
proof -
  let ?s = "retarget_timespan a b"
  have s: "unat (ucast ?s :: u256) = unat ?s" "(ucast TARGET_TIMESPAN_SECONDS :: u256) = 1209600"
    using unat_u32_less [of ?s]
    by (simp_all add: unsigned_ucast_eq take_bit_eq_mod TARGET_TIMESPAN_SECONDS_def)
  have "unat t * unat ?s < 2 ^ 232 * 4838401"
    using assms retarget_timespan_bounds(2) [of a b] by (intro mult_strict_mono') simp_all
  then have p: "unat t * unat ?s < 2 ^ 256" by simp
  then have "u256_mul ov t (ucast ?s) = Ok (t * ucast ?s)" by (simp only: u256_mul_def s) simp
  moreover have "unat (t * ucast ?s) = unat t * unat ?s"
    using p unat_mult_lem [of t "ucast ?s"] by (simp add: s)
  then have "t * ucast ?s div 1209600 = word_of_nat (unat t * unat ?s div 1209600)"
    by (simp add: word_arith_nat_div)
  ultimately show ?thesis by (simp add: u256_div_def s)
qed


definition sample_header :: "u32 \<Rightarrow> u32 \<Rightarrow> indexed_header" where
  "sample_header time bits =
     \<lparr> ih_hash = [], ih_raw = \<lparr> bh_version = 1, bh_previous_header_hash = [], bh_merkle_root_hash = [],
         bh_time = time, bh_bits = bits, bh_nonce = 0 \<rparr> \<rparr>"



section \<open>Median time\<close>

lemma sorted_nth_ge_iff:
  "sorted xs \<Longrightarrow> k < length xs \<Longrightarrow> m \<le> xs ! k \<longleftrightarrow> length (filter (\<lambda>x. x < m) xs) \<le> k"
proof (induction xs arbitrary: k)
  case (Cons x xs)
  show ?case
  proof (cases k)
    case 0
    have "m \<le> x \<Longrightarrow> filter (\<lambda>x. x < m) xs = []"
      using Cons.prems(1) by (auto simp: filter_empty_conv)
    then show ?thesis using 0 by (auto simp: not_less)
  next
    case (Suc j)
    then have IH: "m \<le> xs ! j \<longleftrightarrow> length (filter (\<lambda>x. x < m) xs) \<le> j" using Cons by auto
    have "m \<le> x \<Longrightarrow> m \<le> xs ! j"
      using Cons.prems Suc by (auto intro: order_trans)
    then show ?thesis using IH Suc by (auto simp: not_less)
  qed
qed simp

lemma sort_nth_ge_iff:
  "k < length xs \<Longrightarrow> m \<le> sort xs ! k \<longleftrightarrow> length (filter (\<lambda>x. x < m) xs) \<le> k"
  using sorted_nth_ge_iff [of "sort xs" k m] by (simp add: filter_sort)

text \<open>Putting an element that is at least the median before the others and dropping the oldest does
  not lower the median.\<close>

lemma median_grows:
  fixes xs :: "'a::linorder list"
  assumes "xs \<noteq> []" "sort xs ! (length xs div 2) \<le> t" "length xs \<le> Suc n"
  shows "sort xs ! (length xs div 2) \<le> sort (t # take n xs) ! (length (t # take n xs) div 2)"
proof -
  let ?m = "sort xs ! (length xs div 2)" and ?ys = "t # take n xs"
  have half: "length xs div 2 < length xs" using assms(1) by (cases xs) simp_all
  have "length (filter (\<lambda>x. x < ?m) ?ys) \<le> length (filter (\<lambda>x. x < ?m) (take n xs @ drop n xs))"
    using assms(2) by (simp del: append_take_drop_id)
  also have "\<dots> \<le> length xs div 2" using sort_nth_ge_iff [OF half, of ?m] by simp
  also have "\<dots> \<le> length ?ys div 2" using assms(3) by (intro div_le_mono) simp
  finally show ?thesis by (subst sort_nth_ge_iff) simp_all
qed

lemma block_ancestors_take:
  "m \<le> n \<Longrightarrow> block_ancestors store r m = take m (block_ancestors store r n)"
proof (induction m arbitrary: n r)
  case (Suc m)
  then obtain n' where "n = Suc n'" by (cases n) auto
  then show ?case using Suc by (auto split: option.splits)
qed simp

lemma length_block_ancestors: "length (block_ancestors store r n) \<le> n"
  by (induction n arbitrary: r) (auto split: option.splits)

lemma median_timestamp_grows:
  assumes "store (Hash hash) = Some header" and "median_timestamp (ih_raw header) store \<le> bh_time (ih_raw header)"
  shows "median_timestamp (ih_raw header) store \<le> median_timestamp_inclusive hash store"
proof -
  let ?old = "block_ancestors store (Hash (bh_previous_header_hash (ih_raw header))) 11"
  let ?time = "\<lambda>header. bh_time (ih_raw header)"
  have "block_ancestors store (Hash hash) 11 = header # take 10 ?old"
    using assms(1) block_ancestors_take [of 10 11 store] by (simp add: numeral_eq_Suc)
  then have new: "map ?time (block_ancestors store (Hash hash) 11) = ?time header # take 10 (map ?time ?old)"
    by (simp add: take_map)
  have "map ?time ?old \<noteq> [] \<Longrightarrow> ?thesis"
    using assms(2) median_grows [of "map ?time ?old" "?time header" 10] length_block_ancestors [of store _ 11]
    unfolding median_timestamp_def median_timestamp_inclusive_def Let_def new by simp
  then show ?thesis
    by (cases "map ?time ?old = []") (simp_all add: median_timestamp_def median_timestamp_inclusive_def Let_def)
qed


section \<open>The work between two blocks\<close>

lemma not_value: "unat (NOT (t :: u256)) = 2 ^ 256 - 1 - unat t"
proof -
  have "NOT t = - 1 - t" by (simp add: not_eq_complement)
  then show ?thesis using unat_sub [of t "- 1"] by (simp add: unsigned_minus_1_eq_mask mask_eq_exp_minus_1)
qed

text \<open>The number of hashes expected for one block.\<close>

definition expected_hashes :: "indexed_header \<Rightarrow> nat" where
  "expected_hashes header = 2 ^ 256 div (unat (u256_from_compact (bh_bits (ih_raw header))) + 1)"

definition minable :: "indexed_header \<Rightarrow> bool" where
  "minable header \<longleftrightarrow> 0 < unat (u256_from_compact (bh_bits (ih_raw header)))
     \<and> unat (u256_from_compact (bh_bits (ih_raw header))) < 2 ^ 256 - 1"

lemma complement_quotient:
  fixes t :: nat
  assumes "t < 2 ^ 256"
  shows "(2 ^ 256 - 1 - t) div (t + 1) + 1 = 2 ^ 256 div (t + 1)"
proof -
  have "2 ^ 256 = (2 ^ 256 - 1 - t) + 1 * (t + 1)" using assms by simp
  then have "2 ^ 256 div (t + 1) = ((2 ^ 256 - 1 - t) + 1 * (t + 1)) div (t + 1)" by simp
  also have "\<dots> = (2 ^ 256 - 1 - t) div (t + 1) + 1" by (subst div_mult_self1) simp_all
  finally show ?thesis by simp
qed

lemma block_proof_value:
  assumes "minable header"
  shows "block_proof ov header = Ok (word_of_nat (expected_hashes header)) \<and> expected_hashes header < 2 ^ 256"
proof -
  define t where "t = u256_from_compact (bh_bits (ih_raw header))"
  have t: "0 < unat t" "unat t < 2 ^ 256 - 1" using assms by (simp_all add: minable_def t_def)
  have one: "unat (t + 1) = unat t + 1" using t(2) unat_add_lem [of t 1] by simp
  have hashes: "expected_hashes header = (2 ^ 256 - 1 - unat t) div (unat t + 1) + 1"
    using complement_quotient [of "unat t"] t by (simp add: expected_hashes_def flip: t_def)
  have q: "unat (NOT t div (t + 1)) = (2 ^ 256 - 1 - unat t) div (unat t + 1)"
    by (simp only: unat_div not_value one)
  have "expected_hashes header \<le> 2 ^ 256 div 2"
    unfolding expected_hashes_def t_def [symmetric] using t(1) by (intro div_le_mono2) simp_all
  then have small: "expected_hashes header < 2 ^ 256" by simp
  have "t + 1 \<noteq> 0" using one by auto
  moreover have "word_of_nat (expected_hashes header) = NOT t div (t + 1) + 1"
    by (simp only: hashes q [symmetric]) simp
  ultimately have "block_proof ov header = Ok (word_of_nat (expected_hashes header))"
    using t(2) small hashes
    by (simp add: block_proof_def u256_add_def u256_div_def q flip: t_def)
  then show ?thesis using small by simp
qed

text \<open>The headers from \<open>prev_hash\<close> back to the child of \<open>first\<close>.\<close>

fun path_to :: "header_provider \<Rightarrow> bytes \<Rightarrow> bytes \<Rightarrow> indexed_header list \<Rightarrow> bool" where
  "path_to store first prev_hash [] = False"
| "path_to store first prev_hash (h # hs) =
     (store (Hash prev_hash) = Some h
      \<and> (if hs = [] then bh_previous_header_hash (ih_raw h) = first
         else bh_previous_header_hash (ih_raw h) \<noteq> first
              \<and> path_to store first (bh_previous_header_hash (ih_raw h)) hs))"

lemma add_work:
  assumes "minable header" "unat w + expected_hashes header < 2 ^ 256"
  shows "and_then (block_proof ov header) (u256_add ov w) = Ok (w + word_of_nat (expected_hashes header))"
    "unat (w + word_of_nat (expected_hashes header)) = unat w + expected_hashes header"
proof -
  have p: "block_proof ov header = Ok (word_of_nat (expected_hashes header))"
    "unat (word_of_nat (expected_hashes header) :: u256) = expected_hashes header"
    using block_proof_value [OF assms(1), of ov] by (simp_all add: unat_of_nat)
  then show "and_then (block_proof ov header) (u256_add ov w) = Ok (w + word_of_nat (expected_hashes header))"
    using assms(2) by (simp add: u256_add_def)
  show "unat (w + word_of_nat (expected_hashes header)) = unat w + expected_hashes header"
    using assms(2) p(2) unat_add_lem [of w "word_of_nat (expected_hashes header)"] by simp
qed

lemma chain_work_from_path:
  assumes "path_to store first prev_hash hs" and "list_all minable hs"
    and "unat w + sum_list (map expected_hashes hs) < 2 ^ 256"
  shows "\<exists>w'. chain_work_from ov store first prev_hash w = Some (Ok w')
           \<and> unat w' = unat w + sum_list (map expected_hashes hs)"
  using assms
proof (induction hs arbitrary: prev_hash w)
  case (Cons h hs)
  let ?w = "w + word_of_nat (expected_hashes h)"
  have found: "store (Hash prev_hash) = Some h" and "minable h" using Cons.prems by simp_all
  moreover have "unat w + expected_hashes h < 2 ^ 256" using Cons.prems(3) by simp
  ultimately have w: "and_then (block_proof ov h) (u256_add ov w) = Ok ?w" "unat ?w = unat w + expected_hashes h"
    by (simp_all add: add_work del: and_then_eq_Ok)
  show ?case
  proof (cases hs)
    case Nil
    then show ?thesis using Cons.prems(1) found w
      by (subst chain_work_from.simps) (simp del: and_then_eq_Ok)
  next
    case more: (Cons h' hs')
    then have path: "path_to store first (bh_previous_header_hash (ih_raw h)) hs"
      and next_hash: "bh_previous_header_hash (ih_raw h) \<noteq> first"
      using Cons.prems(1) by simp_all
    have "chain_work_from ov store first prev_hash w
        = chain_work_from ov store first (bh_previous_header_hash (ih_raw h)) ?w"
      using found w next_hash by (subst chain_work_from.simps) (simp del: and_then_eq_Ok)
    then show ?thesis using Cons.IH [OF path, of ?w] Cons.prems w(2) by (simp add: add.assoc)
  qed
qed simp




section \<open>The median of three headers\<close>

lemma sort3_median:
  "bh_time (ih_raw (sort3 a b c)) = sort [bh_time (ih_raw a), bh_time (ih_raw b), bh_time (ih_raw c)] ! 1
   \<and> sort3 a b c \<in> {a, b, c}"
  by (auto simp: sort3_def Let_def)

end
