(* ===== verification/Deployments.thy ===== *)
theory Deployments
  imports Work_Props
begin

text \<open>
  \<open>verification/src/deployments.rs\<close>: version-bits deployments (BIP 9).  The state of a deployment
  is computed period by period by an iterator over the last headers of the periods, and remembered
  in a cache with one entry per deployment name.

  The second half gives the state machine of BIP 9 as a function of the period and relates the
  cached computation to it.
\<close>

section \<open>Threshold states\<close>

datatype ThresholdState = Defined | Started | LockedIn | Active | Failed

fun state_is_final :: "ThresholdState \<Rightarrow> bool" where
  "state_is_final Active = True"
| "state_is_final Failed = True"
| "state_is_final Defined = False"
| "state_is_final Started = False"
| "state_is_final LockedIn = False"

fun state_is_active :: "ThresholdState \<Rightarrow> bool" where
  "state_is_active Active = True"
| "state_is_active _ = False"

record deployment_state =
  ds_block_number :: u32
  ds_block_hash :: bytes
  ds_state :: ThresholdState

type_synonym deployment_state_cache = "string \<rightharpoonup> deployment_state"

definition first_of_the_period :: "u32 \<Rightarrow> u32 \<Rightarrow> ('e, u32) outcome" where
  "first_of_the_period block miner_confirmation_window =
     and_then (u32_sub miner_confirmation_window 1) (\<lambda>w.
       if block < w then Ok 0
       else and_then (u32_add block 1) (\<lambda>b. u32_sub block (b mod miner_confirmation_window)))"

fun count_matches :: "deployment \<Rightarrow> indexed_header list \<Rightarrow> ('e, nat) outcome" where
  "count_matches d [] = Ok 0"
| "count_matches d (h # hs) =
     and_then (deployment_matches d (bh_version (ih_raw h))) (\<lambda>m.
     and_then (count_matches d hs) (\<lambda>n. Ok (if m then n + 1 else n)))"

definition count_deployment_matches :: "u32 \<Rightarrow> header_provider \<Rightarrow> deployment \<Rightarrow> u32 \<Rightarrow> ('e, nat) outcome" where
  "count_deployment_matches block_number blocks deployment window =
     count_matches deployment (block_ancestors blocks (Number block_number) (unat window))"


section \<open>The iterator over periods\<close>

record threshold_iterator =
  th_block_iterator :: block_iterator
  th_last_state :: ThresholdState

definition threshold_iterator_new :: "u32 \<Rightarrow> u32 \<Rightarrow> ThresholdState \<Rightarrow> threshold_iterator" where
  "threshold_iterator_new to_check miner_confirmation_window state =
     \<lparr> th_block_iterator = \<lparr> bi_block = to_check, bi_period = miner_confirmation_window \<rparr>, th_last_state = state \<rparr>"

text \<open>The \<open>match\<close> of \<open>next\<close> on the last state; \<open>None\<close> is its early return.\<close>

definition next_state ::
    "deployment \<Rightarrow> header_provider \<Rightarrow> u32 \<Rightarrow> u32 \<Rightarrow> u32 \<Rightarrow> u32 \<Rightarrow> ThresholdState \<Rightarrow> ('e, ThresholdState option) outcome" where
  "next_state deployment headers miner_confirmation_window rule_change_activation_threshold block_number median state =
     (case state of
        Defined \<Rightarrow>
          Ok (Some (if median \<ge> dp_timeout deployment then Failed
                    else if median \<ge> dp_start_time deployment then Started else Defined))
      | Started \<Rightarrow>
          (if median \<ge> dp_timeout deployment then Ok (Some Failed)
           else and_then (count_deployment_matches block_number headers deployment miner_confirmation_window) (\<lambda>count.
             Ok (Some (if count \<ge> unat rule_change_activation_threshold then LockedIn else Started))))
      | LockedIn \<Rightarrow> Ok (Some Active)
      | Failed \<Rightarrow> Ok None
      | Active \<Rightarrow> Ok None)"

definition threshold_iterator_next ::
    "deployment \<Rightarrow> header_provider \<Rightarrow> u32 \<Rightarrow> u32 \<Rightarrow> threshold_iterator \<Rightarrow>
      ('e, deployment_state option \<times> threshold_iterator) outcome" where
  "threshold_iterator_next deployment headers miner_confirmation_window rule_change_activation_threshold it =
     and_then (block_iterator_next headers (th_block_iterator it)) (\<lambda>(item, bi).
       case item of
         None \<Rightarrow> Ok (None, it\<lparr>th_block_iterator := bi\<rparr>)
       | Some (block_number, header) \<Rightarrow>
           (let median = median_timestamp (ih_raw header) headers in
            and_then (next_state deployment headers miner_confirmation_window rule_change_activation_threshold
                        block_number median (th_last_state it)) (\<lambda>r.
              case r of
                None \<Rightarrow> Ok (None, it\<lparr>th_block_iterator := bi\<rparr>)
              | Some state \<Rightarrow>
                  Ok (Some \<lparr> ds_block_number = block_number, ds_block_hash = ih_hash header, ds_state = state \<rparr>,
                      \<lparr> th_block_iterator = bi, th_last_state = state \<rparr>))))"

text \<open>
  \<open>Iterator::last\<close>.  A period of zero would not advance; the sources never reach the iterator with
  one, since \<open>first_of_the_period\<close> panics on it.
\<close>

lemma threshold_iterator_block:
  assumes "threshold_iterator_next d headers w t it = Ok (item, it')"
  obtains x where "block_iterator_next headers (th_block_iterator it) = (Ok (x, th_block_iterator it') :: ('e, _) outcome)"
proof (cases "block_iterator_next headers (th_block_iterator it) :: ('e, _) outcome")
  case (Ok p)
  then obtain x bi where p: "block_iterator_next headers (th_block_iterator it) = (Ok (x, bi) :: ('e, _) outcome)"
    by (cases p) simp
  then have "th_block_iterator it' = bi"
    using assms by (auto simp: threshold_iterator_next_def block_iterator_next_def Let_def split: option.splits if_splits)
  then show ?thesis using that p by simp
qed (use assms in \<open>auto simp: threshold_iterator_next_def block_iterator_next_def Let_def split: if_splits\<close>)

lemma threshold_iterator_advances:
  assumes "threshold_iterator_next d headers w t it = Ok (item, it')" "bi_period (th_block_iterator it) \<noteq> 0"
  shows "unat (bi_block (th_block_iterator it')) > unat (bi_block (th_block_iterator it))"
    "bi_period (th_block_iterator it') = bi_period (th_block_iterator it)"
proof -
  let ?b = "th_block_iterator it"
  obtain x where "block_iterator_next headers ?b = (Ok (x, th_block_iterator it') :: (unit, _) outcome)"
    using threshold_iterator_block [OF assms(1)] .
  then have fits: "unat (bi_block ?b) + unat (bi_period ?b) < 2 ^ 32"
    and it': "th_block_iterator it' = ?b\<lparr>bi_block := bi_block ?b + bi_period ?b\<rparr>"
    by (simp_all add: block_iterator_next_def Let_def split: if_splits)
  then have "unat (bi_block ?b + bi_period ?b) = unat (bi_block ?b) + unat (bi_period ?b)"
    using unat_add_lem [of "bi_block ?b" "bi_period ?b"] by simp
  then show "unat (bi_block (th_block_iterator it')) > unat (bi_block (th_block_iterator it))"
    "bi_period (th_block_iterator it') = bi_period (th_block_iterator it)"
    using assms(2) it' by (simp_all add: unat_gt_0)
qed

function iterate_last ::
    "deployment \<Rightarrow> header_provider \<Rightarrow> u32 \<Rightarrow> u32 \<Rightarrow> threshold_iterator \<Rightarrow> deployment_state option \<Rightarrow>
      ('e, deployment_state option) outcome" where
  "iterate_last deployment headers window threshold it seen =
     (if bi_period (th_block_iterator it) = 0 then Panic
      else and_then (threshold_iterator_next deployment headers window threshold it) (\<lambda>(item, it').
        case item of
          None \<Rightarrow> Ok seen
        | Some state \<Rightarrow> iterate_last deployment headers window threshold it' (Some state)))"
  by pat_completeness auto
termination
  by (relation "measure (\<lambda>(d, h, w, t, it, seen). 2 ^ 32 - unat (bi_block (th_block_iterator it)))")
    (auto dest!: threshold_iterator_advances(1) simp: word_gt_0 intro!: diff_less_mono2 less_le_trans [OF _ less_imp_le [OF unat_u32_less]])

declare iterate_last.simps [simp del]


section \<open>The state of a deployment\<close>

definition threshold_state ::
    "deployment_state_cache \<Rightarrow> deployment \<Rightarrow> u32 \<Rightarrow> header_provider \<Rightarrow> u32 \<Rightarrow> u32 \<Rightarrow>
      ('e, ThresholdState \<times> deployment_state_cache) outcome" where
  "threshold_state cache deployment number headers miner_confirmation_window rule_change_activation_threshold =
     (case dp_activation deployment of
        Some activation \<Rightarrow> Ok (if activation \<le> number then Active else Defined, cache)
      | None \<Rightarrow>
          and_then (first_of_the_period (if number = 0 then 0 else number - 1) miner_confirmation_window) (\<lambda>number.
            case headers (Number number) of
              None \<Rightarrow> Ok (Defined, cache)
            | Some header \<Rightarrow>
                (let hash = ih_hash header in
                 case cache (dp_name deployment) of
                   Some entry \<Rightarrow>
                     (if ds_block_number entry = number \<and> ds_block_hash entry = hash then Ok (ds_state entry, cache)
                      else if state_is_final (ds_state entry) then Ok (ds_state entry, cache)
                      else
                        and_then (iterate_last deployment headers miner_confirmation_window rule_change_activation_threshold
                          (threshold_iterator_new number miner_confirmation_window (ds_state entry)) None) (\<lambda>r.
                        and_then (expect r) (\<lambda>state.
                          Ok (ds_state state, cache(dp_name deployment \<mapsto> state)))))
                 | None \<Rightarrow>
                     and_then (u32_sub miner_confirmation_window 1) (\<lambda>to_check.
                     and_then (iterate_last deployment headers miner_confirmation_window rule_change_activation_threshold
                          (threshold_iterator_new to_check miner_confirmation_window Defined) None) (\<lambda>r.
                       let state = (case r of
                             Some state \<Rightarrow> state
                           | None \<Rightarrow> \<lparr> ds_block_number = number, ds_block_hash = hash, ds_state = Defined \<rparr>) in
                       Ok (ds_state state, cache(dp_name deployment \<mapsto> state)))))))"

definition is_deployed ::
    "deployment option \<Rightarrow> deployment_state_cache \<Rightarrow> u32 \<Rightarrow> header_provider \<Rightarrow> consensus_params \<Rightarrow>
      ('e, bool \<times> deployment_state_cache) outcome" where
  "is_deployed deployment cache number headers consensus =
     (case deployment of
        Some d \<Rightarrow>
          and_then (threshold_state cache d number headers (cp_miner_confirmation_window consensus)
                     (cp_rule_change_activation_threshold consensus)) (\<lambda>(state, cache).
            Ok (state_is_active state, cache))
      | None \<Rightarrow> Ok (False, cache))"

definition deployments_csv ::
    "deployment_state_cache \<Rightarrow> u32 \<Rightarrow> header_provider \<Rightarrow> consensus_params \<Rightarrow>
      ('e, bool \<times> deployment_state_cache) outcome" where
  "deployments_csv cache number headers consensus = is_deployed (cp_csv_deployment consensus) cache number headers consensus"

definition deployments_segwit ::
    "deployment_state_cache \<Rightarrow> u32 \<Rightarrow> header_provider \<Rightarrow> consensus_params \<Rightarrow>
      ('e, bool \<times> deployment_state_cache) outcome" where
  "deployments_segwit cache number headers consensus =
     is_deployed (cp_segwit_deployment consensus) cache number headers consensus"


section \<open>The state machine of BIP 9\<close>

text \<open>The last block of the period \<open>k\<close>, counted from zero.\<close>

definition boundary :: "u32 \<Rightarrow> nat \<Rightarrow> nat" where
  "boundary window k = (k + 1) * unat window - 1"

definition signals :: "deployment \<Rightarrow> indexed_header \<Rightarrow> bool" where
  "signals d h \<longleftrightarrow> bh_version (ih_raw h) AND VERSIONBITS_TOP_MASK = VERSIONBITS_TOP_BITS
     \<and> bh_version (ih_raw h) AND push_bit (unat (dp_bit d)) 1 \<noteq> 0"

definition bip9_step :: "deployment \<Rightarrow> header_provider \<Rightarrow> u32 \<Rightarrow> u32 \<Rightarrow> nat \<Rightarrow> ThresholdState \<Rightarrow> ThresholdState" where
  "bip9_step d headers window threshold k state =
     (let last_block = Number (word_of_nat (boundary window k));
          median = (case headers last_block of Some h \<Rightarrow> median_timestamp (ih_raw h) headers | None \<Rightarrow> 0);
          votes = length (filter (signals d) (block_ancestors headers last_block (unat window))) in
      case state of
        Defined \<Rightarrow> if dp_timeout d \<le> median then Failed else if dp_start_time d \<le> median then Started else Defined
      | Started \<Rightarrow> if dp_timeout d \<le> median then Failed else if unat threshold \<le> votes then LockedIn else Started
      | LockedIn \<Rightarrow> Active
      | Active \<Rightarrow> Active
      | Failed \<Rightarrow> Failed)"

fun bip9_before :: "deployment \<Rightarrow> header_provider \<Rightarrow> u32 \<Rightarrow> u32 \<Rightarrow> nat \<Rightarrow> ThresholdState" where
  "bip9_before d headers window threshold 0 = Defined"
| "bip9_before d headers window threshold (Suc k) =
     bip9_step d headers window threshold k (bip9_before d headers window threshold k)"

abbreviation bip9 :: "deployment \<Rightarrow> header_provider \<Rightarrow> u32 \<Rightarrow> u32 \<Rightarrow> nat \<Rightarrow> ThresholdState" where
  "bip9 d headers window threshold k \<equiv> bip9_before d headers window threshold (Suc k)"

lemma bip9_final_stays:
  assumes "state_is_final (bip9_before d headers window threshold k)" and "k \<le> n"
  shows "bip9_before d headers window threshold n = bip9_before d headers window threshold k"
  using assms(2)
proof (induction n rule: dec_induct)
  case (step n)
  then have "state_is_final (bip9_before d headers window threshold n)" using assms(1) by simp
  then show ?case using step
    by (cases "bip9_before d headers window threshold n") (simp_all add: bip9_step_def Let_def)
qed simp_all

text \<open>The chain reaches into period \<open>K + 1\<close>: the last blocks of the periods up to \<open>K\<close> are known, the next one is not.\<close>

definition periods_known :: "deployment \<Rightarrow> header_provider \<Rightarrow> u32 \<Rightarrow> nat \<Rightarrow> bool" where
  "periods_known d headers window K \<longleftrightarrow>
     0 < unat window \<and> unat (dp_bit d) < 32 \<and> (K + 3) * unat window < 2 ^ 32
     \<and> list_all (\<lambda>k. headers (Number (word_of_nat (boundary window k))) \<noteq> None) [0..<K + 1]
     \<and> headers (Number (word_of_nat (boundary window (K + 1)))) = None"

definition period_entry :: "deployment \<Rightarrow> header_provider \<Rightarrow> u32 \<Rightarrow> u32 \<Rightarrow> nat \<Rightarrow> deployment_state" where
  "period_entry d headers window threshold k =
     \<lparr> ds_block_number = word_of_nat (boundary window k),
       ds_block_hash = (case headers (Number (word_of_nat (boundary window k))) of Some h \<Rightarrow> ih_hash h | None \<Rightarrow> []),
       ds_state = bip9 d headers window threshold k \<rparr>"

text \<open>The cache is usable for a block after period \<open>K\<close>: empty, of that period, or holding the state before it.\<close>

definition cache_ready :: "deployment \<Rightarrow> header_provider \<Rightarrow> u32 \<Rightarrow> u32 \<Rightarrow> deployment_state_cache \<Rightarrow> nat \<Rightarrow> bool" where
  "cache_ready d headers window threshold cache K \<longleftrightarrow>
     (case cache (dp_name d) of
        None \<Rightarrow> True
      | Some e \<Rightarrow>
          e = period_entry d headers window threshold K
          \<or> ds_state e = bip9_before d headers window threshold K
            \<and> (state_is_final (ds_state e) \<or> ds_block_number e \<noteq> word_of_nat (boundary window K)))"

lemma periods_knownD:
  assumes "periods_known d headers window K" "k \<le> K"
  shows "\<exists>h. headers (Number (word_of_nat (boundary window k))) = Some h"
  using assms by (auto simp: periods_known_def list_all_iff)

lemma boundary_less:
  assumes "periods_known d headers window K" "k \<le> K + 1"
  shows "boundary window k + unat window < 2 ^ 32" "boundary window (Suc k) = boundary window k + unat window"
    "unat (word_of_nat (boundary window k) :: u32) = boundary window k"
proof -
  have pos: "0 < unat window" and max: "(K + 3) * unat window < 2 ^ 32"
    using assms(1) by (simp_all add: periods_known_def)
  show succ: "boundary window (Suc k) = boundary window k + unat window"
    using pos by (simp add: boundary_def)
  have "(k + 2) * unat window \<le> (K + 3) * unat window" using assms(2) by (intro mult_right_mono) simp_all
  then show less: "boundary window k + unat window < 2 ^ 32"
    using max pos by (simp add: boundary_def)
  then show "unat (word_of_nat (boundary window k) :: u32) = boundary window k"
    by (simp add: unat_of_nat)
qed

lemma boundary_inj:
  assumes "periods_known d headers window K" "j \<le> K + 1" "k \<le> K + 1"
    "(word_of_nat (boundary window j) :: u32) = word_of_nat (boundary window k)"
  shows "j = k"
proof -
  have "boundary window j = boundary window k"
    using assms boundary_less(3) [OF assms(1)] by metis
  moreover have "0 < unat window" using assms(1) by (simp add: periods_known_def)
  then have "0 < (j + 1) * unat window" "0 < (k + 1) * unat window" by simp_all
  ultimately have "(j + 1) * unat window = (k + 1) * unat window"
    unfolding boundary_def by linarith
  then show ?thesis using \<open>0 < unat window\<close> by simp
qed

lemma count_matches_eq:
  "unat (dp_bit d) < 32 \<Longrightarrow> count_matches d hs = Ok (length (filter (signals d) hs))"
  by (induction hs) (simp_all add: deployment_matches_def signals_def del: and_then_eq_Ok)

lemma next_state_eq:
  assumes "unat (dp_bit d) < 32" "headers (Number (word_of_nat (boundary window k))) = Some h"
  shows "next_state d headers window threshold (word_of_nat (boundary window k)) (median_timestamp (ih_raw h) headers) s
    = Ok (if state_is_final s then None else Some (bip9_step d headers window threshold k s))"
  using assms
  by (cases s) (simp_all add: next_state_def bip9_step_def Let_def count_deployment_matches_def count_matches_eq
      del: and_then_eq_Ok)

lemma iterate_step:
  assumes known: "periods_known d headers window K" "k \<le> K"
    and h: "headers (Number (word_of_nat (boundary window k))) = Some h"
  shows "iterate_last d headers window threshold
           (threshold_iterator_new (word_of_nat (boundary window k)) window s) seen
         = (if state_is_final s then Ok seen
            else iterate_last d headers window threshold
                   (threshold_iterator_new (word_of_nat (boundary window (Suc k))) window
                     (bip9_step d headers window threshold k s))
                   (Some \<lparr> ds_block_number = word_of_nat (boundary window k), ds_block_hash = ih_hash h,
                           ds_state = bip9_step d headers window threshold k s \<rparr>))"
proof -
  let ?b = "boundary window k"
  have pos: "window \<noteq> 0" "unat (dp_bit d) < 32" using known(1) by (auto simp: periods_known_def)
  have b: "unat (word_of_nat ?b :: u32) = ?b" "?b + unat window < 2 ^ 32" "boundary window (Suc k) = ?b + unat window"
    using boundary_less [OF known(1), of k] known(2) by auto
  show ?thesis
    using pos b h
    by (subst iterate_last.simps)
      (simp add: threshold_iterator_next_def threshold_iterator_new_def block_iterator_next_def next_state_eq Let_def del: and_then_eq_Ok)
qed

lemma iterate_end:
  assumes "periods_known d headers window K"
  shows "iterate_last d headers window threshold
           (threshold_iterator_new (word_of_nat (boundary window (K + 1))) window s) seen = Ok seen"
proof -
  have "window \<noteq> 0" using assms by (auto simp: periods_known_def)
  then show ?thesis
    using boundary_less [OF assms, of "K + 1"] assms
    by (subst iterate_last.simps)
      (simp add: threshold_iterator_next_def threshold_iterator_new_def block_iterator_next_def periods_known_def
        del: and_then_eq_Ok)
qed

lemma iterate_from:
  assumes "periods_known d headers window K" "j \<le> K" "\<not> state_is_final (bip9_before d headers window threshold j)"
  shows "\<exists>m. j \<le> m \<and> m \<le> K \<and> (m = K \<or> state_is_final (bip9 d headers window threshold m))
    \<and> iterate_last d headers window threshold
        (threshold_iterator_new (word_of_nat (boundary window j)) window (bip9_before d headers window threshold j)) seen
      = (Ok (Some (period_entry d headers window threshold m)) :: ('e, deployment_state option) outcome)"
  using assms(2,3)
proof (induction "K - j" arbitrary: j seen)
  case (0 j)
  then have j: "j = K" by simp
  obtain h where h: "headers (Number (word_of_nat (boundary window K))) = Some h"
    using periods_knownD [OF assms(1)] by blast
  show ?case
    using 0 h iterate_end [OF assms(1), simplified]
    by (intro exI [of _ K]) (simp add: j iterate_step [OF assms(1) le_refl h] period_entry_def)
next
  case (Suc n j)
  obtain h where h: "headers (Number (word_of_nat (boundary window j))) = Some h"
    using periods_knownD [OF assms(1) Suc.prems(1)] by blast
  let ?entry = "period_entry d headers window threshold j"
  let ?next = "iterate_last d headers window threshold
      (threshold_iterator_new (word_of_nat (boundary window (Suc j))) window (bip9 d headers window threshold j))
      (Some ?entry) :: ('e, deployment_state option) outcome"
  have step: "iterate_last d headers window threshold
        (threshold_iterator_new (word_of_nat (boundary window j)) window (bip9_before d headers window threshold j)) seen
      = ?next"
    using Suc.prems(2) h by (simp add: iterate_step [OF assms(1) Suc.prems(1) h] period_entry_def)
  have j: "Suc j \<le> K" using Suc.hyps(2) by simp
  show ?case
  proof (cases "state_is_final (bip9 d headers window threshold j)")
    case True
    obtain h' where "headers (Number (word_of_nat (boundary window (Suc j)))) = Some h'"
      using periods_knownD [OF assms(1) j] by blast
    then have "?next = Ok (Some ?entry)" using True by (simp only: iterate_step [OF assms(1) j] if_True)
    then show ?thesis using True step Suc.prems(1) by auto
  next
    case False
    moreover have "n = K - Suc j" using Suc.hyps(2) by simp
    ultimately show ?thesis using Suc.hyps(1) [of "Suc j" "Some ?entry"] step j by (metis Suc_leD)
  qed
qed

lemma first_of_the_period_eq:
  assumes known: "periods_known d headers window K"
    and b: "boundary window K \<le> unat b" "unat b < boundary window (K + 1)"
  shows "first_of_the_period b window = Ok (word_of_nat (boundary window K))"
proof -
  let ?w = "unat window"
  have pos: "0 < ?w" using known by (simp add: periods_known_def)
  have lo: "(K + 1) * ?w \<le> unat b + 1" and hi: "unat b + 1 < (K + 2) * ?w"
    using b pos by (simp_all add: boundary_def)
  have max: "unat b + 1 < 2 ^ 32"
    using b(2) boundary_less(1) [OF known, of "K + 1"] pos by linarith
  define r where "r = unat b + 1 - (K + 1) * ?w"
  have r: "unat b + 1 = (K + 1) * ?w + r" "r < ?w" using lo hi by (simp_all add: r_def)
  then have "(unat b + 1) mod ?w = r" unfolding r(1) by (simp only: mod_mult_self3 mod_less)
  moreover have "unat (b + 1) = unat b + 1" using max unat_add_lem [of b 1] by simp
  ultimately have rest: "unat ((b + 1) mod window) = r" by (simp add: unat_mod)
  have one: "1 \<le> window" using pos by (simp add: word_le_nat_alt Suc_le_eq)
  then have w1: "unat (window - 1) = ?w - 1" using unat_sub [of 1 window] by simp
  have "\<not> b < window - 1" using lo pos by (simp add: word_less_nat_alt w1)
  moreover have rb: "(b + 1) mod window \<le> b" using rest r pos by (simp add: word_le_nat_alt)
  moreover have "unat (b - (b + 1) mod window) = boundary window K"
    using unat_sub [OF rb] rest r by (simp add: boundary_def)
  then have "b - (b + 1) mod window = word_of_nat (boundary window K)" by (metis of_nat_unat ucast_id)
  ultimately show ?thesis
    using max one by (simp add: first_of_the_period_def u32_sub_def u32_add_def)
qed

lemma bip9_at_entry:
  assumes "m \<le> K" "m = K \<or> state_is_final (bip9 d headers window threshold m)"
  shows "bip9 d headers window threshold m = bip9 d headers window threshold K"
  using assms bip9_final_stays [of d headers window threshold "Suc m" "Suc K"] by auto

lemma entry_ready:
  assumes known: "periods_known d headers window K"
    and m: "m \<le> K" "m = K \<or> state_is_final (bip9 d headers window threshold m)"
    and cache: "cache (dp_name d) = Some (period_entry d headers window threshold m)"
  shows "cache_ready d headers window threshold cache K" "cache_ready d headers window threshold cache (K + 1)"
proof -
  have "m < K \<Longrightarrow> bip9_before d headers window threshold K = bip9 d headers window threshold m"
    using m bip9_final_stays [of d headers window threshold "Suc m" K] by auto
  then show "cache_ready d headers window threshold cache K"
    using m cache by (cases "m = K") (simp_all add: cache_ready_def period_entry_def)
  have "(word_of_nat (boundary window m) :: u32) \<noteq> word_of_nat (boundary window (K + 1))"
    using boundary_inj [OF known, of m "K + 1"] m(1) by auto
  then show "cache_ready d headers window threshold cache (K + 1)"
    using cache bip9_at_entry [OF m] by (simp add: cache_ready_def period_entry_def)
qed

lemma threshold_state_ready:
  assumes known: "periods_known d headers window K" and none: "dp_activation d = None"
    and number: "boundary window K < unat number" "unat number \<le> boundary window (K + 1)"
    and ready: "cache_ready d headers window threshold cache K"
  shows "\<exists>cache'. threshold_state cache d number headers window threshold
             = (Ok (bip9 d headers window threshold K, cache') :: ('e, _) outcome)
           \<and> cache_ready d headers window threshold cache' K \<and> cache_ready d headers window threshold cache' (K + 1)"
proof -
  let ?entry = "period_entry d headers window threshold" and ?b = "word_of_nat (boundary window K) :: u32"
  have "number \<noteq> 0" using number by auto
  then have "unat (number - 1) = unat number - 1" using unat_sub [of 1 number] by (simp add: word_le_nat_alt unat_gt_0 Suc_le_eq)
  then have "boundary window K \<le> unat (number - 1)" "unat (number - 1) < boundary window (K + 1)"
    using number by linarith+
  then have first: "first_of_the_period (if number = 0 then 0 else number - 1) window = (Ok ?b :: ('e, u32) outcome)"
    using \<open>number \<noteq> 0\<close> by (simp add: first_of_the_period_eq [OF known])
  obtain h where h: "headers (Number ?b) = Some h" using periods_knownD [OF known] by blast
  have start: "u32_sub window 1 = (Ok (word_of_nat (boundary window 0)) :: ('e, u32) outcome)"
    using known by (simp add: u32_sub_def periods_known_def boundary_def word_le_nat_alt Suc_le_eq of_nat_diff)
  show ?thesis
  proof (cases "cache (dp_name d)")
    case None
    obtain m where m: "m \<le> K" "m = K \<or> state_is_final (bip9 d headers window threshold m)"
        "iterate_last d headers window threshold
           (threshold_iterator_new (word_of_nat (boundary window 0)) window Defined) None
         = (Ok (Some (?entry m)) :: ('e, deployment_state option) outcome)"
      using iterate_from [OF known, of 0 threshold None] by auto
    have "threshold_state cache d number headers window threshold
        = (Ok (bip9 d headers window threshold K, cache(dp_name d \<mapsto> ?entry m)) :: ('e, _) outcome)"
      unfolding threshold_state_def none first using h None start m(3) bip9_at_entry [OF m(1,2)]
      by (simp add: period_entry_def del: and_then_eq_Ok)
    then show ?thesis using entry_ready [OF known m(1,2)] by auto
  next
    case (Some e)
    consider "e = ?entry K" | "state_is_final (ds_state e)" "ds_state e = bip9_before d headers window threshold K"
      | "\<not> state_is_final (ds_state e)" "ds_state e = bip9_before d headers window threshold K" "ds_block_number e \<noteq> ?b"
      using ready Some by (auto simp: cache_ready_def)
    then show ?thesis
    proof cases
      case 1
      then have "threshold_state cache d number headers window threshold
          = (Ok (bip9 d headers window threshold K, cache) :: ('e, _) outcome)"
        unfolding threshold_state_def none first using h Some by (simp add: period_entry_def)
      then show ?thesis using entry_ready [OF known le_refl] Some 1 by auto
    next
      case 2
      then have K: "bip9 d headers window threshold K = ds_state e"
        using bip9_final_stays [of d headers window threshold K "Suc K"] by simp
      then have "threshold_state cache d number headers window threshold
          = (Ok (bip9 d headers window threshold K, cache) :: ('e, _) outcome)"
        unfolding threshold_state_def none first using h Some 2 by simp
      then show ?thesis using K Some 2 by (auto simp: cache_ready_def)
    next
      case 3
      obtain m where m: "K \<le> m" "m \<le> K"
          "iterate_last d headers window threshold (threshold_iterator_new ?b window (ds_state e)) None
           = (Ok (Some (?entry m)) :: ('e, deployment_state option) outcome)"
        using iterate_from [OF known le_refl, of threshold None] 3 by auto
      then have "threshold_state cache d number headers window threshold
          = (Ok (bip9 d headers window threshold K, cache(dp_name d \<mapsto> ?entry K)) :: ('e, _) outcome)"
        unfolding threshold_state_def none first using h Some 3
        by (simp add: period_entry_def del: and_then_eq_Ok)
      then show ?thesis using entry_ready [OF known le_refl] by auto
    qed
  qed
qed


section \<open>Correctness of the cached computation\<close>


text \<open>A chain of signalling headers whose block \<open>k\<close> has the hash \<open>[k]\<close> and the time \<open>k\<close>.\<close>

definition signalling_chain :: "nat \<Rightarrow> header_provider" where
  "signalling_chain n r =
     (let k = (case r of Number m \<Rightarrow> unat m | Hash h \<Rightarrow> (if length h = 1 then unat (hd h) else 255)) in
      if k \<le> n then
        Some \<lparr> ih_hash = [word_of_nat k],
               ih_raw = \<lparr> bh_version = 0x20000001,
                  bh_previous_header_hash = (if k = 0 then [] else [word_of_nat (k - 1)]),
                  bh_merkle_root_hash = [], bh_time = word_of_nat k, bh_bits = 0, bh_nonce = 0 \<rparr> \<rparr>
      else None)"

definition sample_deployment :: deployment where
  "sample_deployment =
     \<lparr> dp_name = ''test'', dp_bit = 0, dp_start_time = 0, dp_timeout = 0xffffffff, dp_activation = None \<rparr>"

lemma signalling_periods:
  "periods_known sample_deployment (signalling_chain 4) 2 1" "periods_known sample_deployment (signalling_chain 2) 2 0"
  by (simp_all add: periods_known_def sample_deployment_def signalling_chain_def boundary_def)

lemma signalling_states:
  "bip9_before sample_deployment (signalling_chain 4) 2 1 (Suc 0) = Started"
  "bip9_before sample_deployment (signalling_chain 4) 2 1 (Suc (Suc 0)) = LockedIn"
  "bip9_before sample_deployment (signalling_chain 2) 2 1 (Suc 0) = Started"
  by code_simp+

lemma empty_ready: "cache_ready d headers window threshold Map.empty K"
  by (simp add: cache_ready_def)


text \<open>
  C28. A deployment that is locked in is active after the next period, and stays so: every query in a
  later period answers \<open>Active\<close>.
\<close>

theorem locked_in_activates:
  assumes "periods_known d headers window K" and "dp_activation d = None"
    and "boundary window K < unat number" "unat number \<le> boundary window (K + 1)"
    and "cache_ready d headers window threshold cache K"
    and "bip9_before d headers window threshold k = LockedIn" "k \<le> K"
  shows "\<exists>cache'. threshold_state cache d number headers window threshold = Ok (Active, cache')"
proof -
  have "bip9_before d headers window threshold (Suc k) = Active"
    using assms(6) by (simp add: bip9_step_def Let_def)
  then have "bip9 d headers window threshold K = Active"
    using bip9_final_stays [of d headers window threshold "Suc k" "Suc K"] assms(7) by simp
  then show ?thesis using threshold_state_ready [OF assms(1-5)] by auto
qed

theorem locked_in_activates_witness:
  "\<exists>cache'. threshold_state Map.empty sample_deployment 7 (signalling_chain 6) 2 1 = (Ok (Active, cache') :: (unit, _) outcome)"
proof (rule locked_in_activates [where K = 2 and k = 2])
  show "periods_known sample_deployment (signalling_chain 6) 2 2"
    by (simp add: periods_known_def sample_deployment_def signalling_chain_def boundary_def upt_rec)
  show "bip9_before sample_deployment (signalling_chain 6) 2 1 2 = LockedIn" by code_simp
qed (simp_all add: boundary_def sample_deployment_def empty_ready)

text \<open>
  C36. The cache makes the answer depend on the order of the queries.  On a chain where BIP 9 has
  locked the deployment in, verifying a block of an earlier period on a side chain steps the cached
  state once more: the earlier block is told that the deployment is active although BIP 9 has it
  only started there, and from then on so is the main chain, a period too early.
\<close>

theorem threshold_state_out_of_order:
  "\<exists>cache cache' cache''.
     threshold_state Map.empty sample_deployment 5 (signalling_chain 4) 2 1 = (Ok (LockedIn, cache) :: (unit, _) outcome)
     \<and> threshold_state cache sample_deployment 3 (signalling_chain 2) 2 1 = (Ok (Active, cache') :: (unit, _) outcome)
     \<and> bip9_before sample_deployment (signalling_chain 2) 2 1 1 = Started
     \<and> threshold_state cache' sample_deployment 5 (signalling_chain 4) 2 1 = (Ok (Active, cache'') :: (unit, _) outcome)"
proof -
  let ?locked = "\<lparr> ds_block_number = 3, ds_block_hash = [3], ds_state = LockedIn \<rparr>"
  let ?active = "\<lparr> ds_block_number = 1, ds_block_hash = [1], ds_state = Active \<rparr>"
  have activation: "dp_activation sample_deployment = None" by (simp add: sample_deployment_def)
  have period: "first_of_the_period 4 2 = (Ok 3 :: (unit, u32) outcome)" "first_of_the_period 2 2 = (Ok 1 :: (unit, u32) outcome)"
    by (simp_all add: first_of_the_period_def u32_sub_def u32_add_def)
  obtain h4 where h4: "signalling_chain 4 (Number 3) = Some h4" "ih_hash h4 = [3]" by (simp add: signalling_chain_def)
  obtain h2 where h2: "signalling_chain 2 (Number 1) = Some h2" "ih_hash h2 = [1]" by (simp add: signalling_chain_def)
  have "iterate_last sample_deployment (signalling_chain 4) 2 1 (threshold_iterator_new 1 2 Defined) None
      = (Ok (Some ?locked) :: (unit, _) outcome)"
  proof -
    obtain m where "m \<le> 1" "m = 1 \<or> state_is_final (bip9 sample_deployment (signalling_chain 4) 2 1 m)"
        "iterate_last sample_deployment (signalling_chain 4) 2 1 (threshold_iterator_new 1 2 Defined) None
         = (Ok (Some (period_entry sample_deployment (signalling_chain 4) 2 1 m)) :: (unit, _) outcome)"
      using iterate_from [OF signalling_periods(1), of 0 1 None] by (auto simp: boundary_def)
    moreover then have "m = 1" using signalling_states(1) by (cases m) auto
    ultimately show ?thesis
      using h4 signalling_states(2) by (simp add: period_entry_def boundary_def)
  qed
  then have first: "threshold_state Map.empty sample_deployment 5 (signalling_chain 4) 2 1
      = (Ok (LockedIn, [dp_name sample_deployment \<mapsto> ?locked]) :: (unit, _) outcome)"
    using h4 period by (simp add: threshold_state_def activation u32_sub_def del: and_then_eq_Ok)
  have "iterate_last sample_deployment (signalling_chain 2) 2 1 (threshold_iterator_new 1 2 LockedIn) None
      = (Ok (Some ?active) :: (unit, _) outcome)"
    using iterate_step [OF signalling_periods(2) le_refl, of h2 1 LockedIn None, where 'a = unit] h2
      iterate_end [OF signalling_periods(2), of 1 Active, where 'a = unit]
    by (simp add: boundary_def bip9_step_def Let_def)
  then have second: "threshold_state [dp_name sample_deployment \<mapsto> ?locked] sample_deployment 3 (signalling_chain 2) 2 1
      = (Ok (Active, [dp_name sample_deployment \<mapsto> ?active]) :: (unit, _) outcome)"
    using h2 period by (simp add: threshold_state_def activation del: and_then_eq_Ok)
  have "threshold_state [dp_name sample_deployment \<mapsto> ?active] sample_deployment 5 (signalling_chain 4) 2 1
      = (Ok (Active, [dp_name sample_deployment \<mapsto> ?active]) :: (unit, _) outcome)"
    using h4 period by (simp add: threshold_state_def activation del: and_then_eq_Ok)
  then show ?thesis using first second signalling_states(3) by auto
qed

end
