(* ===== verification/Verify.thy ===== *)
theory Verify
  imports Signer Deployments
begin

text \<open>
  Context-free verification: \<open>verification/src/error.rs\<close>, \<open>sigops.rs\<close>, \<open>verify_block.rs\<close>,
  \<open>verify_header.rs\<close>, \<open>verify_transaction.rs\<close> and \<open>verify_chain.rs\<close>.

  A verifier struct holds references to what it checks, so a check is a function of the block or
  the transaction and the parameters its constructor stores; the checks of a verifier run in the
  order of its \<open>check\<close>.  The transactions of a block are checked by a parallel fold whose
  combination keeps the error of the first failing transaction; the model checks them in order.
\<close>

section \<open>Errors\<close>

datatype transaction_error =
    TxEmpty
  | NullNonCoinbase
  | TxCoinbaseSignatureLength nat
  | MaxSize
  | MinSize
  | MaxSigops
  | MemoryPoolCoinbase
  | Input nat
  | Maturity
  | Signature nat script_error
  | UnknownReference bytes
  | Overspend
  | SignatureMallformed string
  | Sigops nat
  | SigopsP2SH nat
  | MisplacedCoinbase
  | UnspentTransactionWithTheSameHash
  | UsingSpentOutput bytes u32
  | ReturnReplayProtection
  | PrematureWitness

datatype verification_error =
    Duplicate
  | DuplicatedTransactions
  | Empty
  | Pow
  | FuturisticTimestamp
  | Timestamp
  | Coinbase
  | Transaction nat transaction_error
  | Difficulty compact compact
  | MerkleRoot
  | CoinbaseOverspend u64 u64
  | CoinbaseScript
  | MaximumSigops
  | MaximumSigopsCost
  | CoinbaseSignatureLength nat
  | Size nat
  | Weight
  | NonFinalBlock
  | OldVersionBlock
  | TransactionFeeAndRewardOverflow
  | TransactionFeesOverflow
  | ReferencedInputsSumOverflow
  | WitnessInvalidNonceSize
  | WitnessMerkleCommitmentMismatch
  | UnexpectedWitness
  | NonCanonicalTransactionOrdering
  | Database db_error

type_synonym check = "(verification_error, unit) outcome"
type_synonym tx_check = "(transaction_error, unit) outcome"

datatype verification_level = Full | HeaderLevel | NoVerification

text \<open>The value of a script function that has no error of its own in the sources.\<close>

definition plain_value :: "'a sres \<Rightarrow> ('e, 'a) outcome" where
  "plain_value r = (case r of Ok x \<Rightarrow> Ok x | _ \<Rightarrow> Panic)"

definition plain_option :: "'a option \<Rightarrow> ('e, 'a) outcome" where
  "plain_option r = (case r of Some x \<Rightarrow> Ok x | None \<Rightarrow> Panic)"

text \<open>A sum over a list whose items are computed one by one.\<close>

fun sum_outcomes :: "('e, nat) outcome list \<Rightarrow> ('e, nat) outcome" where
  "sum_outcomes [] = Ok 0"
| "sum_outcomes (r # rs) = and_then r (\<lambda>n. and_then (sum_outcomes rs) (\<lambda>m. Ok (n + m)))"

definition check_all :: "('a \<Rightarrow> ('e, unit) outcome) list \<Rightarrow> 'a \<Rightarrow> ('e, unit) outcome" where
  "check_all checks x = foldr (\<lambda>c rest. and_then (c x) (\<lambda>_. rest)) checks (Ok ())"


section \<open>Signature operations\<close>

text \<open>\<open>None\<close> of \<open>pay_to_script_hash_sigops\<close> is a count that does not return; it does not occur.\<close>

definition p2sh_sigops :: "script \<Rightarrow> bool \<Rightarrow> script \<Rightarrow> ('e, nat) outcome" where
  "p2sh_sigops input_script checkdatasig_active prevout_script =
     and_then (plain_option (pay_to_script_hash_sigops input_script checkdatasig_active prevout_script)) plain_value"

definition input_sigops :: "output_provider \<Rightarrow> bool \<Rightarrow> bool \<Rightarrow> transaction_input \<Rightarrow> ('e, nat) outcome" where
  "input_sigops store bip16_active checkdatasig_active i =
     and_then (plain_value (sigops_count (ti_script_sig i) checkdatasig_active False)) (\<lambda>n.
       if bip16_active then
         (case transaction_output store (ti_previous_output i) usize_max of
            None \<Rightarrow> Ok n
          | Some previous_output \<Rightarrow>
              and_then (p2sh_sigops (ti_script_sig i) checkdatasig_active (to_script_pubkey previous_output)) (\<lambda>m.
                Ok (n + m)))
       else Ok n)"

definition transaction_sigops :: "transaction \<Rightarrow> output_provider \<Rightarrow> bool \<Rightarrow> bool \<Rightarrow> ('e, nat) outcome" where
  "transaction_sigops t store bip16_active checkdatasig_active =
     and_then (sum_outcomes (map (\<lambda>out. plain_value (sigops_count (to_script_pubkey out) checkdatasig_active False)) (tx_outputs t)))
       (\<lambda>output_sigops.
        if tx_is_coinbase t then Ok output_sigops
        else and_then (sum_outcomes (map (input_sigops store bip16_active checkdatasig_active) (tx_inputs t))) (\<lambda>n.
          Ok (n + output_sigops)))"

definition witness_program_sigops :: "u8 \<Rightarrow> bytes \<Rightarrow> bytes list \<Rightarrow> ('e, nat) outcome" where
  "witness_program_sigops witness_version witness_program script_witness =
     (if witness_version = 0 \<and> length witness_program = 20 then Ok 1
      else if witness_version = 0 \<and> length witness_program = 32 then
        (if script_witness = [] then Ok 0
         else plain_value (sigops_count (last script_witness) False True))
      else Ok 0)"

definition witness_sigops :: "script \<Rightarrow> script \<Rightarrow> bytes list \<Rightarrow> ('e, nat) outcome" where
  "witness_sigops script_sig script_pubkey script_witness =
     (case parse_witness_program script_pubkey of
        Some (version, program) \<Rightarrow> witness_program_sigops version program script_witness
      | None \<Rightarrow>
          (if is_pay_to_script_hash script_pubkey \<and> is_push_only script_sig then
             and_then (plain_option (iter_last script_sig 0 None)) (\<lambda>item.
               case item of
                 Some (Ok instruction) \<Rightarrow>
                   (case data_of instruction of
                      Some script \<Rightarrow>
                        (case parse_witness_program script of
                           Some (version, program) \<Rightarrow> witness_program_sigops version program script_witness
                         | None \<Rightarrow> Ok 0)
                    | None \<Rightarrow> Ok 0)
               | _ \<Rightarrow> Ok 0)
           else Ok 0))"

definition transaction_sigops_cost :: "transaction \<Rightarrow> output_provider \<Rightarrow> nat \<Rightarrow> ('e, nat) outcome" where
  "transaction_sigops_cost t store sigops =
     and_then (sum_outcomes (map (\<lambda>i.
         case transaction_output store (ti_previous_output i) usize_max of
           Some out \<Rightarrow> witness_sigops (ti_script_sig i) (to_script_pubkey out) (ti_script_witness i)
         | None \<Rightarrow> Ok 0) (tx_inputs t))) (\<lambda>witness_sigops_cost.
       Ok (sigops * witness_scale_factor + witness_sigops_cost))"


section \<open>Transactions\<close>

definition tx_empty_check :: "indexed_transaction \<Rightarrow> tx_check" where
  "tx_empty_check tx = (if tx_is_empty (it_raw tx) then Err TxEmpty else Ok ())"

definition tx_null_non_coinbase_check :: "indexed_transaction \<Rightarrow> tx_check" where
  "tx_null_non_coinbase_check tx =
     (if \<not> tx_is_coinbase (it_raw tx) \<and> tx_is_null (it_raw tx) then Err NullNonCoinbase else Ok ())"

definition tx_oversized_coinbase_check :: "indexed_transaction \<Rightarrow> tx_check" where
  "tx_oversized_coinbase_check tx =
     (if tx_is_coinbase (it_raw tx) then
        and_then (index (tx_inputs (it_raw tx)) 0) (\<lambda>i.
          let script_len = length (ti_script_sig i) in
          if script_len < MIN_COINBASE_SIZE \<or> script_len > MAX_COINBASE_SIZE
          then Err (TxCoinbaseSignatureLength script_len) else Ok ())
      else Ok ())"

definition tx_memory_pool_coinbase_check :: "indexed_transaction \<Rightarrow> tx_check" where
  "tx_memory_pool_coinbase_check tx = (if tx_is_coinbase (it_raw tx) then Err MemoryPoolCoinbase else Ok ())"

definition tx_max_size_check :: "indexed_transaction \<Rightarrow> tx_check" where
  "tx_max_size_check tx =
     (if length (serialize_transaction 0 (it_raw tx)) > max_transaction_size then Err MaxSize else Ok ())"

definition tx_max_sigops_check :: "nat \<Rightarrow> indexed_transaction \<Rightarrow> tx_check" where
  "tx_max_sigops_check max_sigops tx =
     and_then (transaction_sigops (it_raw tx) noop_store False False) (\<lambda>sigops.
       if sigops > max_sigops then Err MaxSigops else Ok ())"

definition tx_premature_witness_check :: "bool \<Rightarrow> indexed_transaction \<Rightarrow> tx_check" where
  "tx_premature_witness_check segwit_active tx =
     (if \<not> segwit_active \<and> tx_has_witness (it_raw tx) then Err PrematureWitness else Ok ())"

definition transaction_verifier_check :: "indexed_transaction \<Rightarrow> tx_check" where
  "transaction_verifier_check =
     check_all [tx_empty_check, tx_null_non_coinbase_check, tx_oversized_coinbase_check]"

definition memory_pool_transaction_verifier_check :: "bool \<Rightarrow> indexed_transaction \<Rightarrow> tx_check" where
  "memory_pool_transaction_verifier_check segwit_active =
     check_all [tx_empty_check, tx_null_non_coinbase_check, tx_memory_pool_coinbase_check, tx_max_size_check,
       tx_premature_witness_check segwit_active, tx_max_sigops_check absolute_maximum_block_sigops]"


section \<open>Blocks\<close>

definition block_empty_check :: "indexed_block \<Rightarrow> check" where
  "block_empty_check b = (if ib_transactions b = [] then Err Empty else Ok ())"

definition block_serialized_size_check :: "nat \<Rightarrow> indexed_block \<Rightarrow> check" where
  "block_serialized_size_check max_size b =
     (let sz = indexed_block_size b in if sz > max_size then Err (Size sz) else Ok ())"

definition block_coinbase_check :: "indexed_block \<Rightarrow> check" where
  "block_coinbase_check b =
     (case ib_transactions b of
        tx # _ \<Rightarrow> (if tx_is_coinbase (it_raw tx) then Ok () else Err Coinbase)
      | [] \<Rightarrow> Err Coinbase)"

text \<open>\<open>Iterator::position\<close>.\<close>

fun position_from :: "('a \<Rightarrow> bool) \<Rightarrow> nat \<Rightarrow> 'a list \<Rightarrow> nat option" where
  "position_from P i [] = None"
| "position_from P i (x # xs) = (if P x then Some i else position_from P (i + 1) xs)"

definition block_extra_coinbases_check :: "indexed_block \<Rightarrow> check" where
  "block_extra_coinbases_check b =
     (case position_from (\<lambda>tx. tx_is_coinbase (it_raw tx)) 0 (drop 1 (ib_transactions b)) of
        Some i \<Rightarrow> Err (Transaction (i + 1) MisplacedCoinbase)
      | None \<Rightarrow> Ok ())"

definition block_transactions_uniqueness_check :: "indexed_block \<Rightarrow> check" where
  "block_transactions_uniqueness_check b =
     (if card (set (map it_hash (ib_transactions b))) = length (ib_transactions b) then Ok ()
      else Err DuplicatedTransactions)"

definition block_sigops_check :: "nat \<Rightarrow> indexed_block \<Rightarrow> check" where
  "block_sigops_check max_sigops b =
     and_then (sum_outcomes (map (\<lambda>tx. transaction_sigops (it_raw tx) noop_store False False) (ib_transactions b)))
       (\<lambda>sigops. if sigops > max_sigops then Err MaximumSigops else Ok ())"

definition block_merkle_root_check :: "hasher \<Rightarrow> indexed_block \<Rightarrow> check" where
  "block_merkle_root_check h b =
     and_then (plain_option (indexed_block_merkle_root h b)) (\<lambda>root.
       if root = bh_merkle_root_hash (ih_raw (ib_header b)) then Ok () else Err MerkleRoot)"

definition block_verifier_check :: "hasher \<Rightarrow> indexed_block \<Rightarrow> check" where
  "block_verifier_check h =
     check_all [block_empty_check, block_coinbase_check, block_serialized_size_check absolute_maximum_block_size,
       block_extra_coinbases_check, block_transactions_uniqueness_check,
       block_sigops_check absolute_maximum_block_sigops, block_merkle_root_check h]"


section \<open>Headers\<close>

definition header_proof_of_work_check :: "network \<Rightarrow> indexed_header \<Rightarrow> check" where
  "header_proof_of_work_check network header =
     and_then (and_then (network_max_bits network) from_u256) (\<lambda>max_work_bits.
       if is_valid_proof_of_work max_work_bits (bh_bits (ih_raw header)) (ih_hash header) then Ok () else Err Pow)"

definition header_timestamp_check :: "u32 \<Rightarrow> u32 \<Rightarrow> indexed_header \<Rightarrow> check" where
  "header_timestamp_check current_time max_future header =
     and_then (u32_add current_time max_future) (\<lambda>limit.
       if bh_time (ih_raw header) > limit then Err FuturisticTimestamp else Ok ())"

definition header_verifier_check :: "network \<Rightarrow> u32 \<Rightarrow> indexed_header \<Rightarrow> check" where
  "header_verifier_check network current_time =
     check_all [header_proof_of_work_check network, header_timestamp_check current_time (word_of_int BLOCK_MAX_FUTURE)]"


section \<open>The whole block\<close>

fun check_transactions_from :: "nat \<Rightarrow> tx_check list \<Rightarrow> check" where
  "check_transactions_from i [] = Ok ()"
| "check_transactions_from i (c # cs) =
     and_then (map_err (Transaction i) c) (\<lambda>_. check_transactions_from (i + 1) cs)"

definition chain_verifier_check :: "hasher \<Rightarrow> network \<Rightarrow> u32 \<Rightarrow> indexed_block \<Rightarrow> check" where
  "chain_verifier_check h network current_time b =
     and_then (block_verifier_check h b) (\<lambda>_.
     and_then (header_verifier_check network current_time (ib_header b)) (\<lambda>_.
       check_transactions_from 0 (map transaction_verifier_check (ib_transactions b))))"

lemma check_all_Ok: "check_all checks x = Ok () \<longleftrightarrow> list_all (\<lambda>c. c x = Ok ()) checks"
  by (induction checks) (simp_all add: check_all_def)

lemma check_transactions_Ok: "check_transactions_from i cs = Ok () \<longleftrightarrow> list_all (\<lambda>c. c = Ok ()) cs"
  by (induction cs arbitrary: i) simp_all

end
