(* ===== verification/Accept.thy ===== *)
theory Accept
  imports Verify
begin

text \<open>
  Verification in the context of the chain: \<open>verification/src/accept_block.rs\<close>,
  \<open>accept_header.rs\<close>, \<open>accept_transaction.rs\<close>, \<open>accept_chain.rs\<close> and \<open>chain_verifier.rs\<close>.

  The stores are arguments: a header provider, a provider of previous outputs and one of index
  entries.  The constructors of the acceptors ask the deployments for their state; since every
  such question may update the shared cache, \<open>chain_acceptor_check\<close> threads the cache through
  them in the order of the sources.
\<close>

type_synonym meta_provider = "bytes \<Rightarrow> transaction_meta option"


section \<open>Headers\<close>

definition header_version_check :: "consensus_params \<Rightarrow> u32 \<Rightarrow> indexed_header \<Rightarrow> check" where
  "header_version_check params height header =
     (let version = bh_version (ih_raw header) in
      if (version < 2 \<and> height \<ge> cp_bip34_height params) \<or> (version < 3 \<and> height \<ge> cp_bip66_height params)
         \<or> (version < 4 \<and> height \<ge> cp_bip65_height params)
      then Err OldVersionBlock else Ok ())"

definition header_work_check ::
    "(u256 \<Rightarrow> (verification_error, u256) outcome) \<Rightarrow> header_provider \<Rightarrow> consensus_params \<Rightarrow> u32 \<Rightarrow> indexed_header \<Rightarrow> check" where
  "header_work_check ov store params height header =
     and_then (work_required ov (bh_previous_header_hash (ih_raw header)) (bh_time (ih_raw header)) height store params) (\<lambda>work.
       if work = bh_bits (ih_raw header) then Ok () else Err (Difficulty work (bh_bits (ih_raw header))))"

definition header_median_timestamp_check :: "header_provider \<Rightarrow> bool \<Rightarrow> indexed_header \<Rightarrow> check" where
  "header_median_timestamp_check store csv_active header =
     (if csv_active \<and> bh_time (ih_raw header) \<le> median_timestamp (ih_raw header) store then Err Timestamp else Ok ())"

definition header_acceptor_check ::
    "(u256 \<Rightarrow> (verification_error, u256) outcome) \<Rightarrow> header_provider \<Rightarrow> consensus_params \<Rightarrow> u32 \<Rightarrow> bool \<Rightarrow> indexed_header \<Rightarrow> check" where
  "header_acceptor_check ov store params height csv_active =
     check_all [header_version_check params height, header_work_check ov store params height,
       header_median_timestamp_check store csv_active]"


section \<open>Blocks\<close>

definition block_finality_check :: "u32 \<Rightarrow> bool \<Rightarrow> header_provider \<Rightarrow> indexed_block \<Rightarrow> check" where
  "block_finality_check height csv_active headers b =
     (let time_cutoff = (if csv_active then median_timestamp (ih_raw (ib_header b)) headers
                         else bh_time (ih_raw (ib_header b))) in
      if list_all (\<lambda>tx. tx_is_final_in_block (it_raw tx) height time_cutoff) (ib_transactions b)
      then Ok () else Err NonFinalBlock)"

definition block_size_check :: "consensus_params \<Rightarrow> u32 \<Rightarrow> u32 \<Rightarrow> bool \<Rightarrow> indexed_block \<Rightarrow> check" where
  "block_size_check params height median_time_past segwit_active b =
     (let sz = indexed_block_size b in
      if sz < min_block_size (cp_fork params) height \<or> sz > max_block_size (cp_fork params) height median_time_past
      then Err (Size sz)
      else if segwit_active then
        (let weight = sz * (witness_scale_factor - 1) + indexed_block_size_with_witness b in
         and_then (max_block_weight (cp_fork params)) (\<lambda>max_weight.
           if weight > max_weight then Err Weight else Ok ()))
      else Ok ())"

definition checkdatasig_active_at :: "consensus_params \<Rightarrow> u32 \<Rightarrow> bool" where
  "checkdatasig_active_at params time =
     (case cp_fork params of BitcoinCash fork \<Rightarrow> time \<ge> bc_magnetic_anomaly_time fork | BitcoinCore \<Rightarrow> False)"

text \<open>The fold over the transactions, with the two running totals.\<close>

fun sigops_totals :: "output_provider \<Rightarrow> bool \<Rightarrow> bool \<Rightarrow> indexed_transaction list \<Rightarrow> ('e, nat \<times> nat) outcome" where
  "sigops_totals store bip16_active checkdatasig_active [] = Ok (0, 0)"
| "sigops_totals store bip16_active checkdatasig_active (tx # txs) =
     and_then (transaction_sigops (it_raw tx) store bip16_active checkdatasig_active) (\<lambda>n.
     and_then (transaction_sigops_cost (it_raw tx) store n) (\<lambda>c.
     and_then (sigops_totals store bip16_active checkdatasig_active txs) (\<lambda>(ns, cs). Ok (n + ns, c + cs))))"

definition block_sigops_cost_check ::
    "output_provider \<Rightarrow> consensus_params \<Rightarrow> u32 \<Rightarrow> u32 \<Rightarrow> indexed_block \<Rightarrow> check" where
  "block_sigops_cost_check tx_store params height median_time_past b =
     (let bip16_active = (bh_time (ih_raw (ib_header b)) \<ge> cp_bip16_time params);
          checkdatasig_active = checkdatasig_active_at params median_time_past;
          store = duplex tx_store (block_outputs b) in
      and_then (sigops_totals store bip16_active checkdatasig_active (ib_transactions b)) (\<lambda>(sigops, sigops_cost).
        let sz = indexed_block_size b in
        and_then (max_block_sigops (cp_fork params) height sz) (\<lambda>max_sigops.
          if sigops > max_sigops then Err MaximumSigops
          else and_then (max_block_sigops_cost (cp_fork params) height sz) (\<lambda>max_cost.
            if sigops_cost > max_cost then Err MaximumSigopsCost else Ok ()))))"

text \<open>\<open>BlockCoinbaseClaim::check\<close>: the inner loop over the inputs and the outer loop over the transactions.\<close>

fun referenced_sum :: "output_provider \<Rightarrow> nat \<Rightarrow> u64 \<Rightarrow> transaction_input list \<Rightarrow> (verification_error, u64) outcome" where
  "referenced_sum store prevout_tx_idx incoming [] = Ok incoming"
| "referenced_sum store prevout_tx_idx incoming (i # is) =
     (let v = (case transaction_output store (ti_previous_output i) prevout_tx_idx of Some out \<Rightarrow> to_value out | None \<Rightarrow> 0) in
      if unat incoming + unat v \<ge> 2 ^ 64 then Err ReferencedInputsSumOverflow
      else referenced_sum store prevout_tx_idx (incoming + v) is)"

fun claim_fees ::
    "output_provider \<Rightarrow> transaction_ordering \<Rightarrow> nat \<Rightarrow> u64 \<Rightarrow> indexed_transaction list \<Rightarrow> (verification_error, u64) outcome" where
  "claim_fees store tx_ordering tx_idx fees [] = Ok fees"
| "claim_fees store tx_ordering tx_idx fees (tx # txs) =
     and_then (referenced_sum store (transaction_index_for_output_check tx_ordering tx_idx) 0 (tx_inputs (it_raw tx))) (\<lambda>incoming.
       let spends = total_spends (it_raw tx) in
       if incoming < spends then Err (Transaction tx_idx Overspend)
       else if unat fees + unat (incoming - spends) \<ge> 2 ^ 64 then Err TransactionFeesOverflow
       else claim_fees store tx_ordering (tx_idx + 1) (fees + (incoming - spends)) txs)"

definition block_coinbase_claim_check ::
    "output_provider \<Rightarrow> consensus_params \<Rightarrow> u32 \<Rightarrow> u32 \<Rightarrow> indexed_block \<Rightarrow> check" where
  "block_coinbase_claim_check tx_store params height median_time_past b =
     (let store = duplex tx_store (block_outputs b);
          tx_ordering = fork_transaction_ordering (cp_fork params) median_time_past in
      and_then (claim_fees store tx_ordering 1 0 (drop 1 (ib_transactions b))) (\<lambda>fees.
      and_then (index (ib_transactions b) 0) (\<lambda>coinbase.
        let claim = total_spends (it_raw coinbase);
            subsidy = block_reward_satoshi height in
        if unat fees + unat subsidy \<ge> 2 ^ 64 then Err TransactionFeeAndRewardOverflow
        else if claim > fees + subsidy then Err (CoinbaseOverspend (fees + subsidy) claim)
        else Ok ())))"

definition block_coinbase_script_check :: "consensus_params \<Rightarrow> u32 \<Rightarrow> indexed_block \<Rightarrow> check" where
  "block_coinbase_script_check params height b =
     (if \<not> height \<ge> cp_bip34_height params then Ok ()
      else and_then (plain_value (push_num [] (uint height))) (\<lambda>prefix.
        let matches =
          (case ib_transactions b of
             tx # _ \<Rightarrow>
               (case tx_inputs (it_raw tx) of
                  i # _ \<Rightarrow> take (length prefix) (ti_script_sig i) = prefix
                | [] \<Rightarrow> False)
           | [] \<Rightarrow> False) in
        if matches then Ok () else Err CoinbaseScript))"

text \<open>The commitment is the last matching output of the coinbase.\<close>

definition block_witness_check :: "hasher \<Rightarrow> bool \<Rightarrow> indexed_block \<Rightarrow> check" where
  "block_witness_check h segwit_active b =
     (if \<not> segwit_active then Ok ()
      else
        and_then
          (case ib_transactions b of
             [] \<Rightarrow> Ok False
           | coinbase # _ \<Rightarrow>
               (case find (\<lambda>out. is_witness_commitment_script (to_script_pubkey out)) (rev (tx_outputs (it_raw coinbase))) of
                  None \<Rightarrow> Ok False
                | Some commitment \<Rightarrow>
                    and_then (plain_option (witness_merkle_root h b)) (\<lambda>root.
                      case tx_inputs (it_raw coinbase) of
                        [] \<Rightarrow> Err WitnessInvalidNonceSize
                      | i # _ \<Rightarrow>
                          (if length (ti_script_witness i) \<noteq> 1 \<or> length (ti_script_witness i ! 0) \<noteq> 32
                           then Err WitnessInvalidNonceSize
                           else if dhash256 h (root @ ti_script_witness i ! 0) \<noteq> take 32 (drop 6 (to_script_pubkey commitment))
                           then Err WitnessMerkleCommitmentMismatch
                           else Ok True)))) (\<lambda>has_witness.
          if \<not> has_witness \<and> list_ex (\<lambda>tx. tx_has_witness (it_raw tx)) (ib_transactions b) then Err UnexpectedWitness
          else Ok ()))"

text \<open>Hashes are compared as byte strings.\<close>

fun all_windows :: "('a \<Rightarrow> 'a \<Rightarrow> bool) \<Rightarrow> 'a list \<Rightarrow> bool" where
  "all_windows P (x # y # xs) = (P x y \<and> all_windows P (y # xs))"
| "all_windows P _ = True"

definition block_transaction_ordering_check :: "consensus_params \<Rightarrow> u32 \<Rightarrow> indexed_block \<Rightarrow> check" where
  "block_transaction_ordering_check params median_time_past b =
     (case fork_transaction_ordering (cp_fork params) median_time_past of
        Topological \<Rightarrow> Ok ()
      | Canonical \<Rightarrow>
          (if all_windows (\<lambda>x y. ord_class.lexordp (it_hash x) (it_hash y)) (drop 1 (ib_transactions b)) then Ok ()
           else Err NonCanonicalTransactionOrdering))"

definition block_acceptor_check ::
    "hasher \<Rightarrow> output_provider \<Rightarrow> consensus_params \<Rightarrow> u32 \<Rightarrow> u32 \<Rightarrow> bool \<Rightarrow> bool \<Rightarrow> bool \<Rightarrow> header_provider \<Rightarrow> indexed_block \<Rightarrow> check" where
  "block_acceptor_check h store params height median_time_past csv_finality segwit_size segwit_witness headers =
     check_all [block_finality_check height csv_finality headers, block_sigops_cost_check store params height median_time_past,
       block_size_check params height median_time_past segwit_size,
       block_coinbase_claim_check store params height median_time_past,
       block_coinbase_script_check params height, block_witness_check h segwit_witness,
       block_transaction_ordering_check params median_time_past]"


section \<open>Transactions\<close>

definition tx_min_size_check :: "consensus_params \<Rightarrow> u32 \<Rightarrow> indexed_transaction \<Rightarrow> tx_check" where
  "tx_min_size_check params median_time_past tx =
     (let min_size = min_transaction_size (cp_fork params) median_time_past in
      if min_size \<noteq> 0 \<and> length (serialize_transaction 0 (it_raw tx)) < min_size then Err MinSize else Ok ())"

definition tx_bip30_check :: "meta_provider \<Rightarrow> bytes \<Rightarrow> u32 \<Rightarrow> indexed_transaction \<Rightarrow> tx_check" where
  "tx_bip30_check store block_hash height tx =
     (case store (it_hash tx) of
        Some meta \<Rightarrow>
          (if \<not> is_fully_spent meta \<and> \<not> is_bip30_exception block_hash height
           then Err UnspentTransactionWithTheSameHash else Ok ())
      | None \<Rightarrow> Ok ())"

definition tx_missing_inputs_check :: "output_provider \<Rightarrow> nat \<Rightarrow> indexed_transaction \<Rightarrow> tx_check" where
  "tx_missing_inputs_check store transaction_index tx =
     (case position_from (\<lambda>i. \<not> out_point_is_null (ti_previous_output i)
               \<and> transaction_output store (ti_previous_output i) transaction_index = None) 0 (tx_inputs (it_raw tx)) of
        Some i \<Rightarrow> Err (Input i)
      | None \<Rightarrow> Ok ())"

fun immature_spend :: "meta_provider \<Rightarrow> u32 \<Rightarrow> transaction_input list \<Rightarrow> ('e, bool) outcome" where
  "immature_spend store height [] = Ok False"
| "immature_spend store height (i # is) =
     (case store (out_point.op_hash (ti_previous_output i)) of
        None \<Rightarrow> immature_spend store height is
      | Some meta \<Rightarrow>
          and_then (meta_is_coinbase meta) (\<lambda>coinbase.
            if coinbase then
              and_then (u32_add (tm_block_height meta) COINBASE_MATURITY) (\<lambda>mature.
                if height < mature then Ok True else immature_spend store height is)
            else immature_spend store height is))"

definition tx_maturity_check :: "meta_provider \<Rightarrow> u32 \<Rightarrow> indexed_transaction \<Rightarrow> tx_check" where
  "tx_maturity_check store height tx =
     and_then (immature_spend store height (tx_inputs (it_raw tx))) (\<lambda>immature.
       if immature then Err Maturity else Ok ())"

text \<open>\<open>sum::<u64>()\<close>: the addition is not guarded.\<close>

fun available_sum :: "output_provider \<Rightarrow> u64 \<Rightarrow> transaction_input list \<Rightarrow> ('e, u64) outcome" where
  "available_sum store available [] = Ok available"
| "available_sum store available (i # is) =
     (let v = (case transaction_output store (ti_previous_output i) usize_max of Some out \<Rightarrow> to_value out | None \<Rightarrow> 0) in
      if unat available + unat v \<ge> 2 ^ 64 then Panic else available_sum store (available + v) is)"

definition tx_overspent_check :: "output_provider \<Rightarrow> indexed_transaction \<Rightarrow> tx_check" where
  "tx_overspent_check store tx =
     (if tx_is_coinbase (it_raw tx) then Ok ()
      else and_then (available_sum store 0 (tx_inputs (it_raw tx))) (\<lambda>available.
        if total_spends (it_raw tx) > available then Err Overspend else Ok ()))"

definition tx_sigops_check :: "output_provider \<Rightarrow> consensus_params \<Rightarrow> nat \<Rightarrow> u32 \<Rightarrow> indexed_transaction \<Rightarrow> tx_check" where
  "tx_sigops_check store params max_sigops time tx =
     and_then (transaction_sigops (it_raw tx) store (time \<ge> cp_bip16_time params) (checkdatasig_active_at params time)) (\<lambda>sigops.
       if sigops > max_sigops then Err MaxSigops else Ok ())"

fun first_spent :: "output_provider \<Rightarrow> transaction_input list \<Rightarrow> tx_check" where
  "first_spent store [] = Ok ()"
| "first_spent store (i # is) =
     (if is_spent store (ti_previous_output i)
      then Err (UsingSpentOutput (out_point.op_hash (ti_previous_output i)) (op_index (ti_previous_output i)))
      else first_spent store is)"

definition tx_double_spend_check :: "output_provider \<Rightarrow> indexed_transaction \<Rightarrow> tx_check" where
  "tx_double_spend_check store tx =
     (if tx_is_coinbase (it_raw tx) then Ok () else first_spent store (tx_inputs (it_raw tx)))"

text \<open>The bytes of the literal \<open>Bitcoin: A Peer-to-Peer Electronic Cash System\<close>.\<close>

definition replay_protection_text :: bytes where
  "replay_protection_text =
     [0x42, 0x69, 0x74, 0x63, 0x6f, 0x69, 0x6e, 0x3a, 0x20, 0x41, 0x20, 0x50, 0x65, 0x65, 0x72, 0x2d, 0x74, 0x6f,
      0x2d, 0x50, 0x65, 0x65, 0x72, 0x20, 0x45, 0x6c, 0x65, 0x63, 0x74, 0x72, 0x6f, 0x6e, 0x69, 0x63, 0x20, 0x43,
      0x61, 0x73, 0x68, 0x20, 0x53, 0x79, 0x73, 0x74, 0x65, 0x6d]"

definition tx_return_replay_protection_check :: "consensus_params \<Rightarrow> u32 \<Rightarrow> indexed_transaction \<Rightarrow> tx_check" where
  "tx_return_replay_protection_check params height tx =
     (case cp_fork params of
        BitcoinCash fork \<Rightarrow>
          (if height \<ge> bc_height fork \<and> height \<le> 530000 then
             and_then (plain_value (return_bytes [] replay_protection_text)) (\<lambda>script.
               if list_ex (\<lambda>out. to_script_pubkey out = script) (tx_outputs (it_raw tx)) then Err ReturnReplayProtection
               else Ok ())
           else Ok ())
      | BitcoinCore \<Rightarrow> Ok ())"

definition eval_flags :: "consensus_params \<Rightarrow> u32 \<Rightarrow> u32 \<Rightarrow> u32 \<Rightarrow> bool \<Rightarrow> bool \<Rightarrow> verification_flags" where
  "eval_flags params height time median_time csv segwit =
     (let monolith = (case cp_fork params of
            BitcoinCash fork \<Rightarrow> median_time \<ge> bc_monolith_time fork | BitcoinCore \<Rightarrow> False);
          anomaly = checkdatasig_active_at params median_time in
      default_flags
        \<lparr> verify_p2sh := time \<ge> cp_bip16_time params,
          verify_strictenc := (case cp_fork params of BitcoinCash fork \<Rightarrow> height \<ge> bc_height fork | BitcoinCore \<Rightarrow> False),
          verify_locktime := height \<ge> cp_bip65_height params,
          verify_checksequence := csv,
          verify_dersig := height \<ge> cp_bip66_height params,
          verify_nulldummy := segwit,
          verify_witness := segwit,
          verify_concat := monolith, verify_split := monolith, verify_and := monolith, verify_or := monolith,
          verify_xor := monolith, verify_div := monolith, verify_mod := monolith, verify_bin2num := monolith,
          verify_num2bin := monolith,
          verify_checkdatasig := anomaly,
          verify_sigpushonly := anomaly,
          verify_cleanstack := anomaly \<rparr>)"

definition eval_signature_version :: "consensus_params \<Rightarrow> u32 \<Rightarrow> signature_version" where
  "eval_signature_version params height =
     (case cp_fork params of
        BitcoinCash fork \<Rightarrow> if height \<ge> bc_height fork then ForkId else Base
      | BitcoinCore \<Rightarrow> Base)"

fun eval_inputs ::
    "hasher \<Rightarrow> secp256k1 \<Rightarrow> output_provider \<Rightarrow> verification_flags \<Rightarrow> signature_version \<Rightarrow> transaction \<Rightarrow> nat \<Rightarrow>
      transaction_input list \<Rightarrow> tx_check" where
  "eval_inputs h secp store flags version t i [] = Ok ()"
| "eval_inputs h secp store flags version t i (inp # inps) =
     (case transaction_output store (ti_previous_output inp) usize_max of
        None \<Rightarrow> Err (UnknownReference (out_point.op_hash (ti_previous_output inp)))
      | Some out \<Rightarrow>
          and_then (map_err (Signature i)
              (verify_script h (ti_script_sig inp) (to_script_pubkey out) (ti_script_witness inp) flags
                 (transaction_signature_checker h secp (signer_from t) i (to_value out)) version))
            (\<lambda>_. eval_inputs h secp store flags version t (i + 1) inps))"

definition tx_eval_check ::
    "hasher \<Rightarrow> secp256k1 \<Rightarrow> output_provider \<Rightarrow> consensus_params \<Rightarrow> verification_level \<Rightarrow> u32 \<Rightarrow> u32 \<Rightarrow> u32 \<Rightarrow> bool \<Rightarrow> bool \<Rightarrow>
      indexed_transaction \<Rightarrow> tx_check" where
  "tx_eval_check h secp store params level height time median_time csv segwit tx =
     (if level = HeaderLevel \<or> level = NoVerification then Ok ()
      else if tx_is_coinbase (it_raw tx) then Ok ()
      else eval_inputs h secp store (eval_flags params height time median_time csv segwit)
             (eval_signature_version params height) (it_raw tx) 0 (tx_inputs (it_raw tx)))"

text \<open>The answers of the deployments that the acceptor of one transaction stores.\<close>

record tx_deployments =
  td_premature_segwit :: bool
  td_csv :: bool
  td_segwit :: bool

definition transaction_acceptor_check ::
    "hasher \<Rightarrow> secp256k1 \<Rightarrow> meta_provider \<Rightarrow> output_provider \<Rightarrow> consensus_params \<Rightarrow> verification_level \<Rightarrow> bytes \<Rightarrow>
      u32 \<Rightarrow> u32 \<Rightarrow> u32 \<Rightarrow> nat \<Rightarrow> tx_deployments \<Rightarrow> indexed_transaction \<Rightarrow> tx_check" where
  "transaction_acceptor_check h secp meta_store output_store params level block_hash height time median_time_past tx_index td =
     (let missing_input_tx_index =
        transaction_index_for_output_check (fork_transaction_ordering (cp_fork params) median_time_past) tx_index in
      check_all [tx_min_size_check params median_time_past, tx_premature_witness_check (td_premature_segwit td),
        tx_bip30_check meta_store block_hash height, tx_missing_inputs_check output_store missing_input_tx_index,
        tx_maturity_check meta_store height, tx_overspent_check output_store, tx_double_spend_check output_store,
        tx_return_replay_protection_check params height,
        tx_eval_check h secp output_store params level height time median_time_past (td_csv td) (td_segwit td)])"

definition memory_pool_transaction_acceptor_check ::
    "hasher \<Rightarrow> secp256k1 \<Rightarrow> meta_provider \<Rightarrow> output_provider \<Rightarrow> consensus_params \<Rightarrow> u32 \<Rightarrow> u32 \<Rightarrow> u32 \<Rightarrow> bool \<Rightarrow> bool \<Rightarrow>
      indexed_transaction \<Rightarrow> tx_check" where
  "memory_pool_transaction_acceptor_check h secp meta_store output_store params height time median_time_past csv segwit tx =
     and_then (max_block_sigops (cp_fork params) height (max_block_size (cp_fork params) height median_time_past)) (\<lambda>max_sigops.
       check_all [tx_min_size_check params median_time_past, tx_missing_inputs_check output_store 0,
         tx_maturity_check meta_store height, tx_overspent_check output_store,
         tx_sigops_check output_store params max_sigops time, tx_double_spend_check output_store,
         tx_return_replay_protection_check params height,
         tx_eval_check h secp output_store params Full height time median_time_past csv segwit] tx)"


section \<open>The whole block\<close>

fun deployments_of_transactions ::
    "u32 \<Rightarrow> header_provider \<Rightarrow> consensus_params \<Rightarrow> 'a list \<Rightarrow> deployment_state_cache \<Rightarrow>
      ('e, tx_deployments list \<times> deployment_state_cache) outcome" where
  "deployments_of_transactions number headers params [] cache = Ok ([], cache)"
| "deployments_of_transactions number headers params (_ # txs) cache =
     and_then (deployments_segwit cache number headers params) (\<lambda>(premature, cache).
     and_then (deployments_csv cache number headers params) (\<lambda>(csv, cache).
     and_then (deployments_segwit cache number headers params) (\<lambda>(segwit, cache).
     and_then (deployments_of_transactions number headers params txs cache) (\<lambda>(tds, cache).
       Ok (\<lparr> td_premature_segwit = premature, td_csv = csv, td_segwit = segwit \<rparr> # tds, cache)))))"

definition transaction_checks ::
    "hasher \<Rightarrow> secp256k1 \<Rightarrow> meta_provider \<Rightarrow> output_provider \<Rightarrow> consensus_params \<Rightarrow> verification_level \<Rightarrow> indexed_block \<Rightarrow>
      u32 \<Rightarrow> u32 \<Rightarrow> tx_deployments list \<Rightarrow> tx_check list" where
  "transaction_checks h secp meta_store output_store params level b height median_time_past tds =
     map (\<lambda>(i, td, tx). transaction_acceptor_check h secp meta_store output_store params level (ih_hash (ib_header b))
            height (bh_time (ih_raw (ib_header b))) median_time_past i td tx)
       (enumerate 0 (zip tds (ib_transactions b)))"

text \<open>
  \<open>ChainAcceptor::new\<close>: the answers of the deployments, in the order in which the constructors ask
  for them.
\<close>

record chain_acceptor =
  ca_csv_finality :: bool
  ca_segwit_size :: bool
  ca_segwit_witness :: bool
  ca_csv_header :: bool
  ca_transactions :: "tx_deployments list"

definition chain_acceptor_new ::
    "header_provider \<Rightarrow> consensus_params \<Rightarrow> indexed_block \<Rightarrow> u32 \<Rightarrow> deployment_state_cache \<Rightarrow>
      (verification_error, chain_acceptor \<times> deployment_state_cache) outcome" where
  "chain_acceptor_new headers params b height cache =
     and_then (deployments_csv cache height headers params) (\<lambda>(csv_finality, cache).
     and_then (deployments_segwit cache height headers params) (\<lambda>(segwit_size, cache).
     and_then (deployments_segwit cache height headers params) (\<lambda>(segwit_witness, cache).
     and_then (deployments_csv cache height headers params) (\<lambda>(csv_header, cache).
     and_then (deployments_of_transactions height headers params (ib_transactions b) cache) (\<lambda>(tds, cache).
       Ok (\<lparr> ca_csv_finality = csv_finality, ca_segwit_size = segwit_size, ca_segwit_witness = segwit_witness,
             ca_csv_header = csv_header, ca_transactions = tds \<rparr>, cache))))))"

definition chain_acceptor_check ::
    "hasher \<Rightarrow> secp256k1 \<Rightarrow> (u256 \<Rightarrow> (verification_error, u256) outcome) \<Rightarrow> output_provider \<Rightarrow> meta_provider \<Rightarrow> header_provider \<Rightarrow>
      consensus_params \<Rightarrow> verification_level \<Rightarrow> indexed_block \<Rightarrow> u32 \<Rightarrow> u32 \<Rightarrow> chain_acceptor \<Rightarrow> check" where
  "chain_acceptor_check h secp ov outputs metas headers params level b height median_time_past ca =
     and_then (block_acceptor_check h outputs params height median_time_past (ca_csv_finality ca) (ca_segwit_size ca)
         (ca_segwit_witness ca) headers b) (\<lambda>_.
     and_then (header_acceptor_check ov headers params height (ca_csv_header ca) (ib_header b)) (\<lambda>_.
       check_transactions_from 0
         (transaction_checks h secp metas (duplex outputs (block_outputs b)) params level b height median_time_past
           (ca_transactions ca))))"


section \<open>The chain verifier\<close>

text \<open>The stores of the main chain or of a fork, and the store of the verifier.\<close>

record sub_store =
  ss_outputs :: output_provider
  ss_metas :: meta_provider
  ss_headers :: header_provider

record canon_store =
  cs_best_block :: best_block
  cs_block_hash :: "u32 \<Rightarrow> bytes option"
  cs_block_origin :: "indexed_header \<Rightarrow> (db_error, block_origin) outcome"
  cs_store :: sub_store
  cs_fork :: "side_chain_origin \<Rightarrow> (db_error, sub_store) outcome"

text \<open>
  The verifier returns its result and the cache of its deployments, which is updated whether or not
  the block is accepted.  The second assertion about the best block repeats the first one: nothing in
  between writes to the store.
\<close>

definition accept_block_on ::
    "hasher \<Rightarrow> secp256k1 \<Rightarrow> (u256 \<Rightarrow> (verification_error, u256) outcome) \<Rightarrow> consensus_params \<Rightarrow> verification_level \<Rightarrow>
      indexed_block \<Rightarrow> u32 \<Rightarrow> sub_store \<Rightarrow> u32 \<Rightarrow> deployment_state_cache \<Rightarrow> check \<times> deployment_state_cache" where
  "accept_block_on h secp ov params level b median_time_past s number cache =
     (case chain_acceptor_new (ss_headers s) params b number cache of
        Ok (ca, cache) \<Rightarrow>
          (chain_acceptor_check h secp ov (ss_outputs s) (ss_metas s) (ss_headers s) params level b number median_time_past ca, cache)
      | Err e \<Rightarrow> (Err e, cache)
      | Panic \<Rightarrow> (Panic, cache))"

definition verify_block ::
    "hasher \<Rightarrow> secp256k1 \<Rightarrow> (u256 \<Rightarrow> (verification_error, u256) outcome) \<Rightarrow> u32 \<Rightarrow> canon_store \<Rightarrow> consensus_params \<Rightarrow>
      verification_level \<Rightarrow> indexed_block \<Rightarrow> deployment_state_cache \<Rightarrow> check \<times> deployment_state_cache" where
  "verify_block h secp ov current_time store params level b cache =
     (if level = NoVerification then (Ok (), cache)
      else case chain_verifier_check h (cp_network params) current_time b of
        Err e \<Rightarrow> (Err e, cache)
      | Panic \<Rightarrow> (Panic, cache)
      | Ok _ \<Rightarrow>
          (if cs_block_hash store (bb_number (cs_best_block store)) \<noteq> Some (bb_hash (cs_best_block store)) then (Panic, cache)
           else case cs_block_origin store (ib_header b) of
             Err e \<Rightarrow> (Err (Database e), cache)
           | Panic \<Rightarrow> (Panic, cache)
           | Ok origin \<Rightarrow>
               (let median_time_past =
                      median_timestamp_inclusive (bh_previous_header_hash (ih_raw (ib_header b))) (ss_headers (cs_store store));
                    on_fork = (\<lambda>origin.
                      case cs_fork store origin of
                        Err e \<Rightarrow> (Err (Database e), cache)
                      | Panic \<Rightarrow> (Panic, cache)
                      | Ok fork \<Rightarrow> accept_block_on h secp ov params level b median_time_past fork (sc_block_number origin) cache) in
                case origin of
                  KnownBlock \<Rightarrow> (Panic, cache)
                | CanonChain block_number \<Rightarrow>
                    accept_block_on h secp ov params level b median_time_past (cs_store store) block_number cache
                | SideChain origin \<Rightarrow> on_fork origin
                | SideChainBecomingCanonChain origin \<Rightarrow> on_fork origin)))"

definition verify_block_header :: "consensus_params \<Rightarrow> u32 \<Rightarrow> bytes \<Rightarrow> block_header \<Rightarrow> check" where
  "verify_block_header params current_time hash header =
     header_verifier_check (cp_network params) current_time \<lparr> ih_hash = hash, ih_raw = header \<rparr>"

definition verify_mempool_transaction ::
    "hasher \<Rightarrow> secp256k1 \<Rightarrow> meta_provider \<Rightarrow> consensus_params \<Rightarrow> header_provider \<Rightarrow> output_provider \<Rightarrow> u32 \<Rightarrow> u32 \<Rightarrow>
      indexed_transaction \<Rightarrow> deployment_state_cache \<Rightarrow> tx_check \<times> deployment_state_cache" where
  "verify_mempool_transaction h secp metas params headers prevout_provider height time tx cache =
     (case deployments_segwit cache height headers params of
        Err e \<Rightarrow> (Err e, cache)
      | Panic \<Rightarrow> (Panic, cache)
      | Ok (premature_segwit, cache) \<Rightarrow>
          (case and_then (memory_pool_transaction_verifier_check premature_segwit tx) (\<lambda>_.
                and_then (u32_sub height 1) (\<lambda>previous_block_number. expect (headers (Number previous_block_number)))) of
             Err e \<Rightarrow> (Err e, cache)
           | Panic \<Rightarrow> (Panic, cache)
           | Ok previous_block_header \<Rightarrow>
               (case and_then (deployments_csv cache height headers params) (\<lambda>(csv, cache).
                     and_then (deployments_segwit cache height headers params) (\<lambda>(segwit, cache). Ok (csv, segwit, cache))) of
                  Err e \<Rightarrow> (Err e, cache)
                | Panic \<Rightarrow> (Panic, cache)
                | Ok (csv, segwit, cache) \<Rightarrow>
                    (memory_pool_transaction_acceptor_check h secp metas (duplex prevout_provider noop_store) params height time
                       (median_timestamp_inclusive (ih_hash previous_block_header) headers) csv segwit tx, cache))))"

end
