(* ===== verification/Accept_Props.thy ===== *)
theory Accept_Props
  imports Accept
begin

text \<open>
  What an accepted block guarantees (no value is created beyond the subsidy, no output is spent
  twice, a duplicated tail is refused, median time does not go back), and a crash of the
  memory-pool acceptor.
\<close>

section \<open>Value\<close>

definition prevout_value :: "output_provider \<Rightarrow> nat \<Rightarrow> transaction_input \<Rightarrow> nat" where
  "prevout_value store idx i =
     (case transaction_output store (ti_previous_output i) idx of Some out \<Rightarrow> unat (to_value out) | None \<Rightarrow> 0)"

definition incoming_value :: "output_provider \<Rightarrow> transaction_ordering \<Rightarrow> nat \<times> indexed_transaction \<Rightarrow> nat" where
  "incoming_value store tx_ordering =
     (\<lambda>(i, tx). \<Sum>inp\<leftarrow>tx_inputs (it_raw tx). prevout_value store (transaction_index_for_output_check tx_ordering i) inp)"

definition outgoing_value :: "indexed_transaction \<Rightarrow> nat" where
  "outgoing_value tx = min (\<Sum>out\<leftarrow>tx_outputs (it_raw tx). unat (to_value out)) (2 ^ 64 - 1)"

lemma unat_total_spends: "unat (total_spends (it_raw tx)) = outgoing_value tx"
  by (simp add: total_spends_def unat_total_spends_from outgoing_value_def)

lemma unat_add_u64: "unat a + unat b < 2 ^ 64 \<Longrightarrow> unat (a + b :: u64) = unat a + unat b"
  using unat_add_lem [of a b] by simp

lemma referenced_sum_value:
  "referenced_sum store idx incoming is = Ok r
     \<Longrightarrow> unat r = unat incoming + (\<Sum>i\<leftarrow>is. prevout_value store idx i)"
proof (induction "is" arbitrary: incoming)
  case (Cons i "is")
  then show ?case
    by (cases "transaction_output store (ti_previous_output i) idx")
      (auto simp: prevout_value_def unat_add_u64 Let_def split: if_splits)
qed simp

lemma claim_fees_value:
  "claim_fees store tx_ordering idx fees txs = Ok r
     \<Longrightarrow> unat r + (\<Sum>tx\<leftarrow>txs. outgoing_value tx)
         = unat fees + (\<Sum>p\<leftarrow>enumerate idx txs. incoming_value store tx_ordering p)"
proof (induction txs arbitrary: idx fees)
  case (Cons tx txs)
  then obtain inc where inc:
      "referenced_sum store (transaction_index_for_output_check tx_ordering idx) 0 (tx_inputs (it_raw tx)) = Ok inc"
      "total_spends (it_raw tx) \<le> inc" "unat fees + unat (inc - total_spends (it_raw tx)) < 2 ^ 64"
      "claim_fees store tx_ordering (idx + 1) (fees + (inc - total_spends (it_raw tx))) txs = Ok r"
    by (auto simp: Let_def not_less not_le split: if_splits)
  have "unat (inc - total_spends (it_raw tx)) = unat inc - outgoing_value tx"
    using unat_sub [OF inc(2)] by (simp add: unat_total_spends)
  moreover have "outgoing_value tx \<le> unat inc"
    using inc(2) by (simp add: word_le_nat_alt unat_total_spends)
  moreover have "unat inc = incoming_value store tx_ordering (idx, tx)"
    using referenced_sum_value [OF inc(1)] by (simp add: incoming_value_def)
  ultimately show ?case
    using Cons.IH [OF inc(4)] unat_add_u64 [OF inc(3)] by simp
qed simp

lemma coinbase_claim_value:
  assumes "block_coinbase_claim_check store params height median_time_past b = Ok ()"
  shows "(\<Sum>tx\<leftarrow>ib_transactions b. outgoing_value tx)
    \<le> (\<Sum>p\<leftarrow>enumerate 1 (drop 1 (ib_transactions b)).
         incoming_value (duplex store (block_outputs b)) (fork_transaction_ordering (cp_fork params) median_time_past) p)
      + unat (block_reward_satoshi height)"
proof -
  let ?store = "duplex store (block_outputs b)" and ?ord = "fork_transaction_ordering (cp_fork params) median_time_past"
  obtain fees where fees: "claim_fees ?store ?ord 1 0 (drop 1 (ib_transactions b)) = Ok fees"
      "ib_transactions b \<noteq> []" "unat fees + unat (block_reward_satoshi height) < 2 ^ 64"
      "total_spends (it_raw (ib_transactions b ! 0)) \<le> fees + block_reward_satoshi height"
    using assms by (auto simp: block_coinbase_claim_check_def Let_def not_less not_le split: if_splits)
  then obtain coinbase txs where txs: "ib_transactions b = coinbase # txs" by (cases "ib_transactions b") auto
  have "outgoing_value coinbase \<le> unat fees + unat (block_reward_satoshi height)"
    using fees(4) unat_add_u64 [OF fees(3)] by (simp add: txs word_le_nat_alt unat_total_spends)
  then show ?thesis using claim_fees_value [OF fees(1)] by (simp add: txs)
qed

lemma chain_acceptor_OkD:
  assumes "chain_acceptor_check h secp ov outputs metas headers params level b height median_time_past ca = Ok ()"
  shows "block_coinbase_claim_check outputs params height median_time_past b = Ok ()"
    "list_all (\<lambda>c. c = Ok ()) (transaction_checks h secp metas (duplex outputs (block_outputs b)) params level b height
       median_time_past (ca_transactions ca))"
  using assms
  by (auto simp: chain_acceptor_check_def block_acceptor_check_def check_all_Ok check_transactions_Ok)

text \<open>
  C2. An accepted block creates no value beyond its subsidy: what all its transactions pay out is at
  most what the transactions after the coinbase take in, from outputs of the chain or of the block,
  plus the reward of its height.  (The total of one transaction is counted up to \<open>2 ^ 64 - 1\<close>.)
\<close>

theorem accepted_block_no_inflation:
  assumes "chain_acceptor_check h secp ov outputs metas headers params level b height median_time_past ca = Ok ()"
  shows "(\<Sum>tx\<leftarrow>ib_transactions b. outgoing_value tx)
    \<le> (\<Sum>p\<leftarrow>enumerate 1 (drop 1 (ib_transactions b)).
         incoming_value (duplex outputs (block_outputs b)) (fork_transaction_ordering (cp_fork params) median_time_past) p)
      + unat (block_reward_satoshi height)"
  by (rule coinbase_claim_value [OF chain_acceptor_OkD(1) [OF assms]])


section \<open>Double spending\<close>

definition spent_by :: "indexed_transaction list \<Rightarrow> out_point list" where
  "spent_by txs = concat (map (\<lambda>tx. map ti_previous_output (tx_inputs (it_raw tx))) txs)"

lemma first_spent_Ok: "first_spent store is = Ok () \<longleftrightarrow> list_all (\<lambda>i. \<not> is_spent store (ti_previous_output i)) is"
  by (induction "is") auto

lemma txs_is_spent_count: "txs_is_spent txs p \<longleftrightarrow> 2 \<le> count_list (spent_by txs) p"
proof -
  have "count_list (map ti_previous_output is) p = length (filter (\<lambda>i. ti_previous_output i = p) is)"
    for "is" :: "transaction_input list"
    by (induction "is") auto
  moreover have "spent_by txs = map ti_previous_output (concat (map (\<lambda>tx. tx_inputs (it_raw tx)) txs))"
    by (simp add: spent_by_def map_concat comp_def)
  ultimately show ?thesis by (auto simp: txs_is_spent_def min_def)
qed

lemma count_spent_filter: "count_list (spent_by (filter P txs)) p \<le> count_list (spent_by txs) p"
  by (induction txs) (auto simp: spent_by_def)

lemma distinct_count: "distinct xs \<longleftrightarrow> (\<forall>x\<in>set xs. count_list xs x < 2)"
proof (induction xs)
  case (Cons a xs)
  have "count_list xs a = 0 \<longleftrightarrow> a \<notin> set xs" by (simp add: count_list_0_iff)
  then show ?case using Cons by auto
qed simp

lemma transaction_checks_each:
  assumes "list_all (\<lambda>c. c = Ok ()) (transaction_checks h secp metas store params level b height median_time_past tds)"
    and "length tds = length (ib_transactions b)" and "tx \<in> set (ib_transactions b)"
  obtains i td where "transaction_acceptor_check h secp metas store params level (ih_hash (ib_header b)) height
      (bh_time (ih_raw (ib_header b))) median_time_past i td tx = Ok ()"
proof -
  obtain i where i: "i < length (ib_transactions b)" "ib_transactions b ! i = tx"
    using assms(3) by (auto simp: in_set_conv_nth)
  then have "(i, tds ! i, tx) \<in> set (enumerate 0 (zip tds (ib_transactions b)))"
    using assms(2) by (auto simp: in_set_enumerate_eq)
  then show ?thesis
    using assms(1) that by (force simp: transaction_checks_def list_all_iff)
qed

text \<open>
  C3. An accepted block spends every output at most once: the outputs that its transactions other
  than coinbases refer to are pairwise different, and none of them is spent in the chain.
\<close>

theorem accepted_block_no_double_spend:
  assumes "chain_acceptor_check h secp ov outputs metas headers params level b height median_time_past ca = Ok ()"
    and "length (ca_transactions ca) = length (ib_transactions b)"
  shows "let spent = spent_by (filter (\<lambda>tx. \<not> tx_is_coinbase (it_raw tx)) (ib_transactions b)) in
    distinct spent \<and> list_all (\<lambda>p. \<not> is_spent outputs p) spent"
proof -
  let ?txs = "filter (\<lambda>tx. \<not> tx_is_coinbase (it_raw tx)) (ib_transactions b)"
  have unspent: "\<not> is_spent (duplex outputs (block_outputs b)) p" if p: "p \<in> set (spent_by ?txs)" for p
  proof -
    obtain tx i where tx: "tx \<in> set (ib_transactions b)" "\<not> tx_is_coinbase (it_raw tx)"
        "i \<in> set (tx_inputs (it_raw tx))" "ti_previous_output i = p"
      using p by (auto simp: spent_by_def)
    obtain j td where "transaction_acceptor_check h secp metas (duplex outputs (block_outputs b)) params level
        (ih_hash (ib_header b)) height (bh_time (ih_raw (ib_header b))) median_time_past j td tx = Ok ()"
      using transaction_checks_each [OF chain_acceptor_OkD(2) [OF assms(1)] assms(2) tx(1)] .
    then have "tx_double_spend_check (duplex outputs (block_outputs b)) tx = Ok ()"
      by (simp add: transaction_acceptor_check_def check_all_Ok Let_def)
    then show ?thesis using tx by (auto simp: tx_double_spend_check_def first_spent_Ok list_all_iff)
  qed
  then have "count_list (spent_by ?txs) p < 2" if "p \<in> set (spent_by ?txs)" for p
    using that count_spent_filter [of "\<lambda>tx. \<not> tx_is_coinbase (it_raw tx)" "ib_transactions b" p]
    by (fastforce simp: duplex_def block_outputs_def txs_is_spent_count)
  then show ?thesis using unspent by (auto simp: Let_def distinct_count list_all_iff duplex_def)
qed


section \<open>A block that is accepted\<close>

definition coinbase_tx :: indexed_transaction where
  "coinbase_tx =
     \<lparr> it_hash = [1], it_raw = \<lparr> tx_version = 1, tx_inputs = [input_coinbase [1, 2]],
         tx_outputs = [\<lparr> to_value = 5000000003, to_script_pubkey = [] \<rparr>], tx_lock_time = 0 \<rparr> \<rparr>"

definition spending_tx :: "bytes \<Rightarrow> u64 \<Rightarrow> indexed_transaction" where
  "spending_tx script_sig v =
     \<lparr> it_hash = [2], it_raw = \<lparr> tx_version = 1,
         tx_inputs = [\<lparr> ti_previous_output = \<lparr> out_point.op_hash = [9], op_index = 0 \<rparr>, ti_script_sig = script_sig,
                         ti_sequence = 0xffffffff, ti_script_witness = [] \<rparr>],
         tx_outputs = [\<lparr> to_value = v, to_script_pubkey = [] \<rparr>], tx_lock_time = 0 \<rparr> \<rparr>"

definition sample_block :: indexed_block where
  "sample_block =
     \<lparr> ib_header = sample_header 0 0x1d00ffff, ib_transactions = [coinbase_tx, spending_tx [] 7] \<rparr>"

definition ten_satoshi :: "bytes \<Rightarrow> output_provider" where
  "ten_satoshi script =
     \<lparr> transaction_output = (\<lambda>_ _. Some \<lparr> to_value = 10, to_script_pubkey = script \<rparr>), is_spent = (\<lambda>_. False) \<rparr>"

definition undeployed :: chain_acceptor where
  "undeployed =
     \<lparr> ca_csv_finality = False, ca_segwit_size = False, ca_segwit_witness = False, ca_csv_header = False,
       ca_transactions = [\<lparr> td_premature_segwit = False, td_csv = False, td_segwit = False \<rparr>,
                          \<lparr> td_premature_segwit = False, td_csv = False, td_segwit = False \<rparr>] \<rparr>"

lemmas sample_defs = sample_block_def coinbase_tx_def spending_tx_def sample_header_def ten_satoshi_def undeployed_def
  input_coinbase_def out_point_null_def mainnet_params_def

lemma sample_sigops: "plain_value (sigops_count [] cds serialized) = Ok 0"
  by (simp add: sigops_count_def sigops_count_from.simps plain_value_def)

lemma from_max_bits: "from_u256 MAX_BITS_MAINNET = Ok 0x1d00ffff"
proof -
  have bl: "byte_length (unat MAX_BITS_MAINNET) = 28"
    using byte_length_unique [of 27 "unat MAX_BITS_MAINNET"] by (simp add: MAX_BITS_MAINNET_def)
  then have "top_bytes (unat MAX_BITS_MAINNET) = 0xffffff"
    unfolding top_bytes_def by (simp add: MAX_BITS_MAINNET_def)
  then show ?thesis by (simp add: from_u256_eq mantissa_def exponent_def bl)
qed

lemma sample_size: "indexed_block_size sample_block \<le> 1000000"
  by (simp add: indexed_block_size_def header_size_def serialized_list_size_def sample_defs serialize_transaction_def
      compact_integer_size_def append_list_def serialize_compact_integer_def serialize_input_def serialize_output_def
      serialize_out_point_def serialize_bytes_def serialize_u8_def serialize_u32_def serialize_i32_def serialize_u64_def
      include_transaction_witness_def tx_has_witness_def input_has_witness_def)

lemma sample_transactions:
  "tx_is_coinbase (it_raw coinbase_tx)" "\<not> tx_is_coinbase (it_raw (spending_tx s v))"
  "total_spends (it_raw coinbase_tx) = 5000000003" "total_spends (it_raw (spending_tx s 7)) = 7"
  "\<not> tx_has_witness (it_raw coinbase_tx)" "\<not> tx_has_witness (it_raw (spending_tx s v))"
  by (simp_all add: sample_defs tx_is_coinbase_def out_point_is_null_def list_all_iff total_spends_def
      tx_has_witness_def input_has_witness_def)

lemma sample_block_acceptor:
  "block_acceptor_check h (ten_satoshi []) (mainnet_params Mainnet BitcoinCore) 0 0 False False False headers sample_block = Ok ()"
  unfolding block_acceptor_check_def check_all_Ok list.pred_inject
proof (intro conjI)
  show "block_finality_check 0 False headers sample_block = Ok ()"
    by (simp add: block_finality_check_def sample_defs tx_is_final_in_block_def)
  show "block_sigops_cost_check (ten_satoshi []) (mainnet_params Mainnet BitcoinCore) 0 0 sample_block = Ok ()"
    by (simp add: block_sigops_cost_check_def sample_block_def transaction_sigops_def transaction_sigops_cost_def
        sample_transactions) (simp add: sample_defs duplex_def input_sigops_def sample_sigops witness_sigops_def
        parse_witness_program_def is_pay_to_script_hash_def)
  show "block_size_check (mainnet_params Mainnet BitcoinCore) 0 0 False sample_block = Ok ()"
    using sample_size by (simp add: block_size_check_def mainnet_params_def)
  show "block_coinbase_claim_check (ten_satoshi []) (mainnet_params Mainnet BitcoinCore) 0 0 sample_block = Ok ()"
    by (simp add: block_coinbase_claim_check_def sample_block_def sample_transactions)
      (simp add: sample_defs duplex_def block_reward_satoshi_def total_spends_def)
  show "block_coinbase_script_check (mainnet_params Mainnet BitcoinCore) 0 sample_block = Ok ()"
    by (simp add: block_coinbase_script_check_def mainnet_params_def)
  show "block_witness_check h False sample_block = Ok ()"
    by (simp add: block_witness_check_def)
  show "block_transaction_ordering_check (mainnet_params Mainnet BitcoinCore) 0 sample_block = Ok ()"
    by (simp add: block_transaction_ordering_check_def mainnet_params_def)
qed simp

lemma sample_header_acceptor:
  "header_acceptor_check ov headers (mainnet_params Mainnet BitcoinCore) 0 False (ib_header sample_block) = Ok ()"
  by (simp add: header_acceptor_check_def check_all_Ok header_version_check_def header_work_check_def work_required_def
      from_max_bits header_median_timestamp_check_def sample_block_def sample_header_def mainnet_params_def)

lemma sample_tx_checks:
  assumes "tx = coinbase_tx \<or> tx = spending_tx [] 7"
  shows "tx_min_size_check (mainnet_params Mainnet BitcoinCore) 0 tx = Ok ()"
    "tx_premature_witness_check False tx = Ok ()" "tx_bip30_check (\<lambda>_. None) hash 0 tx = Ok ()"
    "tx_maturity_check (\<lambda>_. None) 0 tx = Ok ()"
    "tx_return_replay_protection_check (mainnet_params Mainnet BitcoinCore) 0 tx = Ok ()"
    "tx_eval_check h secp store params HeaderLevel height time median csv segwit tx = Ok ()"
    "tx_missing_inputs_check (duplex (ten_satoshi []) (block_outputs sample_block)) i tx = Ok ()"
    "tx_overspent_check (duplex (ten_satoshi []) (block_outputs sample_block)) tx = Ok ()"
    "tx_double_spend_check (duplex (ten_satoshi []) (block_outputs sample_block)) tx = Ok ()"
proof -
  show "tx_min_size_check (mainnet_params Mainnet BitcoinCore) 0 tx = Ok ()"
    by (simp add: tx_min_size_check_def mainnet_params_def)
  show "tx_premature_witness_check False tx = Ok ()"
    using assms by (auto simp: tx_premature_witness_check_def sample_transactions)
  show "tx_bip30_check (\<lambda>_. None) hash 0 tx = Ok ()" by (simp add: tx_bip30_check_def)
  have "immature_spend (\<lambda>_. None) 0 is = (Ok False :: (transaction_error, bool) outcome)" for "is" by (induction "is") simp_all
  then show "tx_maturity_check (\<lambda>_. None) 0 tx = Ok ()" by (simp add: tx_maturity_check_def)
  show "tx_return_replay_protection_check (mainnet_params Mainnet BitcoinCore) 0 tx = Ok ()"
    by (simp add: tx_return_replay_protection_check_def mainnet_params_def)
  show "tx_eval_check h secp store params HeaderLevel height time median csv segwit tx = Ok ()"
    by (simp add: tx_eval_check_def)
  have found: "transaction_output (duplex (ten_satoshi []) other) p i = Some \<lparr> to_value = 10, to_script_pubkey = [] \<rparr>"
    for other p i by (simp add: duplex_def ten_satoshi_def)
  have "position_from (\<lambda>i. False) k xs = None" for k and xs :: "transaction_input list"
    by (induction xs arbitrary: k) simp_all
  then show "tx_missing_inputs_check (duplex (ten_satoshi []) (block_outputs sample_block)) i tx = Ok ()"
    by (simp add: tx_missing_inputs_check_def found)
  show "tx_overspent_check (duplex (ten_satoshi []) (block_outputs sample_block)) tx = Ok ()"
  proof -
    have "available_sum (duplex (ten_satoshi []) (block_outputs sample_block)) 0 (tx_inputs (it_raw (spending_tx [] 7)))
        = (Ok 10 :: (transaction_error, u64) outcome)"
      by (simp add: spending_tx_def found)
    then have "tx_overspent_check (duplex (ten_satoshi []) (block_outputs sample_block)) (spending_tx [] 7) = Ok ()"
      by (simp add: tx_overspent_check_def sample_transactions del: and_then_eq_Ok)
    moreover have "tx_overspent_check store coinbase_tx = Ok ()" for store
      by (simp add: tx_overspent_check_def sample_transactions)
    ultimately show ?thesis using assms by blast
  qed
  show "tx_double_spend_check (duplex (ten_satoshi []) (block_outputs sample_block)) tx = Ok ()"
  proof -
    have "tx_double_spend_check (duplex (ten_satoshi []) (block_outputs sample_block)) (spending_tx [] 7) = Ok ()"
      unfolding tx_double_spend_check_def
      by (simp add: sample_transactions) (simp add: duplex_def block_outputs_def txs_is_spent_def sample_defs)
    moreover have "tx_double_spend_check store coinbase_tx = Ok ()" for store
      by (simp add: tx_double_spend_check_def sample_transactions)
    ultimately show ?thesis using assms by blast
  qed
qed

lemma sample_tx_acceptor:
  assumes "tx = coinbase_tx \<or> tx = spending_tx [] 7"
  shows "transaction_acceptor_check h secp (\<lambda>_. None) (duplex (ten_satoshi []) (block_outputs sample_block))
     (mainnet_params Mainnet BitcoinCore) HeaderLevel hash 0 time 0 i
     \<lparr> td_premature_segwit = False, td_csv = False, td_segwit = False \<rparr> tx = Ok ()"
  by (simp add: transaction_acceptor_check_def check_all_Ok Let_def sample_tx_checks [OF assms])

lemma sample_block_accepted:
  "chain_acceptor_check h secp ov (ten_satoshi []) (\<lambda>_. None) headers (mainnet_params Mainnet BitcoinCore) HeaderLevel
     sample_block 0 0 undeployed = Ok ()"
proof -
  have "ib_transactions sample_block = [coinbase_tx, spending_tx [] 7]" by (simp add: sample_block_def)
  then show ?thesis
    by (simp add: chain_acceptor_check_def sample_block_acceptor sample_header_acceptor transaction_checks_def
      undeployed_def sample_tx_acceptor)
qed

theorem accepted_block_no_inflation_witness:
  "(\<Sum>tx\<leftarrow>ib_transactions sample_block. outgoing_value tx) = 5000000010
   \<and> (\<Sum>tx\<leftarrow>ib_transactions sample_block. outgoing_value tx) \<le> 10 + unat (block_reward_satoshi 0)"
proof -
  have "(\<Sum>tx\<leftarrow>ib_transactions sample_block. outgoing_value tx)
    \<le> (\<Sum>p\<leftarrow>enumerate 1 (drop 1 (ib_transactions sample_block)).
         incoming_value (duplex (ten_satoshi []) (block_outputs sample_block))
           (fork_transaction_ordering (cp_fork (mainnet_params Mainnet BitcoinCore)) 0) p)
      + unat (block_reward_satoshi 0)"
    by (rule accepted_block_no_inflation) (rule sample_block_accepted)
  then show ?thesis
    by (simp add: sample_defs outgoing_value_def incoming_value_def prevout_value_def duplex_def)
qed

theorem accepted_block_no_double_spend_witness:
  "distinct (spent_by [spending_tx [] 7])
   \<and> list_all (\<lambda>p. \<not> is_spent (ten_satoshi []) p) (spent_by [spending_tx [] 7])"
proof -
  have "let spent = spent_by (filter (\<lambda>tx. \<not> tx_is_coinbase (it_raw tx)) (ib_transactions sample_block)) in
    distinct spent \<and> list_all (\<lambda>p. \<not> is_spent (ten_satoshi []) p) spent"
    by (rule accepted_block_no_double_spend, rule sample_block_accepted) (simp add: undeployed_def sample_block_def)
  moreover have "filter (\<lambda>tx. \<not> tx_is_coinbase (it_raw tx)) (ib_transactions sample_block) = [spending_tx [] 7]"
    by (simp add: sample_block_def sample_transactions)
  ultimately show ?thesis by (simp add: Let_def)
qed


section \<open>Median time\<close>

text \<open>
  C26. Once the median-time rule is active, median time past never goes back along the chain: a header
  that passes the check has a median time, taken over itself and its ancestors, that is at least the
  one of its parent.
\<close>

theorem median_time_never_decreases:
  assumes "header_median_timestamp_check store True header = Ok ()"
    and "store (Hash (ih_hash header)) = Some header"
  shows "median_timestamp_inclusive (bh_previous_header_hash (ih_raw header)) store
    \<le> median_timestamp_inclusive (ih_hash header) store"
proof -
  have "median_timestamp (ih_raw header) store \<le> bh_time (ih_raw header)"
    using assms(1) by (auto simp: header_median_timestamp_check_def not_le intro: less_imp_le split: if_splits)
  then show ?thesis
    using median_timestamp_grows [of store "ih_hash header" header] assms(2) by (simp add: median_timestamp_def)
qed

theorem median_time_never_decreases_witness:
  "median_timestamp_inclusive [1] (signalling_chain 3) \<le> median_timestamp_inclusive [2] (signalling_chain 3)"
proof -
  obtain header where h: "signalling_chain 3 (Hash [2]) = Some header" "ih_hash header = [2]"
      "bh_previous_header_hash (ih_raw header) = [1]" "bh_time (ih_raw header) = 2"
    by (simp add: signalling_chain_def)
  moreover have "median_timestamp_inclusive [1] (signalling_chain 3) = 1" by code_simp
  ultimately show ?thesis
    using median_time_never_decreases [of "signalling_chain 3" header]
    by (simp add: header_median_timestamp_check_def median_timestamp_def word_le_nat_alt)
qed


section \<open>The duplicated tail\<close>

text \<open>
  C27. The merkle root does not see that the last of an odd number of transactions is repeated, but the
  verifier does: such a copy of a block has the same merkle root and is refused, so that it cannot
  be mistaken for the block.
\<close>

theorem duplicated_tail_rejected:
  assumes "odd (length (ib_transactions b))" and "1 < length (ib_transactions b)"
  shows "let b' = b\<lparr>ib_transactions := ib_transactions b @ [last (ib_transactions b)]\<rparr> in
    indexed_block_merkle_root h b' = indexed_block_merkle_root h b
    \<and> block_transactions_uniqueness_check b' = Err DuplicatedTransactions
    \<and> block_verifier_check h b' \<noteq> Ok () \<and> chain_verifier_check h network current_time b' \<noteq> Ok ()"
proof -
  let ?hs = "map it_hash (ib_transactions b)"
  let ?b = "b\<lparr>ib_transactions := ib_transactions b @ [last (ib_transactions b)]\<rparr>"
  have ne: "ib_transactions b \<noteq> []" using assms(2) by auto
  then have hs: "map it_hash (ib_transactions ?b) = ?hs @ [last ?hs]" by (simp add: last_map)
  have root: "indexed_block_merkle_root h ?b = indexed_block_merkle_root h b"
    unfolding indexed_block_merkle_root_def hs by (rule merkle_root_duplicate) (use assms in simp_all)
  have "last ?hs \<in> set ?hs" using ne by (intro last_in_set) simp
  then have "card (set (?hs @ [last ?hs])) \<le> length ?hs"
    using card_length [of ?hs] by (simp add: insert_absorb)
  then have unique: "block_transactions_uniqueness_check ?b = Err DuplicatedTransactions"
    unfolding block_transactions_uniqueness_check_def hs by simp
  then have "block_verifier_check h ?b \<noteq> Ok ()" by (simp add: block_verifier_check_def check_all_Ok)
  then show ?thesis using root unique by (simp add: chain_verifier_check_def Let_def)
qed

theorem duplicated_tail_rejected_witness:
  "\<forall>h. block_verifier_check h (sample_block
     \<lparr>ib_transactions := [coinbase_tx, spending_tx [] 7, spending_tx [1] 7, spending_tx [1] 7]\<rparr>) \<noteq> Ok ()"
proof
  fix h
  let ?b = "sample_block\<lparr>ib_transactions := [coinbase_tx, spending_tx [] 7, spending_tx [1] 7]\<rparr>"
  show "block_verifier_check h (sample_block
     \<lparr>ib_transactions := [coinbase_tx, spending_tx [] 7, spending_tx [1] 7, spending_tx [1] 7]\<rparr>) \<noteq> Ok ()"
    using duplicated_tail_rejected [of ?b h] by (simp add: Let_def)
qed


section \<open>A crash of the memory-pool acceptor\<close>

lemma sum_outcomes_Panic:
  "Panic \<in> set rs \<Longrightarrow> (\<And>r e. r \<in> set rs \<Longrightarrow> r \<noteq> Err e) \<Longrightarrow> sum_outcomes rs = Panic"
proof (induction rs)
  case (Cons r rs)
  show ?case
  proof (cases r)
    case (Ok n)
    then have "sum_outcomes rs = Panic" using Cons by auto
    then show ?thesis using Ok by simp
  qed (use Cons.prems(2) [of r] in auto)
qed simp

lemma plain_value_not_Err: "plain_value r \<noteq> Err e"
  by (cases r) (simp_all add: plain_value_def)

lemma input_sigops_not_Err: "input_sigops store bip16 cds i \<noteq> Err e"
  by (auto simp: input_sigops_def and_then_eq_Err plain_value_not_Err p2sh_sigops_def plain_option_def
      split: option.splits)

lemma sum_outputs_Ok:
  "\<exists>n. sum_outcomes (map (\<lambda>out. plain_value (sigops_count (to_script_pubkey out) cds False)) outs) = Ok n"
proof (induction outs)
  case (Cons out outs)
  then show ?case using sigops_count_total [of "to_script_pubkey out" cds False] by (auto simp: plain_value_def)
qed simp

lemma input_sigops_panics:
  assumes "transaction_output store (ti_previous_output i) usize_max = Some out"
    and "is_pay_to_script_hash (to_script_pubkey out)" "ti_script_sig i \<noteq> []" "is_push_only (ti_script_sig i)"
    and "data_of (last (the (instructions (ti_script_sig i)))) = None"
  shows "input_sigops store True cds i = Panic"
  using assms sigops_count_total [of "ti_script_sig i" cds False]
  by (auto simp: input_sigops_def p2sh_sigops_def pay_to_script_hash_sigops_eq plain_option_def plain_value_def)

text \<open>
  C34. A memory-pool transaction can crash the node.  If a transaction that passes the checks before
  the signature-operation check spends a pay-to-script-hash output with an input script that is
  push-only and ends in a push without data, such as the single opcode \<open>OP_1\<close>, then the acceptor
  panics; no signature is looked at before that.
\<close>

theorem mempool_acceptor_panics:
  assumes "tx_min_size_check params median_time_past tx = Ok ()"
    and "tx_missing_inputs_check store 0 tx = Ok ()"
    and "tx_maturity_check metas height tx = Ok ()"
    and "tx_overspent_check store tx = Ok ()"
    and "cp_bip16_time params \<le> time" and "\<not> tx_is_coinbase (it_raw tx)"
    and "i \<in> set (tx_inputs (it_raw tx))"
    and "transaction_output store (ti_previous_output i) usize_max = Some out"
    and "is_pay_to_script_hash (to_script_pubkey out)" "ti_script_sig i \<noteq> []" "is_push_only (ti_script_sig i)"
    and "data_of (last (the (instructions (ti_script_sig i)))) = None"
  shows "memory_pool_transaction_acceptor_check h secp metas store params height time median_time_past csv segwit tx = Panic"
proof -
  let ?panic = "Panic :: (transaction_error, nat) outcome"
  have p: "input_sigops store True cds i = ?panic" for cds by (rule input_sigops_panics [OF assms(8-12)])
  have inputs: "sum_outcomes (map (input_sigops store True cds) (tx_inputs (it_raw tx))) = ?panic" for cds
  proof (rule sum_outcomes_Panic)
    show "?panic \<in> set (map (input_sigops store True cds) (tx_inputs (it_raw tx)))"
      using p [of cds] assms(7) by (metis image_eqI list.set_map)
  qed (auto simp: input_sigops_not_Err)
  have "transaction_sigops (it_raw tx) store True cds = ?panic" for cds
  proof -
    obtain n where "sum_outcomes (map (\<lambda>out. plain_value (sigops_count (to_script_pubkey out) cds False))
        (tx_outputs (it_raw tx))) = (Ok n :: (transaction_error, nat) outcome)"
      using sum_outputs_Ok [of cds "tx_outputs (it_raw tx)"] by blast
    then show ?thesis using assms(6) inputs [of cds] by (simp add: transaction_sigops_def)
  qed
  then have sigops: "tx_sigops_check store params n time tx = Panic" for n
    using assms(5) by (simp add: tx_sigops_check_def)
  have "\<exists>n. max_block_sigops (cp_fork params) height (max_block_size (cp_fork params) height median_time_past)
      = (Ok n :: (transaction_error, nat) outcome)"
    by (cases "cp_fork params") auto
  then show ?thesis
    using assms(1-4) sigops by (auto simp: memory_pool_transaction_acceptor_check_def check_all_def)
qed

theorem mempool_acceptor_panics_witness:
  "\<forall>h secp csv segwit. memory_pool_transaction_acceptor_check h secp (\<lambda>_. None)
     (duplex (ten_satoshi (0xa9 # 0x14 # replicate 20 0 @ [0x87])) noop_store) (mainnet_params Mainnet BitcoinCore)
     500000 1600000000 1600000000 csv segwit (spending_tx [0x51] 7) = Panic"
proof (intro allI)
  fix h secp csv segwit
  let ?script = "0xa9 # 0x14 # replicate 20 0 @ [0x87] :: script" and ?tx = "spending_tx [0x51] 7"
  let ?store = "duplex (ten_satoshi ?script) noop_store"
  have found: "transaction_output ?store p k = Some \<lparr> to_value = 10, to_script_pubkey = ?script \<rparr>" for p k
    by (simp add: duplex_def ten_satoshi_def)
  obtain i where i: "tx_inputs (it_raw ?tx) = [i]" "ti_script_sig i = [0x51]" by (simp add: spending_tx_def)
  show "memory_pool_transaction_acceptor_check h secp (\<lambda>_. None) ?store (mainnet_params Mainnet BitcoinCore)
     500000 1600000000 1600000000 csv segwit ?tx = Panic"
  proof (rule mempool_acceptor_panics)
    show "tx_min_size_check (mainnet_params Mainnet BitcoinCore) 1600000000 ?tx = Ok ()"
      by (simp add: tx_min_size_check_def mainnet_params_def)
    show "tx_missing_inputs_check ?store 0 ?tx = Ok ()"
      by (simp add: tx_missing_inputs_check_def i(1) found)
    show "tx_maturity_check (\<lambda>_. None) 500000 ?tx = Ok ()"
      by (simp add: tx_maturity_check_def i(1))
    show "tx_overspent_check ?store ?tx = Ok ()"
      by (simp add: tx_overspent_check_def i(1) found sample_transactions del: and_then_eq_Ok)
    show "is_pay_to_script_hash (to_script_pubkey \<lparr> to_value = 10, to_script_pubkey = ?script \<rparr>)"
      by (simp add: is_pay_to_script_hash_def nth_append)
    show "is_push_only (ti_script_sig i)" "data_of (last (the (instructions (ti_script_sig i)))) = None"
      unfolding i by code_simp+
  qed (simp_all add: i found sample_transactions mainnet_params_def)
qed

end
