(* ===== verification/Kv.thy ===== *)
theory Kv
  imports Storage Chain_Props "HOL-Library.AList"
begin

text \<open>
  The key-value databases of \<open>db/src/kv\<close>: typed keys, values and transactions, their raw form, the
  in-memory database, and the overlays and the cache that are stacked on another database.

  A database is given by the record \<open>kv_ops\<close> of its two operations on a state \<open>'db\<close>; \<open>write\<close>
  returns its result and the new state, since a failing write may leave a changed state behind.  The
  contract that the block-chain database relies on is the locale \<open>key_value_database\<close>: what is read
  after a write.  A \<open>HashMap\<close> is an association list with distinct keys whose order stands for its
  unspecified iteration order.  RocksDB is not part of the sources; the database on disk is modelled
  up to its calls of \<open>put\<close>, \<open>delete\<close> and \<open>get\<close>, which are parameters.
\<close>

section \<open>Keys, values and transactions\<close>

datatype key =
    KeyMeta string
  | KeyBlockHash u32
  | KeyBlockHeader bytes
  | KeyBlockTransactions bytes
  | KeyTransaction bytes
  | KeyTransactionMeta bytes
  | KeyBlockNumber bytes
  | KeyConfiguration string

datatype key_value =
    KvMeta string bytes
  | KvBlockHash u32 bytes
  | KvBlockHeader bytes block_header
  | KvBlockTransactions bytes "bytes list"
  | KvTransaction bytes transaction
  | KvTransactionMeta bytes transaction_meta
  | KvBlockNumber bytes u32
  | KvConfiguration string bytes

datatype "value" =
    ValueMeta bytes
  | ValueBlockHash bytes
  | ValueBlockHeader block_header
  | ValueBlockTransactions "bytes list"
  | ValueTransaction transaction
  | ValueTransactionMeta transaction_meta
  | ValueBlockNumber u32
  | ValueConfiguration bytes

datatype operation = Insert key_value | Delete key

text \<open>\<open>Value::as_meta\<close> and its siblings.\<close>

fun as_meta :: "value \<Rightarrow> bytes option" where
  "as_meta (ValueMeta v) = Some v" | "as_meta _ = None"

fun as_block_hash :: "value \<Rightarrow> bytes option" where
  "as_block_hash (ValueBlockHash v) = Some v" | "as_block_hash _ = None"

fun as_block_header :: "value \<Rightarrow> block_header option" where
  "as_block_header (ValueBlockHeader v) = Some v" | "as_block_header _ = None"

fun as_block_transactions :: "value \<Rightarrow> bytes list option" where
  "as_block_transactions (ValueBlockTransactions v) = Some v" | "as_block_transactions _ = None"

fun as_transaction :: "value \<Rightarrow> transaction option" where
  "as_transaction (ValueTransaction v) = Some v" | "as_transaction _ = None"

fun as_transaction_meta :: "value \<Rightarrow> transaction_meta option" where
  "as_transaction_meta (ValueTransactionMeta v) = Some v" | "as_transaction_meta _ = None"

fun as_block_number :: "value \<Rightarrow> u32 option" where
  "as_block_number (ValueBlockNumber v) = Some v" | "as_block_number _ = None"

fun as_configuration :: "value \<Rightarrow> bytes option" where
  "as_configuration (ValueConfiguration v) = Some v" | "as_configuration _ = None"

datatype 'v key_state = StateInsert 'v | StateDelete | Unknown

fun key_state_map :: "('v \<Rightarrow> 'u) \<Rightarrow> 'v key_state \<Rightarrow> 'u key_state" where
  "key_state_map f (StateInsert v) = StateInsert (f v)"
| "key_state_map f StateDelete = StateDelete"
| "key_state_map f Unknown = Unknown"

fun into_option :: "'v key_state \<Rightarrow> 'v option" where
  "into_option (StateInsert v) = Some v"
| "into_option StateDelete = None"
| "into_option Unknown = None"

fun into_operation :: "'v key_state \<Rightarrow> 'k \<Rightarrow> ('k \<Rightarrow> 'v \<Rightarrow> key_value) \<Rightarrow> ('k \<Rightarrow> key) \<Rightarrow> operation option" where
  "into_operation (StateInsert v) k ins del = Some (Insert (ins k v))"
| "into_operation StateDelete k ins del = Some (Delete (del k))"
| "into_operation Unknown k ins del = None"

record 'db kv_ops =
  kv_write :: "operation list \<Rightarrow> 'db \<Rightarrow> (string, unit) outcome \<times> 'db"
  kv_get :: "key \<Rightarrow> 'db \<Rightarrow> (string, value key_state) outcome"


section \<open>The raw form\<close>

datatype location = DB | Column u32

record raw_key =
  rk_location :: location
  rk_key :: bytes

record raw_key_value =
  rkv_location :: location
  rkv_key :: bytes
  rkv_value :: bytes

datatype raw_operation = RawInsert raw_key_value | RawDelete raw_key

text \<open>\<open>&str\<close> is written as its bytes.\<close>

definition serialize_str :: "string \<Rightarrow> bytes" where
  "serialize_str s = serialize_bytes (map of_char s)"

fun raw_of_key_value :: "bit_vec_crate \<Rightarrow> key_value \<Rightarrow> raw_key_value" where
  "raw_of_key_value bv (KvMeta k v) = \<lparr> rkv_location = Column 0, rkv_key = serialize_str k, rkv_value = serialize_bytes v \<rparr>"
| "raw_of_key_value bv (KvBlockHash k v) = \<lparr> rkv_location = Column 1, rkv_key = serialize_u32 k, rkv_value = v \<rparr>"
| "raw_of_key_value bv (KvBlockHeader k v) = \<lparr> rkv_location = Column 2, rkv_key = k, rkv_value = serialize_header v \<rparr>"
| "raw_of_key_value bv (KvBlockTransactions k v) =
     \<lparr> rkv_location = Column 3, rkv_key = k, rkv_value = append_list (\<lambda>hash. hash) v \<rparr>"
| "raw_of_key_value bv (KvTransaction k v) =
     \<lparr> rkv_location = Column 4, rkv_key = k, rkv_value = serialize_transaction 0 v \<rparr>"
| "raw_of_key_value bv (KvTransactionMeta k v) = \<lparr> rkv_location = Column 5, rkv_key = k, rkv_value = serialize_meta bv v \<rparr>"
| "raw_of_key_value bv (KvBlockNumber k v) = \<lparr> rkv_location = Column 6, rkv_key = k, rkv_value = serialize_u32 v \<rparr>"
| "raw_of_key_value bv (KvConfiguration k v) =
     \<lparr> rkv_location = Column 7, rkv_key = serialize_str k, rkv_value = serialize_bytes v \<rparr>"

fun raw_of_key :: "key \<Rightarrow> raw_key" where
  "raw_of_key (KeyMeta k) = \<lparr> rk_location = Column 0, rk_key = serialize_str k \<rparr>"
| "raw_of_key (KeyBlockHash k) = \<lparr> rk_location = Column 1, rk_key = serialize_u32 k \<rparr>"
| "raw_of_key (KeyBlockHeader k) = \<lparr> rk_location = Column 2, rk_key = k \<rparr>"
| "raw_of_key (KeyBlockTransactions k) = \<lparr> rk_location = Column 3, rk_key = k \<rparr>"
| "raw_of_key (KeyTransaction k) = \<lparr> rk_location = Column 4, rk_key = k \<rparr>"
| "raw_of_key (KeyTransactionMeta k) = \<lparr> rk_location = Column 5, rk_key = k \<rparr>"
| "raw_of_key (KeyBlockNumber k) = \<lparr> rk_location = Column 6, rk_key = k \<rparr>"
| "raw_of_key (KeyConfiguration k) = \<lparr> rk_location = Column 7, rk_key = serialize_str k \<rparr>"

fun raw_of_operation :: "bit_vec_crate \<Rightarrow> operation \<Rightarrow> raw_operation" where
  "raw_of_operation bv (Insert kv) = RawInsert (raw_of_key_value bv kv)"
| "raw_of_operation bv (Delete k) = RawDelete (raw_of_key k)"

text \<open>\<open>format!("{:?}", e)\<close> of a reader's error.\<close>

fun ser_error_debug :: "ser_error \<Rightarrow> string" where
  "ser_error_debug MalformedData = ''MalformedData''"
| "ser_error_debug UnexpectedEnd = ''UnexpectedEnd''"
| "ser_error_debug UnreadData = ''UnreadData''"

definition read_as :: "('a \<Rightarrow> value) \<Rightarrow> 'a deserializer \<Rightarrow> bytes \<Rightarrow> (string, value) outcome" where
  "read_as wrap de bs = and_then (map_err ser_error_debug (deserialize de bs)) (\<lambda>v. Ok (wrap v))"

fun value_for_key :: "bit_vec_crate \<Rightarrow> key \<Rightarrow> bytes \<Rightarrow> (string, value) outcome" where
  "value_for_key bv (KeyMeta _) bs = read_as ValueMeta read_bytes bs"
| "value_for_key bv (KeyBlockHash _) bs = read_as ValueBlockHash (read_slice 32) bs"
| "value_for_key bv (KeyBlockHeader _) bs = read_as ValueBlockHeader read_header bs"
| "value_for_key bv (KeyBlockTransactions _) bs = read_as ValueBlockTransactions (read_list 32 (read_slice 32)) bs"
| "value_for_key bv (KeyTransaction _) bs = read_as ValueTransaction read_transaction bs"
| "value_for_key bv (KeyTransactionMeta _) bs = read_as ValueTransactionMeta (read_meta bv) bs"
| "value_for_key bv (KeyBlockNumber _) bs = read_as ValueBlockNumber read_u32 bs"
| "value_for_key bv (KeyConfiguration _) bs = read_as ValueConfiguration read_bytes bs"

text \<open>
  \<open>Database::write\<close> and \<open>Database::get\<close> on disk, over a batch write and a lookup of RocksDB in the
  columns \<open>0\<close> to \<open>COL_COUNT - 1\<close>.
\<close>

record 'r rocks_db =
  rocks_write :: "raw_operation list \<Rightarrow> 'r \<Rightarrow> (string, unit) outcome \<times> 'r"
  rocks_get :: "location \<Rightarrow> bytes \<Rightarrow> 'r \<Rightarrow> (string, bytes option) outcome"

definition disk_write :: "'r rocks_db \<Rightarrow> bit_vec_crate \<Rightarrow> operation list \<Rightarrow> 'r \<Rightarrow> (string, unit) outcome \<times> 'r" where
  "disk_write R bv ops r = rocks_write R (map (raw_of_operation bv) ops) r"

definition disk_get :: "'r rocks_db \<Rightarrow> bit_vec_crate \<Rightarrow> key \<Rightarrow> 'r \<Rightarrow> (string, value key_state) outcome" where
  "disk_get R bv k r =
     and_then (rocks_get R (rk_location (raw_of_key k)) (rk_key (raw_of_key k)) r) (\<lambda>found.
       case found of
         Some bs \<Rightarrow> and_then (value_for_key bv k bs) (\<lambda>v. Ok (StateInsert v))
       | None \<Rightarrow> Ok Unknown)"

definition disk_database :: "'r rocks_db \<Rightarrow> bit_vec_crate \<Rightarrow> 'r kv_ops" where
  "disk_database R bv = \<lparr> kv_write = disk_write R bv, kv_get = disk_get R bv \<rparr>"


section \<open>The in-memory database\<close>

type_synonym ('k, 'v) column = "('k \<times> 'v key_state) list"

record memory_db =
  db_meta :: "(string, bytes) column"
  db_block_hash :: "(u32, bytes) column"
  db_block_header :: "(bytes, block_header) column"
  db_block_transactions :: "(bytes, bytes list) column"
  db_transaction :: "(bytes, transaction) column"
  db_transaction_meta :: "(bytes, transaction_meta) column"
  db_block_number :: "(bytes, u32) column"
  db_configuration :: "(string, bytes) column"

definition memory_default :: memory_db where
  "memory_default =
     \<lparr> db_meta = [], db_block_hash = [], db_block_header = [], db_block_transactions = [], db_transaction = [],
       db_transaction_meta = [], db_block_number = [], db_configuration = [] \<rparr>"

fun memory_write_op :: "operation \<Rightarrow> memory_db \<Rightarrow> memory_db" where
  "memory_write_op (Insert (KvMeta k v)) db = db\<lparr>db_meta := AList.update k (StateInsert v) (db_meta db)\<rparr>"
| "memory_write_op (Insert (KvBlockHash k v)) db = db\<lparr>db_block_hash := AList.update k (StateInsert v) (db_block_hash db)\<rparr>"
| "memory_write_op (Insert (KvBlockHeader k v)) db = db\<lparr>db_block_header := AList.update k (StateInsert v) (db_block_header db)\<rparr>"
| "memory_write_op (Insert (KvBlockTransactions k v)) db =
     db\<lparr>db_block_transactions := AList.update k (StateInsert v) (db_block_transactions db)\<rparr>"
| "memory_write_op (Insert (KvTransaction k v)) db = db\<lparr>db_transaction := AList.update k (StateInsert v) (db_transaction db)\<rparr>"
| "memory_write_op (Insert (KvTransactionMeta k v)) db =
     db\<lparr>db_transaction_meta := AList.update k (StateInsert v) (db_transaction_meta db)\<rparr>"
| "memory_write_op (Insert (KvBlockNumber k v)) db = db\<lparr>db_block_number := AList.update k (StateInsert v) (db_block_number db)\<rparr>"
| "memory_write_op (Insert (KvConfiguration k v)) db = db\<lparr>db_configuration := AList.update k (StateInsert v) (db_configuration db)\<rparr>"
| "memory_write_op (Delete (KeyMeta k)) db = db\<lparr>db_meta := AList.update k StateDelete (db_meta db)\<rparr>"
| "memory_write_op (Delete (KeyBlockHash k)) db = db\<lparr>db_block_hash := AList.update k StateDelete (db_block_hash db)\<rparr>"
| "memory_write_op (Delete (KeyBlockHeader k)) db = db\<lparr>db_block_header := AList.update k StateDelete (db_block_header db)\<rparr>"
| "memory_write_op (Delete (KeyBlockTransactions k)) db =
     db\<lparr>db_block_transactions := AList.update k StateDelete (db_block_transactions db)\<rparr>"
| "memory_write_op (Delete (KeyTransaction k)) db = db\<lparr>db_transaction := AList.update k StateDelete (db_transaction db)\<rparr>"
| "memory_write_op (Delete (KeyTransactionMeta k)) db =
     db\<lparr>db_transaction_meta := AList.update k StateDelete (db_transaction_meta db)\<rparr>"
| "memory_write_op (Delete (KeyBlockNumber k)) db = db\<lparr>db_block_number := AList.update k StateDelete (db_block_number db)\<rparr>"
| "memory_write_op (Delete (KeyConfiguration k)) db = db\<lparr>db_configuration := AList.update k StateDelete (db_configuration db)\<rparr>"

definition memory_write :: "operation list \<Rightarrow> memory_db \<Rightarrow> (string, unit) outcome \<times> memory_db" where
  "memory_write ops db = (Ok (), fold memory_write_op ops db)"

definition column_get :: "('v \<Rightarrow> value) \<Rightarrow> ('k, 'v) column \<Rightarrow> 'k \<Rightarrow> value key_state" where
  "column_get wrap column k = key_state_map wrap (case map_of column k of Some st \<Rightarrow> st | None \<Rightarrow> Unknown)"

fun memory_state :: "key \<Rightarrow> memory_db \<Rightarrow> value key_state" where
  "memory_state (KeyMeta k) db = column_get ValueMeta (db_meta db) k"
| "memory_state (KeyBlockHash k) db = column_get ValueBlockHash (db_block_hash db) k"
| "memory_state (KeyBlockHeader k) db = column_get ValueBlockHeader (db_block_header db) k"
| "memory_state (KeyBlockTransactions k) db = column_get ValueBlockTransactions (db_block_transactions db) k"
| "memory_state (KeyTransaction k) db = column_get ValueTransaction (db_transaction db) k"
| "memory_state (KeyTransactionMeta k) db = column_get ValueTransactionMeta (db_transaction_meta db) k"
| "memory_state (KeyBlockNumber k) db = column_get ValueBlockNumber (db_block_number db) k"
| "memory_state (KeyConfiguration k) db = column_get ValueConfiguration (db_configuration db) k"

definition memory_get :: "key \<Rightarrow> memory_db \<Rightarrow> (string, value key_state) outcome" where
  "memory_get k db = Ok (memory_state k db)"

definition column_operations :: "('k \<Rightarrow> 'v \<Rightarrow> key_value) \<Rightarrow> ('k \<Rightarrow> key) \<Rightarrow> ('k, 'v) column \<Rightarrow> operation list" where
  "column_operations ins del column =
     List.map_filter (\<lambda>(k, st). into_operation st k ins del) column"

text \<open>The drained transaction, and the emptied database.\<close>

definition drain_transaction :: "memory_db \<Rightarrow> operation list \<times> memory_db" where
  "drain_transaction db =
     (column_operations KvMeta KeyMeta (db_meta db)
        @ column_operations KvBlockHash KeyBlockHash (db_block_hash db)
        @ column_operations KvBlockHeader KeyBlockHeader (db_block_header db)
        @ column_operations KvBlockTransactions KeyBlockTransactions (db_block_transactions db)
        @ column_operations KvTransaction KeyTransaction (db_transaction db)
        @ column_operations KvTransactionMeta KeyTransactionMeta (db_transaction_meta db)
        @ column_operations KvBlockNumber KeyBlockNumber (db_block_number db)
        @ column_operations KvConfiguration KeyConfiguration (db_configuration db),
      memory_default)"

definition memory_database :: "memory_db kv_ops" where
  "memory_database = \<lparr> kv_write = memory_write, kv_get = memory_get \<rparr>"


section \<open>Overlays and the cache\<close>

text \<open>An overlay holds a reference to the database below it; \<open>ov_db\<close> is the state of that database.\<close>

record 'db overlay =
  ov_db :: 'db
  ov_overlay :: memory_db

definition overlay_new :: "'db \<Rightarrow> 'db overlay" where
  "overlay_new db = \<lparr> ov_db = db, ov_overlay = memory_default \<rparr>"

definition overlay_flush :: "'db kv_ops \<Rightarrow> 'db overlay \<Rightarrow> (string, unit) outcome \<times> 'db overlay" where
  "overlay_flush T o1 =
     (case drain_transaction (ov_overlay o1) of
        (ops, mem) \<Rightarrow>
          (case kv_write T ops (ov_db o1) of
             (result, db) \<Rightarrow> (result, \<lparr> ov_db = db, ov_overlay = mem \<rparr>)))"

definition overlay_write :: "operation list \<Rightarrow> 'db overlay \<Rightarrow> (string, unit) outcome \<times> 'db overlay" where
  "overlay_write ops o1 =
     (case memory_write ops (ov_overlay o1) of (result, mem) \<Rightarrow> (result, o1\<lparr>ov_overlay := mem\<rparr>))"

definition overlay_get :: "'db kv_ops \<Rightarrow> key \<Rightarrow> 'db overlay \<Rightarrow> (string, value key_state) outcome" where
  "overlay_get T k o1 =
     and_then (memory_get k (ov_overlay o1)) (\<lambda>st.
       case st of
         Unknown \<Rightarrow> kv_get T k (ov_db o1)
       | _ \<Rightarrow> Ok st)"

definition overlay_database :: "'db kv_ops \<Rightarrow> 'db overlay kv_ops" where
  "overlay_database T = \<lparr> kv_write = overlay_write, kv_get = overlay_get T \<rparr>"

text \<open>\<open>AutoFlushingOverlayDatabase\<close>: an overlay that counts the transactions since it was flushed.\<close>

record 'db auto_flushing =
  af_overlay :: "'db overlay"
  af_operations :: nat

definition auto_new :: "'db \<Rightarrow> 'db auto_flushing" where
  "auto_new db = \<lparr> af_overlay = overlay_new db, af_operations = 0 \<rparr>"

definition auto_write ::
    "'db kv_ops \<Rightarrow> nat \<Rightarrow> operation list \<Rightarrow> 'db auto_flushing \<Rightarrow> (string, unit) outcome \<times> 'db auto_flushing" where
  "auto_write T max_operations ops a =
     (let operations = af_operations a + 1;
          (result, o1) = overlay_write ops (af_overlay a);
          a = \<lparr> af_overlay = o1, af_operations = operations \<rparr> in
      case result of
        Ok _ \<Rightarrow>
          (if operations = max_operations
           then (case overlay_flush T o1 of
                   (Ok _, o2) \<Rightarrow> (Ok (), \<lparr> af_overlay = o2, af_operations = 0 \<rparr>)
                 | (failed, o2) \<Rightarrow> (failed, a\<lparr>af_overlay := o2\<rparr>))
           else (Ok (), a))
      | _ \<Rightarrow> (result, a))"

definition auto_get :: "'db kv_ops \<Rightarrow> key \<Rightarrow> 'db auto_flushing \<Rightarrow> (string, value key_state) outcome" where
  "auto_get T k a = overlay_get T k (af_overlay a)"

text \<open>\<open>Drop\<close>: the state of the database below after the last flush, or a panic.\<close>

definition auto_drop :: "'db kv_ops \<Rightarrow> 'db auto_flushing \<Rightarrow> (string, 'db) outcome" where
  "auto_drop T a =
     (case overlay_flush T (af_overlay a) of
        (Ok _, o1) \<Rightarrow> Ok (ov_db o1)
      | _ \<Rightarrow> Panic)"

definition auto_database :: "'db kv_ops \<Rightarrow> nat \<Rightarrow> 'db auto_flushing kv_ops" where
  "auto_database T max_operations = \<lparr> kv_write = auto_write T max_operations, kv_get = auto_get T \<rparr>"

text \<open>
  \<open>CacheDatabase\<close>.  The \<open>lru-cache\<close> crate is a parameter.  A lookup refreshes the entry it finds, so
  that it returns a new cache.
\<close>

record 'c lru_cache =
  lru_insert :: "bytes \<Rightarrow> block_header key_state \<Rightarrow> 'c \<Rightarrow> 'c"
  lru_get_mut :: "bytes \<Rightarrow> 'c \<Rightarrow> block_header key_state option \<times> 'c"

record ('db, 'c) cache_db =
  cdb_db :: 'db
  cdb_header :: 'c

fun cache_note :: "'c lru_cache \<Rightarrow> operation \<Rightarrow> 'c \<Rightarrow> 'c" where
  "cache_note L (Insert (KvBlockHeader hash header)) c = lru_insert L hash (StateInsert header) c"
| "cache_note L (Delete (KeyBlockHeader hash)) c = lru_insert L hash StateDelete c"
| "cache_note L _ c = c"

definition cache_write ::
    "'db kv_ops \<Rightarrow> 'c lru_cache \<Rightarrow> operation list \<Rightarrow> ('db, 'c) cache_db \<Rightarrow> (string, unit) outcome \<times> ('db, 'c) cache_db" where
  "cache_write T L ops d =
     (let header = fold (cache_note L) ops (cdb_header d) in
      case kv_write T ops (cdb_db d) of
        (result, db) \<Rightarrow> (result, \<lparr> cdb_db = db, cdb_header = header \<rparr>))"

definition cache_get ::
    "'db kv_ops \<Rightarrow> 'c lru_cache \<Rightarrow> key \<Rightarrow> ('db, 'c) cache_db \<Rightarrow> (string, value key_state) outcome \<times> ('db, 'c) cache_db" where
  "cache_get T L k d =
     (case k of
        KeyBlockHeader hash \<Rightarrow>
          (case lru_get_mut L hash (cdb_header d) of
             (Some state, c) \<Rightarrow> (Ok (key_state_map ValueBlockHeader state), d\<lparr>cdb_header := c\<rparr>)
           | (None, c) \<Rightarrow> (kv_get T k (cdb_db d), d\<lparr>cdb_header := c\<rparr>))
      | _ \<Rightarrow> (kv_get T k (cdb_db d), d))"

end
