(* ===== verification/Kv_Props.thy ===== *)
theory Kv_Props
  imports Kv
begin

text \<open>
  The contract of a key-value database and its implementations.  Abstractly a database is a map from
  keys to values, and a transaction updates it operation by operation; the locale
  \<open>key_value_database\<close> says that reads and successful writes do just that.  The in-memory database
  meets the contract, and so do an overlay and an auto-flushing overlay on any database that does;
  flushing does not change what is read.  The header cache answers as the database below it.
\<close>

section \<open>The contract\<close>

fun key_of :: "key_value \<Rightarrow> key" where
  "key_of (KvMeta k _) = KeyMeta k"
| "key_of (KvBlockHash k _) = KeyBlockHash k"
| "key_of (KvBlockHeader k _) = KeyBlockHeader k"
| "key_of (KvBlockTransactions k _) = KeyBlockTransactions k"
| "key_of (KvTransaction k _) = KeyTransaction k"
| "key_of (KvTransactionMeta k _) = KeyTransactionMeta k"
| "key_of (KvBlockNumber k _) = KeyBlockNumber k"
| "key_of (KvConfiguration k _) = KeyConfiguration k"

fun value_of :: "key_value \<Rightarrow> value" where
  "value_of (KvMeta _ v) = ValueMeta v"
| "value_of (KvBlockHash _ v) = ValueBlockHash v"
| "value_of (KvBlockHeader _ v) = ValueBlockHeader v"
| "value_of (KvBlockTransactions _ v) = ValueBlockTransactions v"
| "value_of (KvTransaction _ v) = ValueTransaction v"
| "value_of (KvTransactionMeta _ v) = ValueTransactionMeta v"
| "value_of (KvBlockNumber _ v) = ValueBlockNumber v"
| "value_of (KvConfiguration _ v) = ValueConfiguration v"

fun operation_key :: "operation \<Rightarrow> key" where
  "operation_key (Insert kv) = key_of kv"
| "operation_key (Delete k) = k"

fun operation_value :: "operation \<Rightarrow> value option" where
  "operation_value (Insert kv) = Some (value_of kv)"
| "operation_value (Delete k) = None"

text \<open>The abstract effect of a transaction on a map.\<close>

definition apply_operation :: "operation \<Rightarrow> (key \<rightharpoonup> value) \<Rightarrow> (key \<rightharpoonup> value)" where
  "apply_operation op m = m(operation_key op := operation_value op)"

primrec apply_operations :: "operation list \<Rightarrow> (key \<rightharpoonup> value) \<Rightarrow> (key \<rightharpoonup> value)" where
  "apply_operations [] m = m"
| "apply_operations (op # ops) m = apply_operations ops (apply_operation op m)"

text \<open>What a database answers, as a map.\<close>

definition entries :: "'db kv_ops \<Rightarrow> 'db \<Rightarrow> (key \<rightharpoonup> value)" where
  "entries T db k = (case kv_get T k db of Ok st \<Rightarrow> into_option st | _ \<Rightarrow> None)"

locale key_value_database =
  fixes T :: "'db kv_ops" and invar :: "'db \<Rightarrow> bool"
  assumes get_total: "invar db \<Longrightarrow> \<exists>st. kv_get T k db = Ok st"
    and write_Ok: "invar db \<Longrightarrow> kv_write T ops db = (Ok (), db') \<Longrightarrow>
      invar db' \<and> entries T db' = apply_operations ops (entries T db)"

text \<open>A database whose writes do not fail.\<close>

locale reliable_database = key_value_database +
  assumes write_total: "invar db \<Longrightarrow> \<exists>db'. kv_write T ops db = (Ok (), db')"

lemma apply_operation_apply:
  "apply_operation op m k = (if k = operation_key op then operation_value op else m k)"
  by (simp add: apply_operation_def)

lemma apply_operations_other:
  "k \<notin> operation_key ` set ops \<Longrightarrow> apply_operations ops m k = m k"
  by (induction ops arbitrary: m) (simp_all add: apply_operation_apply)

lemma apply_operations_distinct:
  "distinct (map operation_key ops) \<Longrightarrow>
   apply_operations ops m k
     = (case map_of (map (\<lambda>op. (operation_key op, operation_value op)) ops) k of Some v \<Rightarrow> v | None \<Rightarrow> m k)"
proof (induction ops arbitrary: m)
  case (Cons op ops)
  show ?case
  proof (cases "k = operation_key op")
    case True
    then have "k \<notin> operation_key ` set ops" using Cons.prems by simp
    with True show ?thesis by (simp add: apply_operations_other) (simp add: apply_operation_apply)
  next
    case False
    then have "apply_operation op m k = m k" by (simp add: apply_operation_apply)
    with False Cons show ?thesis by (simp split: option.split)
  qed
qed simp


section \<open>The in-memory database\<close>

definition memory_ok :: "memory_db \<Rightarrow> bool" where
  "memory_ok db \<longleftrightarrow>
     distinct (map fst (db_meta db)) \<and> distinct (map fst (db_block_hash db)) \<and> distinct (map fst (db_block_header db))
     \<and> distinct (map fst (db_block_transactions db)) \<and> distinct (map fst (db_transaction db))
     \<and> distinct (map fst (db_transaction_meta db)) \<and> distinct (map fst (db_block_number db))
     \<and> distinct (map fst (db_configuration db))"

lemma memory_default_ok [simp]: "memory_ok memory_default"
  by (simp add: memory_ok_def memory_default_def)

lemma memory_default_state [simp]: "memory_state k memory_default = Unknown"
  by (cases k) (simp_all add: memory_default_def column_get_def)

lemma memory_write_op_ok: "memory_ok db \<Longrightarrow> memory_ok (memory_write_op op db)"
  by (cases "(op, db)" rule: memory_write_op.cases) (simp_all add: memory_ok_def distinct_update)

lemma memory_writes_ok: "memory_ok db \<Longrightarrow> memory_ok (fold memory_write_op ops db)"
  by (induction ops arbitrary: db) (simp_all add: memory_write_op_ok)

fun operation_state :: "operation \<Rightarrow> value key_state" where
  "operation_state (Insert kv) = StateInsert (value_of kv)"
| "operation_state (Delete k) = StateDelete"

lemma into_option_operation_state [simp]: "into_option (operation_state op) = operation_value op"
  by (cases op) simp_all

lemma operation_state_known [simp]: "operation_state op \<noteq> Unknown"
  by (cases op) simp_all

lemma memory_write_op_state:
  "memory_state k (memory_write_op op db) = (if k = operation_key op then operation_state op else memory_state k db)"
  by (cases k; cases "(op, db)" rule: memory_write_op.cases) (simp_all add: column_get_def update_conv')

text \<open>The in-memory database laid over a map.\<close>

definition layered :: "memory_db \<Rightarrow> (key \<rightharpoonup> value) \<Rightarrow> (key \<rightharpoonup> value)" where
  "layered db m k = (case memory_state k db of Unknown \<Rightarrow> m k | st \<Rightarrow> into_option st)"

lemma layered_default [simp]: "layered memory_default m = m"
  by (simp add: fun_eq_iff layered_def)

lemma layered_write_op: "layered (memory_write_op op db) m = apply_operation op (layered db m)"
  by (cases op) (simp_all add: fun_eq_iff layered_def memory_write_op_state apply_operation_apply)

lemma layered_writes: "layered (fold memory_write_op ops db) m = apply_operations ops (layered db m)"
  by (induction ops arbitrary: db) (simp_all add: layered_write_op)

lemma entries_memory: "entries memory_database db = layered db (\<lambda>_. None)"
  by (auto simp: fun_eq_iff entries_def layered_def memory_database_def memory_get_def split: key_state.split)

interpretation memory: reliable_database memory_database memory_ok
proof unfold_locales
  show "memory_ok db' \<and> entries memory_database db' = apply_operations ops (entries memory_database db)"
    if "memory_ok db" "kv_write memory_database ops db = (Ok (), db')" for db db' ops
  proof -
    have db': "db' = fold memory_write_op ops db" using that(2) by (simp add: memory_database_def memory_write_def)
    show ?thesis using that(1) by (simp add: db' entries_memory memory_writes_ok layered_writes)
  qed
qed (simp_all add: memory_database_def memory_get_def memory_write_def)


section \<open>Draining\<close>

lemma column_operations_simps [simp]:
  "column_operations ins mk [] = []"
  "column_operations ins mk ((k, st) # column) =
     (case into_operation st k ins mk of None \<Rightarrow> column_operations ins mk column
      | Some op \<Rightarrow> op # column_operations ins mk column)"
  by (simp_all add: column_operations_def List.map_filter_def split: option.split)

lemma column_operations_keys:
  assumes "\<And>k v. key_of (ins k v) = mk k"
  shows "set (map operation_key (column_operations ins mk column)) \<subseteq> range mk"
proof -
  have "into_operation st k ins mk = Some op \<Longrightarrow> operation_key op = mk k" for st k op
    using assms by (cases st) auto
  then show ?thesis by (force simp: column_operations_def List.map_filter_def)
qed

lemma column_operations_distinct:
  assumes "\<And>k v. key_of (ins k v) = mk k" and "inj mk" and "distinct (map fst column)"
  shows "distinct (map operation_key (column_operations ins mk column))"
  using assms(3)
proof (induction column)
  case (Cons e column)
  obtain k st where e: "e = (k, st)" by force
  have key: "into_operation st' k' ins mk = Some op \<Longrightarrow> operation_key op = mk k'" for st' k' op
    using assms(1) by (cases st') auto
  then have "operation_key op \<in> mk ` fst ` set column" if "op \<in> set (column_operations ins mk column)" for op
    using that by (force simp: column_operations_def List.map_filter_def)
  then have "mk k \<notin> operation_key ` set (column_operations ins mk column)"
    using Cons.prems inj_image_mem_iff [OF assms(2), of k "fst ` set column"] by (auto simp: e)
  then show ?case
    using Cons key [of st k] by (auto simp: e split: option.splits)
qed simp

lemma column_operations_lookup:
  assumes "\<And>k v. key_of (ins k v) = mk k" and "\<And>k v. value_of (ins k v) = wrap v" and "inj mk" and "distinct (map fst column)"
  shows "map_of (map (\<lambda>op. (operation_key op, operation_value op)) (column_operations ins mk column)) (mk k)
     = (case column_get wrap column k of Unknown \<Rightarrow> None | st \<Rightarrow> Some (into_option st))"
  using assms(4)
proof (induction column)
  case (Cons e column)
  obtain k' st where e: "e = (k', st)" by force
  have "map_of column k' = None" using Cons.prems by (simp add: e map_of_eq_None_iff)
  then show ?case
    using Cons assms(1,2) by (cases st; cases "k = k'")
      (auto simp: e column_get_def inj_eq [OF assms(3)])
qed (simp add: column_get_def)

lemma column_operations_other:
  assumes "\<And>k v. key_of (ins k v) = mk k" and "\<And>k'. k \<noteq> mk k'"
  shows "apply_operations (column_operations ins mk column) m k = m k"
  by (rule apply_operations_other) (use column_operations_keys [of ins mk column] assms in auto)

lemma column_operations_own:
  assumes "\<And>k v. key_of (ins k v) = mk k" and "\<And>k v. value_of (ins k v) = wrap v" and "inj mk" and "distinct (map fst column)"
  shows "apply_operations (column_operations ins mk column) m (mk k)
     = (case column_get wrap column k of Unknown \<Rightarrow> m (mk k) | st \<Rightarrow> into_option st)"
  unfolding apply_operations_distinct [OF column_operations_distinct [OF assms(1,3,4)]]
    column_operations_lookup [OF assms] by (simp split: key_state.split)

lemma apply_operations_append:
  "apply_operations (xs @ ys) m = apply_operations ys (apply_operations xs m)"
  by (induction xs arbitrary: m) simp_all

lemma drained_operations:
  assumes "memory_ok db"
  shows "apply_operations (fst (drain_transaction db)) m = layered db m"
proof
  fix k
  note ok = assms [unfolded memory_ok_def]
  show "apply_operations (fst (drain_transaction db)) m k = layered db m k"
    using ok by (cases k)
      (simp_all add: drain_transaction_def layered_def apply_operations_append column_operations_other
        column_operations_own [where wrap = ValueMeta] column_operations_own [where wrap = ValueBlockHash]
        column_operations_own [where wrap = ValueBlockHeader] column_operations_own [where wrap = ValueBlockTransactions]
        column_operations_own [where wrap = ValueTransaction] column_operations_own [where wrap = ValueTransactionMeta]
        column_operations_own [where wrap = ValueBlockNumber] column_operations_own [where wrap = ValueConfiguration] inj_def split: key_state.split)
qed


section \<open>Overlays\<close>

definition overlay_ok :: "('db \<Rightarrow> bool) \<Rightarrow> 'db overlay \<Rightarrow> bool" where
  "overlay_ok invar o1 \<longleftrightarrow> invar (ov_db o1) \<and> memory_ok (ov_overlay o1)"

lemma overlay_new_ok [simp]: "overlay_ok invar (overlay_new db) = invar db"
  by (simp add: overlay_ok_def overlay_new_def)

lemma entries_overlay: "entries (overlay_database T) o1 = layered (ov_overlay o1) (entries T (ov_db o1))"
  by (auto simp: fun_eq_iff entries_def layered_def overlay_database_def overlay_get_def memory_get_def
      split: key_state.split)

lemma entries_overlay_new [simp]: "entries (overlay_database T) (overlay_new db) = entries T db"
  by (simp add: entries_overlay) (simp add: overlay_new_def)

lemma entries_auto: "entries (auto_database T n) a = entries (overlay_database T) (af_overlay a)"
  by (simp add: fun_eq_iff entries_def auto_database_def auto_get_def overlay_database_def)

lemma overlay_write_eq: "overlay_write ops o1 = (Ok (), o1\<lparr>ov_overlay := fold memory_write_op ops (ov_overlay o1)\<rparr>)"
  by (simp add: overlay_write_def memory_write_def)

context key_value_database
begin

lemma overlay_get_total: "overlay_ok invar o1 \<Longrightarrow> \<exists>st. overlay_get T k o1 = Ok st"
  using get_total by (auto simp: overlay_ok_def overlay_get_def memory_get_def split: key_state.split)

lemma overlay_is_database: "reliable_database (overlay_database T) (overlay_ok invar)"
proof unfold_locales
  show "overlay_ok invar o2 \<and> entries (overlay_database T) o2 = apply_operations ops (entries (overlay_database T) o1)"
    if "overlay_ok invar o1" "kv_write (overlay_database T) ops o1 = (Ok (), o2)" for o1 o2 ops
  proof -
    have "o2 = o1\<lparr>ov_overlay := fold memory_write_op ops (ov_overlay o1)\<rparr>"
      using that(2) by (simp add: overlay_database_def overlay_write_eq)
    then show ?thesis using that(1) by (simp add: entries_overlay layered_writes overlay_ok_def memory_writes_ok)
  qed
qed (simp_all add: overlay_get_total overlay_database_def overlay_write_eq)

text \<open>After a flush the database below holds what was read through the overlay before.\<close>

lemma overlay_flush_Ok:
  assumes "overlay_ok invar o1" and "overlay_flush T o1 = (Ok (), o2)"
  shows "overlay_ok invar o2" "entries T (ov_db o2) = entries (overlay_database T) o1"
    "entries (overlay_database T) o2 = entries (overlay_database T) o1"
proof -
  have w: "kv_write T (fst (drain_transaction (ov_overlay o1))) (ov_db o1) = (Ok (), ov_db o2)"
    and m: "ov_overlay o2 = memory_default"
    using assms(2) by (auto simp: overlay_flush_def drain_transaction_def split: prod.splits)
  note wrote = write_Ok [OF _ w]
  show "overlay_ok invar o2" using assms(1) wrote m by (simp add: overlay_ok_def)
  show e: "entries T (ov_db o2) = entries (overlay_database T) o1"
    using assms(1) wrote by (simp add: overlay_ok_def entries_overlay drained_operations)
  show "entries (overlay_database T) o2 = entries (overlay_database T) o1"
    using e by (simp add: entries_overlay [of T o2] m)
qed

lemma auto_is_database: "key_value_database (auto_database T n) (overlay_ok invar \<circ> af_overlay)"
proof unfold_locales
  show "\<exists>st. kv_get (auto_database T n) k a = Ok st" if "(overlay_ok invar \<circ> af_overlay) a" for k a
    using that overlay_get_total by (simp add: auto_database_def auto_get_def)
next
  fix a a' ops
  assume ok: "(overlay_ok invar \<circ> af_overlay) a" and w: "kv_write (auto_database T n) ops a = (Ok (), a')"
  let ?o = "(af_overlay a)\<lparr>ov_overlay := fold memory_write_op ops (ov_overlay (af_overlay a))\<rparr>"
  have o: "overlay_ok invar ?o" "entries (overlay_database T) ?o = apply_operations ops (entries (overlay_database T) (af_overlay a))"
    using reliable_database.axioms(1) [OF overlay_is_database] ok
    by (auto simp: overlay_database_def overlay_write_eq dest!: key_value_database.write_Ok [where ops = ops])
  have "af_overlay a' = ?o \<or> overlay_flush T ?o = (Ok (), af_overlay a')"
    using w by (auto simp: auto_database_def auto_write_def overlay_write_eq Let_def split: prod.splits outcome.splits if_splits)
  then show "(overlay_ok invar \<circ> af_overlay) a' \<and> entries (auto_database T n) a' = apply_operations ops (entries (auto_database T n) a)"
    using o overlay_flush_Ok [OF o(1)] by (auto simp: entries_auto)
qed

end

interpretation overlay_memory: reliable_database "overlay_database memory_database" "overlay_ok memory_ok"
  by (rule memory.overlay_is_database)

interpretation auto_memory: key_value_database "auto_database memory_database n" "overlay_ok memory_ok \<circ> af_overlay" for n
  by (rule memory.auto_is_database)


section \<open>The auto-flushing overlay\<close>

text \<open>
  C16. The auto-flushing overlay refines the map that its transactions describe: a successful write
  has the effect of its operations on what is read, whether or not it flushed, a write that flushed
  left nothing unflushed, and closing the overlay leaves a database that holds everything read
  through it.
\<close>

theorem auto_flushing_refines:
  assumes "key_value_database T invar" and "overlay_ok invar (af_overlay a)"
    and "auto_write T max_operations ops a = (Ok (), a')"
  shows "entries (auto_database T max_operations) a' = apply_operations ops (entries (auto_database T max_operations) a)
    \<and> (af_operations a < max_operations \<longrightarrow> af_operations a' < max_operations)
    \<and> (af_operations a' = 0 \<longrightarrow> entries T (ov_db (af_overlay a')) = entries (auto_database T max_operations) a')
    \<and> (\<forall>db. auto_drop T a' = Ok db \<longrightarrow> entries T db = entries (auto_database T max_operations) a')"
proof -
  note db = key_value_database.auto_is_database [OF assms(1), of max_operations]
  have w: "overlay_ok invar (af_overlay a')"
    "entries (auto_database T max_operations) a' = apply_operations ops (entries (auto_database T max_operations) a)"
    using key_value_database.write_Ok [OF db, of a ops a'] assms(2,3) by (simp_all add: auto_database_def)
  have "af_operations a' = 0 \<Longrightarrow> ov_overlay (af_overlay a') = memory_default"
    using assms(3)
    by (auto simp: auto_write_def overlay_write_eq overlay_flush_def drain_transaction_def Let_def
        split: prod.splits outcome.splits if_splits)
  then have "af_operations a' = 0 \<Longrightarrow> entries T (ov_db (af_overlay a')) = entries (auto_database T max_operations) a'"
    by (simp add: entries_auto entries_overlay)
  moreover have "entries T db = entries (auto_database T max_operations) a'" if "auto_drop T a' = Ok db" for db
    using that key_value_database.overlay_flush_Ok(2) [OF assms(1) w(1)]
    by (auto simp: auto_drop_def entries_auto split: prod.splits outcome.splits)
  moreover have "af_operations a < max_operations \<Longrightarrow> af_operations a' < max_operations"
    using assms(3) by (auto simp: auto_write_def overlay_write_eq Let_def split: prod.splits outcome.splits if_splits)
  ultimately show ?thesis using w(2) by blast
qed

theorem auto_flushing_refines_witness:
  "\<exists>a db. auto_write memory_database 1 [Insert (KvBlockHash 0 [1])] (auto_new memory_default) = (Ok (), a)
     \<and> entries (auto_database memory_database 1) a (KeyBlockHash 0) = Some (ValueBlockHash [1])
     \<and> auto_drop memory_database a = Ok db \<and> entries memory_database db (KeyBlockHash 0) = Some (ValueBlockHash [1])"
proof -
  let ?ops = "[Insert (KvBlockHash 0 [1])]"
  obtain a where a: "auto_write memory_database 1 ?ops (auto_new memory_default) = (Ok (), a)"
    by (simp add: auto_write_def overlay_write_eq auto_new_def overlay_new_def overlay_flush_def memory_database_def
        memory_write_def drain_transaction_def)
  have ok: "overlay_ok memory_ok (af_overlay (auto_new memory_default))" by (simp add: auto_new_def)
  obtain db where db: "auto_drop memory_database a = Ok db"
    by (simp add: auto_drop_def overlay_flush_def memory_database_def memory_write_def drain_transaction_def)
  show ?thesis
    using auto_flushing_refines [OF memory.key_value_database_axioms ok a] a db by (auto simp: apply_operation_apply)
qed

text \<open>Writes one after the other, as long as they succeed.\<close>

fun auto_writes :: "'db kv_ops \<Rightarrow> nat \<Rightarrow> operation list list \<Rightarrow> 'db auto_flushing \<Rightarrow> (string, unit) outcome \<times> 'db auto_flushing" where
  "auto_writes T n [] a = (Ok (), a)"
| "auto_writes T n (ops # txs) a =
     (case auto_write T n ops a of (Ok _, a') \<Rightarrow> auto_writes T n txs a' | failed \<Rightarrow> failed)"

lemma auto_writes_past_limit:
  "n \<le> af_operations a \<Longrightarrow>
   \<exists>a'. auto_writes T n txs a = (Ok (), a') \<and> ov_db (af_overlay a') = ov_db (af_overlay a)"
proof (induction txs arbitrary: a)
  case (Cons ops txs)
  let ?a = "\<lparr> af_overlay = (af_overlay a)\<lparr>ov_overlay := fold memory_write_op ops (ov_overlay (af_overlay a))\<rparr>,
    af_operations = af_operations a + 1 \<rparr>"
  have "auto_write T n ops a = (Ok (), ?a)" using Cons.prems by (simp add: auto_write_def overlay_write_eq)
  then show ?case using Cons.IH [of ?a] Cons.prems by simp
qed simp

text \<open>
  C35. A flush that fails does more harm than its error says: the buffered operations are dropped,
  and as the counter is only compared with the limit for equality, no later write flushes again.
  However many transactions follow, they all succeed and none of them reaches the database below.
\<close>

theorem failed_flush_stops_flushing:
  assumes "auto_write T max_operations ops a = (Err e, a')"
  shows "entries (auto_database T max_operations) a' = entries T (ov_db (af_overlay a'))
    \<and> (\<forall>txs. \<exists>a''. auto_writes T max_operations txs a' = (Ok (), a'') \<and> ov_db (af_overlay a'') = ov_db (af_overlay a'))"
proof -
  have "af_operations a' = max_operations \<and> ov_overlay (af_overlay a') = memory_default"
    using assms
    by (auto simp: auto_write_def overlay_write_eq overlay_flush_def drain_transaction_def Let_def
        split: prod.splits outcome.splits if_splits)
  then show ?thesis using auto_writes_past_limit [of max_operations a' T] by (simp add: entries_auto entries_overlay)
qed

definition full_disk :: "memory_db kv_ops" where
  "full_disk = memory_database\<lparr>kv_write := \<lambda>ops db. (Err ''No space left on device'', db)\<rparr>"

theorem failed_flush_stops_flushing_witness:
  "\<exists>a'. auto_write full_disk 1 [Insert (KvBlockHash 0 [1])] (auto_new memory_default) = (Err ''No space left on device'', a')
     \<and> entries (auto_database full_disk 1) a' (KeyBlockHash 0) = None
     \<and> (\<exists>a''. auto_writes full_disk 1 [[], []] a' = (Ok (), a''))"
proof -
  obtain a' where a': "auto_write full_disk 1 [Insert (KvBlockHash 0 [1])] (auto_new memory_default)
      = (Err ''No space left on device'', a')"
      "ov_db (af_overlay a') = memory_default"
    by (simp add: auto_write_def overlay_write_eq auto_new_def overlay_new_def overlay_flush_def full_disk_def
        drain_transaction_def)
  have "entries full_disk memory_default k = None" for k
    by (simp add: entries_def full_disk_def memory_database_def memory_get_def)
  then show ?thesis using failed_flush_stops_flushing [OF a'(1)] a' by (auto simp del: auto_writes.simps)
qed


section \<open>The header cache\<close>

text \<open>
  The documented behaviour of the \<open>lru-cache\<close> crate, for the map \<open>cached\<close> of what a cache holds: a
  lookup answers from it, and inserting adds one entry and may evict others.
\<close>

definition lru_laws :: "'c lru_cache \<Rightarrow> ('c \<Rightarrow> bytes \<rightharpoonup> block_header key_state) \<Rightarrow> bool" where
  "lru_laws L cached \<longleftrightarrow>
     (\<forall>k c. fst (lru_get_mut L k c) = cached c k \<and> cached (snd (lru_get_mut L k c)) \<subseteq>\<^sub>m cached c)
     \<and> (\<forall>k v c. cached (lru_insert L k v c) \<subseteq>\<^sub>m (cached c)(k \<mapsto> v))"

definition cache_consistent :: "('c \<Rightarrow> bytes \<rightharpoonup> block_header key_state) \<Rightarrow> (key \<rightharpoonup> value) \<Rightarrow> 'c \<Rightarrow> bool" where
  "cache_consistent cached m c \<longleftrightarrow>
     (\<forall>hash st. cached c hash = Some st \<longrightarrow> m (KeyBlockHeader hash) = map_option ValueBlockHeader (into_option st))"

lemma into_option_map: "into_option (key_state_map f st) = map_option f (into_option st)"
  by (cases st) simp_all

lemma cache_consistent_sub:
  "cache_consistent cached m c \<Longrightarrow> cached c' \<subseteq>\<^sub>m cached c \<Longrightarrow> cache_consistent cached m c'"
  by (auto simp: cache_consistent_def map_le_def dom_def)

lemma cache_note_consistent:
  assumes "lru_laws L cached" and "cache_consistent cached m c"
  shows "cache_consistent cached (apply_operation op m) (cache_note L op c)"
proof -
  have insert: "cached (lru_insert L k v c) hash = Some st \<Longrightarrow> st = v \<and> hash = k \<or> hash \<noteq> k \<and> cached c hash = Some st"
    for k v hash st
  proof -
    assume found: "cached (lru_insert L k v c) hash = Some st"
    have "cached (lru_insert L k v c) \<subseteq>\<^sub>m (cached c)(k \<mapsto> v)" using assms(1) by (simp add: lru_laws_def)
    then have "((cached c)(k \<mapsto> v)) hash = Some st" using found unfolding map_le_def dom_def by force
    then show ?thesis by (auto split: if_splits)
  qed
  show ?thesis
    using assms(2) by (cases "(L, op, c)" rule: cache_note.cases)
      (auto simp: cache_consistent_def apply_operation_apply dest!: insert)
qed

lemma cache_notes_consistent:
  "lru_laws L cached \<Longrightarrow> cache_consistent cached m c \<Longrightarrow>
   cache_consistent cached (apply_operations ops m) (fold (cache_note L) ops c)"
  by (induction ops arbitrary: m c) (simp_all add: cache_note_consistent)

text \<open>
  C25. The header cache is transparent: on a consistent cache every read answers as the database below
  it would and leaves it unchanged, a successful write is a write of the database below, and both
  keep the cache consistent.
\<close>

theorem cache_transparent:
  assumes "key_value_database T invar" and "lru_laws L cached" and "invar (cdb_db d)"
    and "cache_consistent cached (entries T (cdb_db d)) (cdb_header d)"
  shows "(\<exists>st d'. cache_get T L k d = (Ok st, d') \<and> into_option st = entries T (cdb_db d) k \<and> cdb_db d' = cdb_db d
          \<and> cache_consistent cached (entries T (cdb_db d')) (cdb_header d'))
    \<and> (\<forall>d'. cache_write T L ops d = (Ok (), d') \<longrightarrow>
          kv_write T ops (cdb_db d) = (Ok (), cdb_db d')
          \<and> cache_consistent cached (entries T (cdb_db d')) (cdb_header d'))"
proof (intro conjI allI impI)
  have below: "\<exists>st. kv_get T k (cdb_db d) = Ok st \<and> into_option st = entries T (cdb_db d) k"
    using key_value_database.get_total [OF assms(1,3), of k] by (auto simp: entries_def)
  show "\<exists>st d'. cache_get T L k d = (Ok st, d') \<and> into_option st = entries T (cdb_db d) k \<and> cdb_db d' = cdb_db d
          \<and> cache_consistent cached (entries T (cdb_db d')) (cdb_header d')"
  proof (cases "\<exists>hash. k = KeyBlockHeader hash")
    case True
    then obtain hash where k: "k = KeyBlockHeader hash" ..
    obtain found c where f: "lru_get_mut L hash (cdb_header d) = (found, c)" by force
    then have "found = cached (cdb_header d) hash" "cached c \<subseteq>\<^sub>m cached (cdb_header d)"
      using assms(2) unfolding lru_laws_def by (metis fst_conv, metis snd_conv)
    then have c: "cache_consistent cached (entries T (cdb_db d)) c"
      and hit: "found = Some st \<Longrightarrow> into_option (key_state_map ValueBlockHeader st) = entries T (cdb_db d) k" for st
      using cache_consistent_sub [OF assms(4), of c] assms(4) by (simp_all add: k into_option_map cache_consistent_def)
    show ?thesis
    proof (cases found)
      case None
      then show ?thesis using below c by (auto simp: cache_get_def k f)
    next
      case (Some st)
      then show ?thesis using c hit by (simp add: cache_get_def k f)
    qed
  next
    case False
    then show ?thesis using below assms(4) by (cases k) (auto simp: cache_get_def)
  qed
next
  fix d'
  assume "cache_write T L ops d = (Ok (), d')"
  then have w: "kv_write T ops (cdb_db d) = (Ok (), cdb_db d')" and c: "cdb_header d' = fold (cache_note L) ops (cdb_header d)"
    by (auto simp: cache_write_def split: prod.splits)
  then show "kv_write T ops (cdb_db d) = (Ok (), cdb_db d')" by simp
  show "cache_consistent cached (entries T (cdb_db d')) (cdb_header d')"
    using key_value_database.write_Ok [OF assms(1,3) w] cache_notes_consistent [OF assms(2,4)] by (simp add: c)
qed

text \<open>A cache of two entries.\<close>

definition small_lru :: "(bytes \<times> block_header key_state) list lru_cache" where
  "small_lru = \<lparr> lru_insert = (\<lambda>k v c. take 2 ((k, v) # c)), lru_get_mut = (\<lambda>k c. (map_of c k, c)) \<rparr>"

lemma map_of_take: "map_of (take n c) k = Some v \<Longrightarrow> map_of c k = Some v"
  by (induction c arbitrary: n) (auto simp: take_Cons split: nat.splits if_splits)

lemma small_lru_laws: "lru_laws small_lru map_of"
proof -
  have "map_of (take 2 ((k, v) # c)) \<subseteq>\<^sub>m (map_of c)(k \<mapsto> v)" for k v and c :: "(bytes \<times> block_header key_state) list"
    unfolding map_le_def
  proof
    fix hash
    assume "hash \<in> dom (map_of (take 2 ((k, v) # c)))"
    then obtain st where "map_of (take 2 ((k, v) # c)) hash = Some st" by blast
    then show "map_of (take 2 ((k, v) # c)) hash = ((map_of c)(k \<mapsto> v)) hash" using map_of_take by fastforce
  qed
  then show ?thesis by (simp add: lru_laws_def small_lru_def del: take_Cons_numeral)
qed

theorem cache_transparent_witness:
  "\<exists>d d' st. cache_write memory_database small_lru [Delete (KeyBlockHeader [1])] \<lparr> cdb_db = memory_default, cdb_header = [] \<rparr>
       = (Ok (), d)
     \<and> cache_get memory_database small_lru (KeyBlockHeader [1]) d = (Ok st, d') \<and> into_option st = None"
proof -
  let ?d = "\<lparr> cdb_db = memory_default, cdb_header = [] \<rparr>" and ?ops = "[Delete (KeyBlockHeader [1])]"
  let ?cached = "map_of :: (bytes \<times> block_header key_state) list \<Rightarrow> bytes \<rightharpoonup> block_header key_state"
  have start: "cache_consistent ?cached (entries memory_database (cdb_db ?d)) (cdb_header ?d)"
    by (simp add: cache_consistent_def)
  obtain d where d: "cache_write memory_database small_lru ?ops ?d = (Ok (), d)"
    by (simp add: cache_write_def memory_database_def memory_write_def)
  have w: "kv_write memory_database ?ops memory_default = (Ok (), cdb_db d)"
      "cache_consistent ?cached (entries memory_database (cdb_db d)) (cdb_header d)"
    using cache_transparent [OF memory.key_value_database_axioms small_lru_laws _ start] d by auto
  note after = memory.write_Ok [OF memory_default_ok w(1)]
  have "\<exists>st d'. cache_get memory_database small_lru (KeyBlockHeader [1]) d = (Ok st, d')
      \<and> into_option st = entries memory_database (cdb_db d) (KeyBlockHeader [1])"
    using cache_transparent [OF memory.key_value_database_axioms small_lru_laws _ w(2), of "KeyBlockHeader [1]"] after by blast
  then show ?thesis using d after by (auto simp: apply_operation_apply)
qed

end
