(* ===== verification/Disk.thy ===== *)
theory Disk
  imports Kv_Props
begin

text \<open>
  The raw form of keys and values in the database on disk: what is read back for a key after a batch
  was written.  Transactions come back without their witnesses and index entries with their bit
  vector padded to whole bytes; everything else comes back as it was written.
\<close>

section \<open>Values\<close>

fun key_value_ok :: "key_value \<Rightarrow> bool" where
  "key_value_ok (KvMeta k v) \<longleftrightarrow> length v < 2 ^ 63"
| "key_value_ok (KvBlockHash k v) \<longleftrightarrow> length v = 32"
| "key_value_ok (KvBlockHeader k v) \<longleftrightarrow> header_ok v"
| "key_value_ok (KvBlockTransactions k v) \<longleftrightarrow> list_ok 32 (\<lambda>hash. length hash = 32) v"
| "key_value_ok (KvTransaction k v) \<longleftrightarrow> transaction_ok v"
| "key_value_ok (KvTransactionMeta k v) \<longleftrightarrow> length (tm_bits v) < 2 ^ 63"
| "key_value_ok (KvBlockNumber k v) \<longleftrightarrow> True"
| "key_value_ok (KvConfiguration k v) \<longleftrightarrow> length v < 2 ^ 63"

text \<open>What is read back for a value that was written.\<close>

fun stored :: "value \<Rightarrow> value" where
  "stored (ValueTransaction t) = ValueTransaction (without_witness t)"
| "stored (ValueTransactionMeta m) =
     ValueTransactionMeta (m\<lparr>tm_bits := tm_bits m @ replicate (padding (length (tm_bits m))) False\<rparr>)"
| "stored v = v"

lemma read_as_Ok: "deserialize de bs = Ok v \<Longrightarrow> read_as wrap de bs = Ok (wrap v)"
  by (simp add: read_as_def)

interpretation hash_list: codec "append_list (\<lambda>hash. hash)" "read_list 32 (read_slice 32)" "list_ok 32 (\<lambda>hash. length hash = 32)"
  by (rule hash.list_codec)

lemma value_for_key_stored:
  assumes "bit_vec_pads bv" and "key_value_ok kv"
  shows "value_for_key bv (key_of kv) (rkv_value (raw_of_key_value bv kv)) = Ok (stored (value_of kv))"
proof (cases kv)
  case (KvTransaction k t)
  have "yields (read_transaction (reader_new (serialize_transaction 0 t))) (without_witness t) []"
    using read_transaction_serialized [of t "reader_new (serialize_transaction 0 t)" 0 "[]"] assms(2) KvTransaction by simp
  then show ?thesis using KvTransaction by (simp add: read_as_Ok deserialize_yields)
next
  case (KvTransactionMeta k m)
  then show ?thesis using read_meta_padded [OF assms(1), of m] assms(2) by (simp add: read_as_Ok)
next
  case (KvBlockTransactions k hs)
  then show ?thesis using hash_list.deserialize_serialize [of hs "[]"] assms(2) by (simp add: read_as_Ok)
next
  case (KvMeta k v)
  then show ?thesis using byte_string.deserialize_serialize [of v "[]"] assms(2) by (simp add: read_as_Ok)
next
  case (KvConfiguration k v)
  then show ?thesis using byte_string.deserialize_serialize [of v "[]"] assms(2) by (simp add: read_as_Ok)
next
  case (KvBlockHash k v)
  then show ?thesis using hash.deserialize_serialize [of v 32 "[]"] assms(2) by (simp add: read_as_Ok)
next
  case (KvBlockHeader k v)
  then show ?thesis using header.deserialize_serialize [of v "[]"] assms(2) by (simp add: read_as_Ok)
next
  case (KvBlockNumber k v)
  then show ?thesis using u32.deserialize_serialize [of v "[]"] by (simp add: read_as_Ok)
qed


section \<open>Keys\<close>

fun key_ok :: "key \<Rightarrow> bool" where
  "key_ok (KeyMeta k) \<longleftrightarrow> length k < 2 ^ 63"
| "key_ok (KeyConfiguration k) \<longleftrightarrow> length k < 2 ^ 63"
| "key_ok _ \<longleftrightarrow> True"

lemma serialize_str_inj:
  assumes "length s < 2 ^ 63" "length t < 2 ^ 63" "serialize_str s = serialize_str t"
  shows "s = t"
proof -
  have "inj (of_char :: char \<Rightarrow> u8)"
  proof (rule injI)
    fix c d :: char
    assume "of_char c = (of_char d :: u8)"
    then have "unat (of_nat (of_char c) :: u8) = unat (of_nat (of_char d) :: u8)" by (simp only: of_nat_of_char)
    moreover have "(of_char c :: nat) < 256" "(of_char d :: nat) < 256" by simp_all
    ultimately have "(of_char c :: nat) = of_char d" by (simp only: unat_of_nat) simp
    then show "c = d" by simp
  qed
  moreover have "(map of_char s :: bytes) = map of_char t"
    using byte_string.prefix_free [of "map of_char s" "map of_char t" "[]" "[]"] assms by (simp add: serialize_str_def)
  ultimately show ?thesis by (simp add: inj_map_eq_map)
qed

lemma serialize_u32_inj: "serialize_u32 a = serialize_u32 b \<Longrightarrow> a = b"
  using u32.prefix_free [where x = a and y = b and s = "[]" and t = "[]"] by simp

lemma raw_of_key_inj: "key_ok k \<Longrightarrow> key_ok k' \<Longrightarrow> raw_of_key k = raw_of_key k' \<Longrightarrow> k = k'"
  by (cases k; cases k') (auto intro: serialize_str_inj dest: serialize_u32_inj)

lemma raw_of_key_value_key:
  "\<lparr> rk_location = rkv_location (raw_of_key_value bv kv), rk_key = rkv_key (raw_of_key_value bv kv) \<rparr> = raw_of_key (key_of kv)"
  by (cases kv) simp_all


section \<open>The database on disk\<close>

fun raw_apply :: "raw_operation \<Rightarrow> (raw_key \<rightharpoonup> bytes) \<Rightarrow> (raw_key \<rightharpoonup> bytes)" where
  "raw_apply (RawInsert kv) m = m(\<lparr> rk_location = rkv_location kv, rk_key = rkv_key kv \<rparr> \<mapsto> rkv_value kv)"
| "raw_apply (RawDelete k) m = m(k := None)"

text \<open>The documented behaviour of RocksDB: a batch that succeeds takes effect in the order of its operations.\<close>

definition rocks_laws :: "'r rocks_db \<Rightarrow> bool" where
  "rocks_laws R \<longleftrightarrow>
     (\<forall>ops r r'. rocks_write R ops r = (Ok (), r') \<longrightarrow>
        (\<exists>m. (\<forall>k. rocks_get R (rk_location k) (rk_key k) r = Ok (m k))
           \<and> (\<forall>k. rocks_get R (rk_location k) (rk_key k) r' = Ok (fold raw_apply ops m k))))"

definition decoded :: "bit_vec_crate \<Rightarrow> (raw_key \<rightharpoonup> bytes) \<Rightarrow> (key \<rightharpoonup> value)" where
  "decoded bv m k =
     (case m (raw_of_key k) of
        Some bs \<Rightarrow> (case value_for_key bv k bs of Ok v \<Rightarrow> Some v | _ \<Rightarrow> None)
      | None \<Rightarrow> None)"

fun store_operation :: "operation \<Rightarrow> (key \<rightharpoonup> value) \<Rightarrow> (key \<rightharpoonup> value)" where
  "store_operation (Insert kv) m = m(key_of kv \<mapsto> stored (value_of kv))"
| "store_operation (Delete k) m = m(k := None)"

fun operation_ok :: "operation \<Rightarrow> bool" where
  "operation_ok (Insert kv) \<longleftrightarrow> key_value_ok kv \<and> key_ok (key_of kv)"
| "operation_ok (Delete k) \<longleftrightarrow> key_ok k"

lemma entries_disk:
  assumes "\<And>k. rocks_get R (rk_location k) (rk_key k) r = Ok (m k)"
  shows "entries (disk_database R bv) r = decoded bv m"
  by (auto simp: fun_eq_iff entries_def disk_database_def disk_get_def assms decoded_def split: option.splits outcome.splits)

lemma decoded_operation:
  assumes "bit_vec_pads bv" and "operation_ok op" and "key_ok k"
  shows "decoded bv (raw_apply (raw_of_operation bv op) m) k = store_operation op (decoded bv m) k"
proof (cases op)
  case (Insert kv)
  then show ?thesis
    using assms raw_of_key_inj [of k "key_of kv"] value_for_key_stored [of bv kv]
    by (auto simp: decoded_def raw_of_key_value_key)
next
  case (Delete k')
  then show ?thesis using assms raw_of_key_inj [of k k'] by (auto simp: decoded_def)
qed

lemma store_operation_cong: "m k = m' k \<Longrightarrow> store_operation op m k = store_operation op m' k"
  by (cases op) auto

lemma store_operations_cong: "m k = m' k \<Longrightarrow> fold store_operation ops m k = fold store_operation ops m' k"
proof (induction ops arbitrary: m m')
  case (Cons op ops)
  show ?case unfolding fold_Cons comp_apply by (rule Cons.IH, rule store_operation_cong, rule Cons.prems)
qed simp

lemma decoded_operations:
  assumes "bit_vec_pads bv" and "list_all operation_ok ops" and "key_ok k"
  shows "decoded bv (fold raw_apply (map (raw_of_operation bv) ops) m) k = fold store_operation ops (decoded bv m) k"
  using assms(2)
proof (induction ops arbitrary: m)
  case (Cons op ops)
  have "decoded bv (raw_apply (raw_of_operation bv op) m) k = store_operation op (decoded bv m) k"
    using decoded_operation [OF assms(1) _ assms(3)] Cons.prems by simp
  then show ?case
    using store_operations_cong [of "decoded bv (raw_apply (raw_of_operation bv op) m)" k "store_operation op (decoded bv m)" ops]
      Cons.IH [of "raw_apply (raw_of_operation bv op) m"] Cons.prems
    by (simp del: store_operation.simps raw_of_operation.simps)
qed simp

text \<open>
  C22. Reading after a write of the database on disk: under every key the last operation of the batch
  on that key decides; an inserted value is read back, a transaction without its witnesses and an
  index entry with its bits padded, and keys that the batch does not name read as before.
\<close>

theorem disk_round_trip:
  assumes "rocks_laws R" and "bit_vec_pads bv" and "list_all operation_ok ops" and "key_ok k"
    and "disk_write R bv ops r = (Ok (), r')"
  shows "entries (disk_database R bv) r' k = fold store_operation ops (entries (disk_database R bv) r) k"
proof -
  obtain m where m: "\<And>k. rocks_get R (rk_location k) (rk_key k) r = Ok (m k)"
    "\<And>k. rocks_get R (rk_location k) (rk_key k) r' = Ok (fold raw_apply (map (raw_of_operation bv) ops) m k)"
    using assms(1,5) unfolding rocks_laws_def disk_write_def by blast
  show ?thesis
    unfolding entries_disk [OF m(1)] entries_disk [OF m(2)] by (rule decoded_operations [OF assms(2-4)])
qed

definition rocks_map :: "(raw_key \<rightharpoonup> bytes) rocks_db" where
  "rocks_map =
     \<lparr> rocks_write = (\<lambda>ops m. (Ok (), fold raw_apply ops m)), rocks_get = (\<lambda>loc k m. Ok (m \<lparr> rk_location = loc, rk_key = k \<rparr>)) \<rparr>"

lemma rocks_map_laws: "rocks_laws rocks_map"
proof -
  have same: "rocks_get rocks_map (rk_location k) (rk_key k) m = Ok (m k)" for k :: raw_key and m
    by (cases k) (simp add: rocks_map_def)
  have wrote: "r' = fold raw_apply ops r" if "rocks_write rocks_map ops r = (Ok (), r')" for ops r r'
    using that by (simp add: rocks_map_def)
  show ?thesis unfolding rocks_laws_def same using wrote by blast
qed

theorem disk_round_trip_witness:
  "entries (disk_database rocks_map packed_bit_vec)
       (snd (disk_write rocks_map packed_bit_vec [Insert (KvBlockNumber (replicate 32 7) 5)] Map.empty))
       (KeyBlockNumber (replicate 32 7))
     = Some (ValueBlockNumber 5)"
proof -
  let ?ops = "[Insert (KvBlockNumber (replicate 32 7) 5)]"
  have "disk_write rocks_map packed_bit_vec ?ops Map.empty = (Ok (), snd (disk_write rocks_map packed_bit_vec ?ops Map.empty))"
    by (simp add: disk_write_def rocks_map_def)
  from disk_round_trip [OF rocks_map_laws packed_bit_vec_pads _ _ this, of "KeyBlockNumber (replicate 32 7)"]
  show ?thesis by simp
qed

end
