(* ===== verification/Block_Chain_Db.thy ===== *)
theory Block_Chain_Db
  imports Kv_Props Work
begin

text \<open>
  \<open>BlockChainDatabase\<close> of \<open>db/src/block_chain_db.rs\<close> over any key-value database: the providers of
  headers, blocks, transactions and index entries, inserting a block, appending a block to the main
  chain and taking it off again, where a new block belongs, and forks with the switch to one.

  A database that fails to answer a read makes \<open>get\<close> panic, so that every reader returns an outcome.
  An operation that writes returns its result and the new state.  The deserialized best block and the
  \<open>HashMap\<close> of modified index entries follow the conventions of \<open>Kv\<close>.
\<close>

record 'db chain_db =
  cd_best_block :: best_block
  cd_db :: 'db

definition is_zero_hash :: "bytes \<Rightarrow> bool" where
  "is_zero_hash hash = list_all (\<lambda>b. b = 0) hash"

definition KEY_BEST_BLOCK_NUMBER :: string where "KEY_BEST_BLOCK_NUMBER = ''best_block_number''"
definition KEY_BEST_BLOCK_HASH :: string where "KEY_BEST_BLOCK_HASH = ''best_block_hash''"
definition MAX_FORK_ROUTE_PRESET :: nat where "MAX_FORK_ROUTE_PRESET = 2048"


section \<open>Readers\<close>

definition chain_get :: "'db kv_ops \<Rightarrow> 'db \<Rightarrow> key \<Rightarrow> ('e, value option) outcome" where
  "chain_get T db k = (case kv_get T k db of Ok st \<Rightarrow> Ok (into_option st) | _ \<Rightarrow> Panic)"

definition get_as :: "'db kv_ops \<Rightarrow> (value \<Rightarrow> 'a option) \<Rightarrow> 'db \<Rightarrow> key \<Rightarrow> ('e, 'a option) outcome" where
  "get_as T as db k = and_then (chain_get T db k) (\<lambda>v. Ok (Option.bind v as))"

definition chain_block_hash :: "'db kv_ops \<Rightarrow> 'db \<Rightarrow> u32 \<Rightarrow> ('e, bytes option) outcome" where
  "chain_block_hash T db number = get_as T as_block_hash db (KeyBlockHash number)"

definition chain_block_number :: "'db kv_ops \<Rightarrow> 'db \<Rightarrow> bytes \<Rightarrow> ('e, u32 option) outcome" where
  "chain_block_number T db hash = get_as T as_block_number db (KeyBlockNumber hash)"

fun chain_resolve_hash :: "'db kv_ops \<Rightarrow> 'db \<Rightarrow> block_ref \<Rightarrow> ('e, bytes option) outcome" where
  "chain_resolve_hash T db (Number n) = chain_block_hash T db n"
| "chain_resolve_hash T db (Hash h) = Ok (Some h)"

text \<open>\<open>Option::and_then\<close> with a fallible continuation.\<close>

definition if_some :: "'a option \<Rightarrow> ('a \<Rightarrow> ('e, 'b option) outcome) \<Rightarrow> ('e, 'b option) outcome" where
  "if_some v f = (case v of None \<Rightarrow> Ok None | Some x \<Rightarrow> f x)"

definition chain_block_header :: "'db kv_ops \<Rightarrow> 'db \<Rightarrow> block_ref \<Rightarrow> ('e, indexed_header option) outcome" where
  "chain_block_header T db r =
     and_then (chain_resolve_hash T db r) (\<lambda>h. if_some h (\<lambda>hash.
     and_then (get_as T as_block_header db (KeyBlockHeader hash)) (\<lambda>header.
       Ok (map_option (\<lambda>raw. \<lparr> ih_hash = hash, ih_raw = raw \<rparr>) header))))"

definition chain_contains_block :: "'db kv_ops \<Rightarrow> 'db \<Rightarrow> block_ref \<Rightarrow> ('e, bool) outcome" where
  "chain_contains_block T db r =
     and_then (chain_resolve_hash T db r) (\<lambda>h.
     and_then (if_some h (\<lambda>hash. chain_get T db (KeyBlockHeader hash))) (\<lambda>v. Ok (v \<noteq> None)))"

definition chain_block_transaction_hashes :: "'db kv_ops \<Rightarrow> 'db \<Rightarrow> block_ref \<Rightarrow> ('e, bytes list) outcome" where
  "chain_block_transaction_hashes T db r =
     and_then (chain_resolve_hash T db r) (\<lambda>h.
     and_then (if_some h (\<lambda>hash. get_as T as_block_transactions db (KeyBlockTransactions hash))) (\<lambda>v.
       Ok (case v of Some hashes \<Rightarrow> hashes | None \<Rightarrow> [])))"

definition chain_transaction :: "'db kv_ops \<Rightarrow> 'db \<Rightarrow> bytes \<Rightarrow> ('e, indexed_transaction option) outcome" where
  "chain_transaction T db hash =
     and_then (get_as T as_transaction db (KeyTransaction hash)) (\<lambda>tx.
       Ok (map_option (\<lambda>raw. \<lparr> it_hash = hash, it_raw = raw \<rparr>) tx))"

fun transactions_of :: "'db kv_ops \<Rightarrow> 'db \<Rightarrow> bytes list \<Rightarrow> ('e, indexed_transaction list) outcome" where
  "transactions_of T db [] = Ok []"
| "transactions_of T db (hash # hashes) =
     and_then (chain_transaction T db hash) (\<lambda>tx.
     and_then (transactions_of T db hashes) (\<lambda>txs.
       Ok (case tx of Some t \<Rightarrow> t # txs | None \<Rightarrow> txs)))"

definition chain_block_transactions :: "'db kv_ops \<Rightarrow> 'db \<Rightarrow> block_ref \<Rightarrow> ('e, indexed_transaction list) outcome" where
  "chain_block_transactions T db r = and_then (chain_block_transaction_hashes T db r) (transactions_of T db)"

definition chain_block :: "'db kv_ops \<Rightarrow> 'db \<Rightarrow> block_ref \<Rightarrow> ('e, indexed_block option) outcome" where
  "chain_block T db r =
     and_then (chain_resolve_hash T db r) (\<lambda>h. if_some h (\<lambda>hash.
     and_then (chain_block_header T db (Hash hash)) (\<lambda>header. if_some header (\<lambda>header.
     and_then (chain_block_transactions T db (Hash hash)) (\<lambda>txs.
       Ok (Some \<lparr> ib_header = header, ib_transactions = txs \<rparr>))))))"

definition chain_transaction_meta :: "'db kv_ops \<Rightarrow> 'db \<Rightarrow> bytes \<Rightarrow> ('e, transaction_meta option) outcome" where
  "chain_transaction_meta T db hash = get_as T as_transaction_meta db (KeyTransactionMeta hash)"

text \<open>Previous outputs are found for transactions of the main chain only.\<close>

definition chain_transaction_output :: "'db kv_ops \<Rightarrow> 'db \<Rightarrow> out_point \<Rightarrow> ('e, transaction_output option) outcome" where
  "chain_transaction_output T db prevout =
     and_then (chain_transaction_meta T db (op_hash prevout)) (\<lambda>meta. if_some meta (\<lambda>_.
     and_then (chain_transaction T db (op_hash prevout)) (\<lambda>tx. if_some tx (\<lambda>tx.
       Ok (if unat (op_index prevout) < length (tx_outputs (it_raw tx))
           then Some (tx_outputs (it_raw tx) ! unat (op_index prevout)) else None)))))"

definition chain_is_spent :: "'db kv_ops \<Rightarrow> 'db \<Rightarrow> out_point \<Rightarrow> ('e, bool) outcome" where
  "chain_is_spent T db prevout =
     and_then (chain_transaction_meta T db (op_hash prevout)) (\<lambda>meta.
       Ok (case Option.bind meta (\<lambda>m. meta_is_spent m (unat (op_index prevout))) of Some spent \<Rightarrow> spent | None \<Rightarrow> False))"

definition chain_best_header :: "'db kv_ops \<Rightarrow> 'db chain_db \<Rightarrow> ('e, indexed_header) outcome" where
  "chain_best_header T cd = and_then (chain_block_header T (cd_db cd) (Hash (bb_hash (cd_best_block cd)))) expect"


section \<open>Opening\<close>

definition read_best_block :: "'db kv_ops \<Rightarrow> 'db \<Rightarrow> ('e, best_block option) outcome" where
  "read_best_block T db =
     (let read = (\<lambda>k. case kv_get T (KeyMeta k) db of Ok st \<Rightarrow> Some (Option.bind (into_option st) as_meta) | _ \<Rightarrow> None) in
      case (read KEY_BEST_BLOCK_NUMBER, read KEY_BEST_BLOCK_HASH) of
        (Some None, Some None) \<Rightarrow> Ok None
      | (Some (Some number), Some (Some hash)) \<Rightarrow>
          (case (deserialize read_u32 number, deserialize (read_slice 32) hash) of
             (Ok n, Ok h) \<Rightarrow> Ok (Some \<lparr> bb_number = n, bb_hash = h \<rparr>)
           | _ \<Rightarrow> Panic)
      | _ \<Rightarrow> Panic)"

definition chain_open :: "'db kv_ops \<Rightarrow> 'db \<Rightarrow> ('e, 'db chain_db) outcome" where
  "chain_open T db =
     and_then (read_best_block T db) (\<lambda>best.
       Ok \<lparr> cd_best_block = (case best of Some b \<Rightarrow> b | None \<Rightarrow> best_block_default), cd_db = db \<rparr>)"


section \<open>Writers\<close>

text \<open>Writing an update: the best block is replaced only if the write succeeds.\<close>

definition commit ::
    "'db kv_ops \<Rightarrow> (db_error, operation list \<times> best_block \<times> 'a) outcome \<Rightarrow> 'db chain_db \<Rightarrow> (db_error, 'a) outcome \<times> 'db chain_db" where
  "commit T update cd =
     (case update of
        Err e \<Rightarrow> (Err e, cd)
      | Panic \<Rightarrow> (Panic, cd)
      | Ok (ops, best, x) \<Rightarrow>
          (case kv_write T ops (cd_db cd) of
             (Ok _, db) \<Rightarrow> (Ok x, \<lparr> cd_best_block = best, cd_db = db \<rparr>)
           | (Err e, db) \<Rightarrow> (Err (DatabaseError e), cd\<lparr>cd_db := db\<rparr>)
           | (Panic, db) \<Rightarrow> (Panic, cd\<lparr>cd_db := db\<rparr>)))"

definition insert_operations :: "indexed_block \<Rightarrow> operation list" where
  "insert_operations b =
     Insert (KvBlockHeader (ih_hash (ib_header b)) (ih_raw (ib_header b)))
     # Insert (KvBlockTransactions (ih_hash (ib_header b)) (map it_hash (ib_transactions b)))
     # map (\<lambda>tx. Insert (KvTransaction (it_hash tx) (it_raw tx))) (ib_transactions b)"

definition chain_insert :: "'db kv_ops \<Rightarrow> indexed_block \<Rightarrow> 'db chain_db \<Rightarrow> (db_error, unit) outcome \<times> 'db chain_db" where
  "chain_insert T b cd =
     (case chain_contains_block T (cd_db cd) (Hash (ih_hash (ib_header b))) of
        Err e \<Rightarrow> (Err e, cd)
      | Panic \<Rightarrow> (Panic, cd)
      | Ok True \<Rightarrow> (Ok (), cd)
      | Ok False \<Rightarrow>
          (let parent_hash = bh_previous_header_hash (ih_raw (ib_header b)) in
           commit T
             (and_then (chain_contains_block T (cd_db cd) (Hash parent_hash)) (\<lambda>known.
                if \<not> known \<and> \<not> is_zero_hash parent_hash then Err UnknownParent
                else Ok (insert_operations b, cd_best_block cd, ()))) cd))"

type_synonym modified_meta = "(bytes \<times> transaction_meta) list"

text \<open>
  The index entry of the transaction that an input spends is taken from the entries modified so far or
  from the database, changed by \<open>denote\<close> (\<open>denote_used\<close> or \<open>denote_unused\<close>), and put back.
\<close>

definition mark_input ::
    "'db kv_ops \<Rightarrow> 'db \<Rightarrow> db_error \<Rightarrow> (transaction_meta \<Rightarrow> nat \<Rightarrow> (db_error, transaction_meta) outcome) \<Rightarrow>
      modified_meta \<Rightarrow> transaction_input \<Rightarrow> (db_error, modified_meta) outcome" where
  "mark_input T db missing denote metas i =
     (let hash = op_hash (ti_previous_output i); idx = unat (op_index (ti_previous_output i)) in
      case map_of metas hash of
        Some meta \<Rightarrow> and_then (denote meta idx) (\<lambda>meta. Ok (AList.update hash meta metas))
      | None \<Rightarrow>
          and_then (chain_transaction_meta T db hash) (\<lambda>found.
          and_then (ok_or found missing) (\<lambda>meta.
          and_then (denote meta idx) (\<lambda>meta. Ok (AList.update hash meta metas)))))"

fun mark_inputs ::
    "'db kv_ops \<Rightarrow> 'db \<Rightarrow> db_error \<Rightarrow> (transaction_meta \<Rightarrow> nat \<Rightarrow> (db_error, transaction_meta) outcome) \<Rightarrow>
      modified_meta \<Rightarrow> transaction_input list \<Rightarrow> (db_error, modified_meta) outcome" where
  "mark_inputs T db missing denote metas [] = Ok metas"
| "mark_inputs T db missing denote metas (i # is) =
     and_then (mark_input T db missing denote metas i) (\<lambda>metas. mark_inputs T db missing denote metas is)"

fun canonize_transactions ::
    "'db kv_ops \<Rightarrow> 'db \<Rightarrow> u32 \<Rightarrow> modified_meta \<Rightarrow> indexed_transaction list \<Rightarrow> (db_error, modified_meta) outcome" where
  "canonize_transactions T db number metas [] = Ok metas"
| "canonize_transactions T db number metas (tx # txs) =
     and_then (mark_inputs T db CannotCanonize denote_used
         (AList.update (it_hash tx) (meta_new number (length (tx_outputs (it_raw tx)))) metas) (tx_inputs (it_raw tx)))
       (\<lambda>metas. canonize_transactions T db number metas txs)"

definition canonize_metas ::
    "'db kv_ops \<Rightarrow> 'db \<Rightarrow> u32 \<Rightarrow> indexed_transaction list \<Rightarrow> (db_error, modified_meta) outcome" where
  "canonize_metas T db number txs =
     and_then
       (case txs of
          [] \<Rightarrow> Ok []
        | tx # _ \<Rightarrow>
            and_then (meta_new_coinbase number (length (tx_outputs (it_raw tx)))) (\<lambda>meta. Ok [(it_hash tx, meta)]))
       (\<lambda>metas. canonize_transactions T db number metas (drop 1 txs))"

definition best_block_operations :: "best_block \<Rightarrow> operation list" where
  "best_block_operations best =
     [Insert (KvMeta KEY_BEST_BLOCK_HASH (bb_hash best)), Insert (KvMeta KEY_BEST_BLOCK_NUMBER (serialize_u32 (bb_number best)))]"

abbreviation meta_operations :: "modified_meta \<Rightarrow> operation list" where
  "meta_operations \<equiv> map (\<lambda>(hash, meta). Insert (KvTransactionMeta hash meta))"

definition canonize_update ::
    "'db kv_ops \<Rightarrow> bytes \<Rightarrow> 'db chain_db \<Rightarrow> (db_error, operation list \<times> best_block \<times> unit) outcome" where
  "canonize_update T hash cd =
     and_then (chain_block T (cd_db cd) (Hash hash)) (\<lambda>found.
     and_then (ok_or found CannotCanonize) (\<lambda>b.
       let previous = bh_previous_header_hash (ih_raw (ib_header b)); best = cd_best_block cd in
       if bb_hash best \<noteq> previous then Err CannotCanonize
       else
         and_then (if is_zero_hash previous then (if bb_number best = 0 then Ok 0 else Panic) else u32_add (bb_number best) 1) (\<lambda>number.
         and_then (canonize_metas T (cd_db cd) number (ib_transactions b)) (\<lambda>metas.
           let new_best = \<lparr> bb_number = number, bb_hash = hash \<rparr> in
           Ok ([Insert (KvBlockHash number hash), Insert (KvBlockNumber hash number)] @ best_block_operations new_best
                 @ meta_operations metas, new_best, ())))))"

definition chain_canonize :: "'db kv_ops \<Rightarrow> bytes \<Rightarrow> 'db chain_db \<Rightarrow> (db_error, unit) outcome \<times> 'db chain_db" where
  "chain_canonize T hash cd = commit T (canonize_update T hash cd) cd"

fun decanonize_transactions ::
    "'db kv_ops \<Rightarrow> 'db \<Rightarrow> modified_meta \<Rightarrow> indexed_transaction list \<Rightarrow> (db_error, modified_meta) outcome" where
  "decanonize_transactions T db metas [] = Ok metas"
| "decanonize_transactions T db metas (tx # txs) =
     and_then (mark_inputs T db CannotDecanonize denote_unused metas (tx_inputs (it_raw tx)))
       (\<lambda>metas. decanonize_transactions T db metas txs)"

definition decanonize_update ::
    "'db kv_ops \<Rightarrow> 'db chain_db \<Rightarrow> (db_error, operation list \<times> best_block \<times> bytes) outcome" where
  "decanonize_update T cd =
     (let best = cd_best_block cd in
      and_then (chain_block T (cd_db cd) (Hash (bb_hash best))) (\<lambda>found.
      and_then (ok_or found CannotDecanonize) (\<lambda>b.
        let previous = bh_previous_header_hash (ih_raw (ib_header b)) in
        and_then (if bb_number best > 0 then Ok (bb_number best - 1) else if is_zero_hash previous then Ok 0 else Panic) (\<lambda>number.
        and_then (decanonize_transactions T (cd_db cd) [] (drop 1 (ib_transactions b))) (\<lambda>metas.
          let new_best = \<lparr> bb_number = number, bb_hash = previous \<rparr> in
          Ok ([Delete (KeyBlockHash (bb_number best)), Delete (KeyBlockNumber (bb_hash best))] @ best_block_operations new_best
                @ meta_operations metas @ map (\<lambda>tx. Delete (KeyTransactionMeta (it_hash tx))) (ib_transactions b),
              new_best, bb_hash best))))))"

definition chain_decanonize :: "'db kv_ops \<Rightarrow> 'db chain_db \<Rightarrow> (db_error, bytes) outcome \<times> 'db chain_db" where
  "chain_decanonize T cd = commit T (decanonize_update T cd) cd"

definition rollback_best :: "'db kv_ops \<Rightarrow> 'db chain_db \<Rightarrow> (db_error, bytes) outcome \<times> 'db chain_db" where
  "rollback_best T cd =
     (let best_hash = bb_hash (cd_best_block cd) in
      case chain_block_transaction_hashes T (cd_db cd) (Hash best_hash) of
        Err e \<Rightarrow> (Err e, cd)
      | Panic \<Rightarrow> (Panic, cd)
      | Ok txs \<Rightarrow>
          (case chain_decanonize T cd of
             (Ok hash, cd) \<Rightarrow>
               (if hash \<noteq> best_hash then (Panic, cd)
                else commit T
                  (Ok ([Delete (KeyBlockHeader hash), Delete (KeyBlockTransactions hash)] @ map (\<lambda>h. Delete (KeyTransaction h)) txs,
                       cd_best_block cd, bb_hash (cd_best_block cd))) cd)
           | failed \<Rightarrow> failed))"

definition set_consensus_fork :: "'db kv_ops \<Rightarrow> string \<Rightarrow> 'db chain_db \<Rightarrow> (db_error, unit) outcome \<times> 'db chain_db" where
  "set_consensus_fork T name cd =
     commit T (Ok ([Insert (KvConfiguration ''consensus_fork'' (map of_char name))], cd_best_block cd, ())) cd"


section \<open>Origins and forks\<close>

fun hashes_between :: "'db kv_ops \<Rightarrow> 'db \<Rightarrow> u32 list \<Rightarrow> ('e, bytes list) outcome" where
  "hashes_between T db [] = Ok []"
| "hashes_between T db (n # ns) =
     and_then (chain_block_hash T db n) (\<lambda>h.
     and_then (hashes_between T db ns) (\<lambda>hs. Ok (case h of Some hash \<Rightarrow> hash # hs | None \<Rightarrow> hs)))"

text \<open>The loop over \<open>fork_len\<close>; \<open>route\<close> is what was pushed to \<open>sidechain_route\<close> so far.\<close>

fun origin_of ::
    "'db kv_ops \<Rightarrow> 'db chain_db \<Rightarrow> nat \<Rightarrow> nat \<Rightarrow> bytes list \<Rightarrow> bytes \<Rightarrow> (db_error, block_origin) outcome" where
  "origin_of T cd 0 fork_len route next_hash = Err AncientFork"
| "origin_of T cd (Suc fuel) fork_len route next_hash =
     and_then (chain_block_number T (cd_db cd) next_hash) (\<lambda>found.
       case found of
         Some number \<Rightarrow>
           and_then (u32_add number (word_of_nat fork_len)) (\<lambda>n.
           and_then (u32_add n 1) (\<lambda>block_number.
           and_then (u32_add number 1) (\<lambda>first.
           and_then (u32_add (bb_number (cd_best_block cd)) 1) (\<lambda>end.
           and_then (hashes_between T (cd_db cd) (map word_of_nat [unat first..<unat end])) (\<lambda>decanonized.
             let origin = \<lparr> sc_ancestor = number, sc_canonized_route = rev route, sc_decanonized_route = decanonized,
                            sc_block_number = block_number \<rparr> in
             Ok (if block_number > bb_number (cd_best_block cd) then SideChainBecomingCanonChain origin
                 else SideChain origin))))))
       | None \<Rightarrow>
           and_then (chain_block_header T (cd_db cd) (Hash next_hash)) (\<lambda>header.
           and_then (expect header) (\<lambda>header.
             origin_of T cd fuel (fork_len + 1) (route @ [next_hash]) (bh_previous_header_hash (ih_raw header)))))"

definition chain_block_origin :: "'db kv_ops \<Rightarrow> indexed_header \<Rightarrow> 'db chain_db \<Rightarrow> (db_error, block_origin) outcome" where
  "chain_block_origin T header cd =
     (let best = cd_best_block cd; db = cd_db cd; previous = bh_previous_header_hash (ih_raw header) in
      and_then (chain_block_hash T db (bb_number best)) (\<lambda>h.
        if h \<noteq> Some (bb_hash best) then Panic
        else
          and_then (chain_contains_block T db (Hash (ih_hash header))) (\<lambda>known.
            if known then Ok KnownBlock
            else if bb_hash best = previous then and_then (u32_add (bb_number best) 1) (\<lambda>n. Ok (CanonChain n))
            else
              and_then (chain_contains_block T db (Hash previous)) (\<lambda>known.
                if \<not> known then Err UnknownParent
                else origin_of T cd MAX_FORK_ROUTE_PRESET 0 [] previous))))"

fun decanonize_route ::
    "'db kv_ops \<Rightarrow> bytes list \<Rightarrow> 'db chain_db \<Rightarrow> (db_error, unit) outcome \<times> 'db chain_db" where
  "decanonize_route T [] cd = (Ok (), cd)"
| "decanonize_route T (hash # hashes) cd =
     (case chain_decanonize T cd of
        (Ok h, cd) \<Rightarrow> (if h = hash then decanonize_route T hashes cd else (Panic, cd))
      | (Err e, cd) \<Rightarrow> (Err e, cd)
      | (Panic, cd) \<Rightarrow> (Panic, cd))"

fun canonize_route ::
    "'db kv_ops \<Rightarrow> bytes list \<Rightarrow> 'db chain_db \<Rightarrow> (db_error, unit) outcome \<times> 'db chain_db" where
  "canonize_route T [] cd = (Ok (), cd)"
| "canonize_route T (hash # hashes) cd =
     (case chain_canonize T hash cd of
        (Ok _, cd) \<Rightarrow> canonize_route T hashes cd
      | failed \<Rightarrow> failed)"

text \<open>A fork is a block-chain database over an overlay; nothing is written to the database below it.\<close>

definition chain_fork :: "'db kv_ops \<Rightarrow> side_chain_origin \<Rightarrow> 'db chain_db \<Rightarrow> (db_error, 'db overlay chain_db) outcome" where
  "chain_fork T origin cd =
     and_then (chain_open (overlay_database T) (overlay_new (cd_db cd))) (\<lambda>fork.
       case decanonize_route (overlay_database T) (rev (sc_decanonized_route origin)) fork of
         (Err e, _) \<Rightarrow> Err e
       | (Panic, _) \<Rightarrow> Panic
       | (Ok _, fork) \<Rightarrow>
           (case canonize_route (overlay_database T) (sc_canonized_route origin) fork of
              (Err e, _) \<Rightarrow> Err e
            | (Panic, _) \<Rightarrow> Panic
            | (Ok _, fork) \<Rightarrow> Ok fork))"

text \<open>The overlay of the fork refers to the database of the chain, which is flushed into as it is now.\<close>

definition switch_to_fork ::
    "'db kv_ops \<Rightarrow> 'db overlay chain_db \<Rightarrow> 'db chain_db \<Rightarrow> (db_error, unit) outcome \<times> 'db chain_db" where
  "switch_to_fork T fork cd =
     (case overlay_flush T ((cd_db fork)\<lparr>ov_db := cd_db cd\<rparr>) of
        (result, o1) \<Rightarrow>
          (map_err DatabaseError result, \<lparr> cd_best_block = cd_best_block fork, cd_db = ov_db o1 \<rparr>))"

end
