(* ===== verification/Block_Chain_Props.thy ===== *)
theory Block_Chain_Props
  imports Block_Chain_Db
begin

text \<open>
  Correctness of the block-chain database.  The contents of the database represent a main chain, the
  list of its block hashes by height, by the predicate \<open>canon_chain\<close>; \<open>canonize\<close> appends a block to the
  list, \<open>decanonize\<close> takes the last one off, and a fork replaces the part of the list after the common
  ancestor.
\<close>

section \<open>Readers as functions of the contents\<close>

definition header_at :: "(key \<rightharpoonup> value) \<Rightarrow> bytes \<Rightarrow> block_header option" where
  "header_at m hash = Option.bind (m (KeyBlockHeader hash)) as_block_header"

definition hashes_at :: "(key \<rightharpoonup> value) \<Rightarrow> bytes \<Rightarrow> bytes list" where
  "hashes_at m hash = (case Option.bind (m (KeyBlockTransactions hash)) as_block_transactions of Some hs \<Rightarrow> hs | None \<Rightarrow> [])"

definition tx_at :: "(key \<rightharpoonup> value) \<Rightarrow> bytes \<Rightarrow> indexed_transaction option" where
  "tx_at m hash = map_option (\<lambda>raw. \<lparr> it_hash = hash, it_raw = raw \<rparr>) (Option.bind (m (KeyTransaction hash)) as_transaction)"

definition txs_at :: "(key \<rightharpoonup> value) \<Rightarrow> bytes \<Rightarrow> indexed_transaction list" where
  "txs_at m hash = List.map_filter (tx_at m) (hashes_at m hash)"

definition block_at :: "(key \<rightharpoonup> value) \<Rightarrow> bytes \<Rightarrow> indexed_block option" where
  "block_at m hash =
     map_option (\<lambda>raw. \<lparr> ib_header = \<lparr> ih_hash = hash, ih_raw = raw \<rparr>, ib_transactions = txs_at m hash \<rparr>) (header_at m hash)"

definition meta_at :: "(key \<rightharpoonup> value) \<Rightarrow> bytes \<Rightarrow> transaction_meta option" where
  "meta_at m hash = Option.bind (m (KeyTransactionMeta hash)) as_transaction_meta"

lemma if_some_simps [simp]: "if_some None f = Ok None" "if_some (Some x) f = f x"
  by (simp_all add: if_some_def)

context key_value_database
begin

lemma chain_get_eq [simp]: "invar db \<Longrightarrow> chain_get T db k = Ok (entries T db k)"
  using get_total [of db k] by (auto simp: chain_get_def entries_def)

lemma get_as_eq [simp]: "invar db \<Longrightarrow> get_as T as db k = Ok (Option.bind (entries T db k) as)"
  by (simp add: get_as_def)

lemma chain_transaction_eq [simp]: "invar db \<Longrightarrow> chain_transaction T db hash = Ok (tx_at (entries T db) hash)"
  by (simp add: chain_transaction_def tx_at_def)

lemma transactions_of_eq [simp]:
  "invar db \<Longrightarrow> transactions_of T db hashes = Ok (List.map_filter (tx_at (entries T db)) hashes)"
  by (induction hashes) (simp_all add: List.map_filter_def split: option.split)

lemma chain_block_transaction_hashes_eq [simp]:
  "invar db \<Longrightarrow> chain_block_transaction_hashes T db (Hash hash) = Ok (hashes_at (entries T db) hash)"
  by (simp add: chain_block_transaction_hashes_def hashes_at_def)

lemma chain_block_header_eq [simp]:
  "invar db \<Longrightarrow> chain_block_header T db (Hash hash)
     = Ok (map_option (\<lambda>raw. \<lparr> ih_hash = hash, ih_raw = raw \<rparr>) (header_at (entries T db) hash))"
  by (simp add: chain_block_header_def header_at_def)

lemma chain_block_eq [simp]: "invar db \<Longrightarrow> chain_block T db (Hash hash) = Ok (block_at (entries T db) hash)"
  by (cases "header_at (entries T db) hash")
    (simp_all add: chain_block_def chain_block_transactions_def block_at_def txs_at_def)

lemma chain_transaction_meta_eq [simp]: "invar db \<Longrightarrow> chain_transaction_meta T db hash = Ok (meta_at (entries T db) hash)"
  by (simp add: chain_transaction_meta_def meta_at_def)

lemma chain_block_hash_eq [simp]:
  "invar db \<Longrightarrow> chain_block_hash T db n = Ok (Option.bind (entries T db (KeyBlockHash n)) as_block_hash)"
  by (simp add: chain_block_hash_def)

lemma chain_block_number_eq [simp]:
  "invar db \<Longrightarrow> chain_block_number T db h = Ok (Option.bind (entries T db (KeyBlockNumber h)) as_block_number)"
  by (simp add: chain_block_number_def)

lemma chain_contains_block_eq [simp]:
  "invar db \<Longrightarrow> chain_contains_block T db (Hash hash) = Ok (entries T db (KeyBlockHeader hash) \<noteq> None)"
  by (simp add: chain_contains_block_def)

lemma commit_Ok:
  assumes "invar (cd_db cd)" and "commit T update cd = (Ok x, cd')"
  obtains ops best where "update = Ok (ops, best, x)" "cd_best_block cd' = best" "invar (cd_db cd')"
    "entries T (cd_db cd') = apply_operations ops (entries T (cd_db cd))"
proof -
  obtain ops best db where u: "update = Ok (ops, best, x)" "kv_write T ops (cd_db cd) = (Ok (), db)"
      "cd' = \<lparr> cd_best_block = best, cd_db = db \<rparr>"
    using assms(2) by (auto simp: commit_def split: outcome.splits prod.splits)
  then show ?thesis using that write_Ok [OF assms(1) u(2)] by simp
qed

end


section \<open>The main chain\<close>

abbreviation zero_hash :: bytes where
  "zero_hash \<equiv> replicate 32 0"

definition best_of :: "bytes list \<Rightarrow> best_block" where
  "best_of hs = (if hs = [] then best_block_default else \<lparr> bb_number = word_of_nat (length hs - 1), bb_hash = last hs \<rparr>)"

text \<open>The recorded best block; before the first block nothing need be recorded.\<close>

definition best_recorded :: "(key \<rightharpoonup> value) \<Rightarrow> best_block \<Rightarrow> bool" where
  "best_recorded m best \<longleftrightarrow>
     m (KeyMeta KEY_BEST_BLOCK_HASH) = Some (ValueMeta (bb_hash best))
       \<and> m (KeyMeta KEY_BEST_BLOCK_NUMBER) = Some (ValueMeta (serialize_u32 (bb_number best)))
     \<or> best = best_block_default \<and> m (KeyMeta KEY_BEST_BLOCK_HASH) = None \<and> m (KeyMeta KEY_BEST_BLOCK_NUMBER) = None"

definition linked :: "(key \<rightharpoonup> value) \<Rightarrow> bytes list \<Rightarrow> bool" where
  "linked m hs \<longleftrightarrow>
     (\<forall>i<length hs. \<exists>header. header_at m (hs ! i) = Some header
        \<and> bh_previous_header_hash header = (if i = 0 then zero_hash else hs ! (i - 1)))"

definition canon_chain :: "(key \<rightharpoonup> value) \<Rightarrow> best_block \<Rightarrow> bytes list \<Rightarrow> bool" where
  "canon_chain m best hs \<longleftrightarrow>
     best = best_of hs \<and> best_recorded m best \<and> linked m hs
     \<and> distinct hs \<and> zero_hash \<notin> set hs \<and> list_all (\<lambda>h. length h = 32) hs \<and> length hs \<le> 2 ^ 32
     \<and> (\<forall>n. m (KeyBlockHash n) = (if unat n < length hs then Some (ValueBlockHash (hs ! unat n)) else None))
     \<and> (\<forall>i<length hs. m (KeyBlockNumber (hs ! i)) = Some (ValueBlockNumber (word_of_nat i)))
     \<and> (\<forall>h. h \<notin> set hs \<longrightarrow> m (KeyBlockNumber h) = None)"

lemma canon_chain_empty: "canon_chain Map.empty best_block_default []"
  by (simp add: canon_chain_def best_of_def best_recorded_def linked_def)

lemma is_zero_hash_iff: "length h = 32 \<Longrightarrow> is_zero_hash h \<longleftrightarrow> h = zero_hash"
  by (auto simp: is_zero_hash_def list_all_iff intro!: replicate_eqI)

lemma is_zero_zero_hash [simp]: "is_zero_hash zero_hash"
  by (simp add: is_zero_hash_iff)

lemma canon_chainD:
  assumes "canon_chain m best hs"
  shows "best = best_of hs" "best_recorded m best" "linked m hs" "distinct hs" "zero_hash \<notin> set hs"
    "list_all (\<lambda>h. length h = 32) hs" "length hs \<le> 2 ^ 32"
    "m (KeyBlockHash n) = (if unat n < length hs then Some (ValueBlockHash (hs ! unat n)) else None)"
    "i < length hs \<Longrightarrow> m (KeyBlockNumber (hs ! i)) = Some (ValueBlockNumber (word_of_nat i))"
    "h \<notin> set hs \<Longrightarrow> m (KeyBlockNumber h) = None"
  using assms unfolding canon_chain_def by blast+

lemma linkedD:
  assumes "linked m hs" "i < length hs" "header_at m (hs ! i) = Some header"
  shows "bh_previous_header_hash header = (if i = 0 then zero_hash else hs ! (i - 1))"
  using assms unfolding linked_def by auto

lemma bb_hash_best_of: "hs \<noteq> [] \<Longrightarrow> bb_hash (best_of hs) = hs ! (length hs - 1)" "bb_hash (best_of []) = zero_hash"
  by (simp_all add: best_of_def last_conv_nth best_block_default_def)

text \<open>A block whose parent is the last of the chain is not in the chain.\<close>

lemma next_block_fresh:
  assumes "canon_chain m best hs" and "header_at m hash = Some header"
    and "bh_previous_header_hash header = bb_hash best"
  shows "hash \<notin> set hs"
proof
  note c = canon_chainD [OF assms(1)]
  assume "hash \<in> set hs"
  then obtain i where i: "i < length hs" "hs ! i = hash" by (auto simp: in_set_conv_nth)
  then have ne: "hs \<noteq> []" by auto
  have "hs ! (length hs - 1) = (if i = 0 then zero_hash else hs ! (i - 1))"
    unfolding bb_hash_best_of(1) [OF ne, symmetric] c(1) [symmetric] assms(3) [symmetric]
    using linkedD [OF c(3) i(1)] assms(2) i(2) by blast
  moreover have "hs ! (length hs - 1) \<in> set hs" using i(1) by (intro nth_mem) simp
  moreover have "hs ! (length hs - 1) \<noteq> hs ! (i - 1)" if "i \<noteq> 0"
    using c(4) i(1) that by (subst nth_eq_iff_index_eq) auto
  ultimately show False using c(5) by (auto split: if_splits)
qed

lemma meta_operations_other:
  "k \<notin> range KeyTransactionMeta \<Longrightarrow> apply_operations (meta_operations metas) m k = m k"
  by (rule apply_operations_other) auto

text \<open>Only what \<open>canon_chain\<close> reads matters.\<close>

lemma header_at_cong: "m (KeyBlockHeader h) = m' (KeyBlockHeader h) \<Longrightarrow> header_at m h = header_at m' h"
  by (simp add: header_at_def)

lemma canon_chain_append:
  assumes "canon_chain m best hs" and "hash \<notin> set hs" "hash \<noteq> zero_hash" "length hash = 32" "length hs < 2 ^ 32"
    and "header_at m hash = Some header" "bh_previous_header_hash header = bb_hash best"
    and "\<And>h. m' (KeyBlockHeader h) = m (KeyBlockHeader h)"
    and "\<And>n. m' (KeyBlockHash n) = (if n = word_of_nat (length hs) then Some (ValueBlockHash hash) else m (KeyBlockHash n))"
    and "\<And>h. m' (KeyBlockNumber h) = (if h = hash then Some (ValueBlockNumber (word_of_nat (length hs))) else m (KeyBlockNumber h))"
    and "best_recorded m' best'" "best' = best_of (hs @ [hash])"
  shows "canon_chain m' best' (hs @ [hash])"
proof -
  note c = canon_chainD [OF assms(1)]
  have headers: "header_at m' h = header_at m h" for h by (rule header_at_cong) (rule assms(8))
  have "linked m' (hs @ [hash])"
    using c(3) assms(6,7) unfolding linked_def headers
    by (auto simp: nth_append c(1) bb_hash_best_of less_Suc_eq best_of_def best_block_default_def last_conv_nth)
  moreover have "m' (KeyBlockHash n) = (if unat n < length (hs @ [hash]) then Some (ValueBlockHash ((hs @ [hash]) ! unat n)) else None)" for n
  proof -
    have "n = word_of_nat (length hs) \<longleftrightarrow> unat n = length hs"
      using assms(5) by (auto simp: unat_of_nat dest!: sym [of "unat n"])
    then show ?thesis by (auto simp: assms(9) c(8) nth_append less_Suc_eq)
  qed
  moreover have "m' (KeyBlockNumber ((hs @ [hash]) ! i)) = Some (ValueBlockNumber (word_of_nat i))" if "i < length (hs @ [hash])" for i
    using that assms(2) c(9) [of i] by (auto simp: assms(10) nth_append less_Suc_eq)
  moreover have "m' (KeyBlockNumber h) = None" if "h \<notin> set (hs @ [hash])" for h
    using that c(10) [of h] by (simp add: assms(10))
  ultimately show ?thesis
    using assms(2-5,11,12) c(4-7) unfolding canon_chain_def by simp
qed

lemma best_block_operations_recorded:
  "best_recorded (apply_operations (best_block_operations best @ meta_operations metas @ map (\<lambda>tx. Delete (KeyTransactionMeta (it_hash tx))) txs) m) best"
proof -
  have "apply_operations (map (\<lambda>tx. Delete (KeyTransactionMeta (it_hash tx))) txs) m' (KeyMeta k) = m' (KeyMeta k)" for m' k
    by (rule apply_operations_other) auto
  then show ?thesis
    by (simp add: best_recorded_def apply_operations_append meta_operations_other image_iff best_block_operations_def
        apply_operation_apply KEY_BEST_BLOCK_HASH_def KEY_BEST_BLOCK_NUMBER_def)
qed

text \<open>What an update leaves alone.\<close>

lemma best_block_operations_other:
  "k \<notin> range KeyMeta \<Longrightarrow> apply_operations (best_block_operations best) m k = m k"
  by (rule apply_operations_other) (auto simp: best_block_operations_def)

lemma delete_metas_other:
  "k \<notin> range KeyTransactionMeta \<Longrightarrow>
   apply_operations (map (\<lambda>tx. Delete (KeyTransactionMeta (it_hash tx))) txs) m k = m k"
  by (rule apply_operations_other) auto

lemmas updates_other = apply_operations_append meta_operations_other best_block_operations_other delete_metas_other
  apply_operation_apply image_iff

context key_value_database
begin

lemma canonize_update_Ok:
  assumes "invar (cd_db cd)" and "canonize_update T hash cd = Ok (ops, best, x)"
  obtains header number metas where "header_at (entries T (cd_db cd)) hash = Some header"
    "bh_previous_header_hash header = bb_hash (cd_best_block cd)"
    "if is_zero_hash (bb_hash (cd_best_block cd)) then bb_number (cd_best_block cd) = 0 \<and> number = 0
     else u32_add (bb_number (cd_best_block cd)) 1 = (Ok number :: (db_error, u32) outcome)"
    "canonize_metas T (cd_db cd) number (txs_at (entries T (cd_db cd)) hash) = Ok metas"
    "best = \<lparr> bb_number = number, bb_hash = hash \<rparr>"
    "ops = [Insert (KvBlockHash number hash), Insert (KvBlockNumber hash number)] @ best_block_operations best @ meta_operations metas"
proof -
  from assms obtain header where h: "header_at (entries T (cd_db cd)) hash = Some header"
    by (auto simp: canonize_update_def block_at_def)
  with assms that [of header] show ?thesis
    by (auto simp: canonize_update_def block_at_def Let_def split: if_splits)
qed

lemma canonize_appends:
  assumes invar: "invar (cd_db cd)" and canon: "canon_chain (entries T (cd_db cd)) (cd_best_block cd) hs"
    and hash: "length hash = 32" "hash \<noteq> zero_hash" and ok: "chain_canonize T hash cd = (Ok (), cd')"
  shows "canon_chain (entries T (cd_db cd')) (cd_best_block cd') (hs @ [hash]) \<and> invar (cd_db cd')"
proof -
  let ?m = "entries T (cd_db cd)" and ?best = "cd_best_block cd"
  note c = canon_chainD [OF canon]
  obtain ops best where u: "canonize_update T hash cd = Ok (ops, best, ())" "cd_best_block cd' = best" "invar (cd_db cd')"
      "entries T (cd_db cd') = apply_operations ops ?m"
    using commit_Ok [OF invar ok [unfolded chain_canonize_def]] by metis
  obtain header number metas where h: "header_at ?m hash = Some header" "bh_previous_header_hash header = bb_hash ?best"
      "if is_zero_hash (bb_hash ?best) then bb_number ?best = 0 \<and> number = 0
       else u32_add (bb_number ?best) 1 = (Ok number :: (db_error, u32) outcome)"
      "best = \<lparr> bb_number = number, bb_hash = hash \<rparr>"
      "ops = [Insert (KvBlockHash number hash), Insert (KvBlockNumber hash number)] @ best_block_operations best @ meta_operations metas"
    using canonize_update_Ok [OF invar u(1)] by metis
  have number: "number = word_of_nat (length hs) \<and> length hs < 2 ^ 32"
  proof (cases "hs = []")
    case True
    then show ?thesis using h(3) by (simp add: c(1) best_of_def best_block_default_def)
  next
    case False
    then have "last hs \<noteq> zero_hash" "length (last hs) = 32"
      using c(5,6) last_in_set [OF False] unfolding list_all_iff by metis+
    then have "u32_add (word_of_nat (length hs - 1)) 1 = (Ok number :: (db_error, u32) outcome)"
      using h(3) False by (simp add: c(1) best_of_def is_zero_hash_iff)
    then show ?thesis
      using False c(7) by (cases hs) (auto simp: u32_add_def unat_of_nat split: if_splits)
  qed
  have "canon_chain (entries T (cd_db cd')) (cd_best_block cd') (hs @ [hash])"
  proof (rule canon_chain_append [OF canon next_block_fresh [OF canon h(1,2)] hash(2,1) _ h(1,2)])
    show "best_recorded (entries T (cd_db cd')) (cd_best_block cd')"
      unfolding u(2,4) h(5) using best_block_operations_recorded [of best metas "[]"] by (simp add: apply_operations_append)
  qed (use number in \<open>auto simp: u(2,4) h(4,5) updates_other best_of_def\<close>)
  then show ?thesis using u(3) by simp
qed

end

lemma canon_chain_butlast:
  assumes "canon_chain m best (hs @ [hash])"
    and "\<And>h. m' (KeyBlockHeader h) = m (KeyBlockHeader h)"
    and "\<And>n. m' (KeyBlockHash n) = (if n = word_of_nat (length hs) then None else m (KeyBlockHash n))"
    and "\<And>h. m' (KeyBlockNumber h) = (if h = hash then None else m (KeyBlockNumber h))"
    and "best_recorded m' best'" "best' = best_of hs"
  shows "canon_chain m' best' hs"
proof -
  note c = canon_chainD [OF assms(1)]
  have headers: "header_at m' h = header_at m h" for h by (rule header_at_cong) (rule assms(2))
  have "linked m' hs"
    unfolding linked_def headers
  proof (intro allI impI)
    fix i assume i: "i < length hs"
    then show "\<exists>header. header_at m (hs ! i) = Some header
        \<and> bh_previous_header_hash header = (if i = 0 then zero_hash else hs ! (i - 1))"
      using c(3) [unfolded linked_def, rule_format, of i] by (auto simp: nth_append split: if_splits)
  qed
  moreover have "m' (KeyBlockHash n) = (if unat n < length hs then Some (ValueBlockHash (hs ! unat n)) else None)" for n
  proof -
    have "n = word_of_nat (length hs) \<longleftrightarrow> unat n = length hs"
      using c(7) by (auto simp: unat_of_nat dest!: sym [of "unat n"])
    then show ?thesis by (auto simp: assms(3) c(8) nth_append less_Suc_eq)
  qed
  moreover have "m' (KeyBlockNumber (hs ! i)) = Some (ValueBlockNumber (word_of_nat i))" if "i < length hs" for i
    using that c(4) c(9) [of i] by (auto simp: assms(4) nth_append dest: nth_mem)
  moreover have "m' (KeyBlockNumber h) = None" if "h \<notin> set hs" for h
    using that c(10) [of h] by (simp add: assms(4))
  ultimately show ?thesis
    using assms(5,6) c(4-7) unfolding canon_chain_def by simp
qed

context key_value_database
begin

lemma decanonize_update_Ok:
  assumes "invar (cd_db cd)" and "decanonize_update T cd = Ok (ops, best, x)"
  obtains header metas where "header_at (entries T (cd_db cd)) (bb_hash (cd_best_block cd)) = Some header"
    "x = bb_hash (cd_best_block cd)"
    "best = \<lparr> bb_number = (if bb_number (cd_best_block cd) > 0 then bb_number (cd_best_block cd) - 1 else 0),
              bb_hash = bh_previous_header_hash header \<rparr>"
    "decanonize_transactions T (cd_db cd) [] (drop 1 (txs_at (entries T (cd_db cd)) x)) = Ok metas"
    "ops = [Delete (KeyBlockHash (bb_number (cd_best_block cd))), Delete (KeyBlockNumber x)] @ best_block_operations best
       @ meta_operations metas @ map (\<lambda>tx. Delete (KeyTransactionMeta (it_hash tx))) (txs_at (entries T (cd_db cd)) x)"
proof -
  from assms obtain header where h: "header_at (entries T (cd_db cd)) (bb_hash (cd_best_block cd)) = Some header"
    by (auto simp: decanonize_update_def block_at_def Let_def)
  with assms that [of header] show ?thesis
    by (auto simp: decanonize_update_def block_at_def Let_def split: if_splits)
qed

lemma decanonize_drops_last:
  assumes invar: "invar (cd_db cd)" and canon: "canon_chain (entries T (cd_db cd)) (cd_best_block cd) (hs @ [hash])"
    and ok: "chain_decanonize T cd = (Ok x, cd')"
  shows "x = hash \<and> canon_chain (entries T (cd_db cd')) (cd_best_block cd') hs \<and> invar (cd_db cd')"
proof -
  let ?m = "entries T (cd_db cd)" and ?best = "cd_best_block cd"
  note c = canon_chainD [OF canon]
  have b: "bb_number ?best = word_of_nat (length hs)" "bb_hash ?best = hash" by (simp_all add: c(1) best_of_def)
  obtain ops best where u: "decanonize_update T cd = Ok (ops, best, x)" "cd_best_block cd' = best" "invar (cd_db cd')"
      "entries T (cd_db cd') = apply_operations ops ?m"
    using commit_Ok [OF invar ok [unfolded chain_decanonize_def]] by metis
  obtain header metas where h: "header_at ?m hash = Some header" "x = hash"
      "best = \<lparr> bb_number = (if bb_number ?best > 0 then bb_number ?best - 1 else 0), bb_hash = bh_previous_header_hash header \<rparr>"
      "ops = [Delete (KeyBlockHash (bb_number ?best)), Delete (KeyBlockNumber x)] @ best_block_operations best
         @ meta_operations metas @ map (\<lambda>tx. Delete (KeyTransactionMeta (it_hash tx))) (txs_at ?m x)"
    using decanonize_update_Ok [OF invar u(1)] unfolding b by metis
  have previous: "bh_previous_header_hash header = (if hs = [] then zero_hash else last hs)"
    using linkedD [OF c(3), of "length hs" header] h(1) by (auto simp: nth_append last_conv_nth)
  have new_best: "best = best_of hs"
  proof (cases hs rule: rev_cases)
    case (snoc hs' h)
    then have "word_of_nat (length hs) = (word_of_nat (length hs') + 1 :: u32)" "(word_of_nat (length hs) :: u32) \<noteq> 0"
      using c(7) unat_of_nat [of "length hs", where 'a = 32] by (auto simp del: unat_of_nat)
    then show ?thesis using previous b snoc by (simp add: h(3) best_of_def word_gt_0)
  qed (use previous b in \<open>simp add: h(3) best_of_def best_block_default_def\<close>)
  have "canon_chain (entries T (cd_db cd')) (cd_best_block cd') hs"
  proof (rule canon_chain_butlast [OF canon])
    show "best_recorded (entries T (cd_db cd')) (cd_best_block cd')"
      unfolding u(2,4) h(4) apply_operations_append [of "[_, _]"] by (rule best_block_operations_recorded)
  qed (auto simp: u(2,4) h(2,4) b new_best updates_other)
  then show ?thesis using u(3) h(2) by simp
qed

end


section \<open>Origins\<close>

text \<open>\<open>route\<close> leads from the block \<open>a\<close> to the block \<open>t\<close>, each block the child of the one before it.\<close>

definition connected :: "(key \<rightharpoonup> value) \<Rightarrow> bytes \<Rightarrow> bytes list \<Rightarrow> bytes \<Rightarrow> bool" where
  "connected m a route t \<longleftrightarrow>
     last (a # route) = t
     \<and> (\<forall>i<length route. \<exists>header. header_at m (route ! i) = Some header \<and> bh_previous_header_hash header = (a # route) ! i)"

lemma connected_Cons:
  assumes "connected m next_hash route t" and "header_at m next_hash = Some header"
  shows "connected m (bh_previous_header_hash header) (next_hash # route) t"
  using assms by (auto simp: connected_def less_Suc_eq_0_disj)

context key_value_database
begin

lemma hashes_between_eq:
  "invar db \<Longrightarrow> hashes_between T db ns
     = Ok (List.map_filter (\<lambda>n. Option.bind (entries T db (KeyBlockHash n)) as_block_hash) ns)"
  by (induction ns) (simp_all add: List.map_filter_def split: option.split)

end

lemma chain_from:
  assumes "canon_chain m best hs" "i \<le> length hs"
  shows "List.map_filter (\<lambda>n. Option.bind (m (KeyBlockHash n)) as_block_hash) (map word_of_nat [i..<length hs]) = drop i hs"
proof -
  have "Option.bind (m (KeyBlockHash (word_of_nat j))) as_block_hash = Some (hs ! j)" if "j < length hs" for j
    using that canon_chainD(7,8) [OF assms(1)] by (simp add: unat_of_nat)
  then have "List.map_filter (\<lambda>n. Option.bind (m (KeyBlockHash n)) as_block_hash) (map word_of_nat [i..<length hs])
      = map (\<lambda>j. hs ! j) [i..<length hs]"
    by (auto simp: List.map_filter_def filter_map o_def intro!: map_cong filter_True)
  also have "\<dots> = drop i hs" by (rule nth_equalityI) simp_all
  finally show ?thesis .
qed

text \<open>What an origin says about the chain.\<close>

definition origin_ok :: "(key \<rightharpoonup> value) \<Rightarrow> bytes list \<Rightarrow> bytes \<Rightarrow> side_chain_origin \<Rightarrow> bool" where
  "origin_ok m hs parent origin \<longleftrightarrow>
     unat (sc_ancestor origin) < length hs
     \<and> connected m (hs ! unat (sc_ancestor origin)) (sc_canonized_route origin) parent
     \<and> set (sc_canonized_route origin) \<inter> set hs = {}
     \<and> sc_decanonized_route origin = drop (unat (sc_ancestor origin) + 1) hs
     \<and> unat (sc_block_number origin) = unat (sc_ancestor origin) + length (sc_canonized_route origin) + 1"

lemma unat_word_of_nat_eq: "n < 2 ^ 32 \<Longrightarrow> k = n \<Longrightarrow> unat (word_of_nat k :: u32) = n"
  by (simp add: unat_of_nat)

lemma u32_add_OkD: "u32_add a b = (Ok c :: ('e, u32) outcome) \<Longrightarrow> unat c = unat a + unat b"
  using unat_add_lem [of a b] by (auto simp: u32_add_def split: if_splits)

context key_value_database
begin

lemma origin_at_ancestor:
  assumes "invar (cd_db cd)" and "canon_chain (entries T (cd_db cd)) (cd_best_block cd) hs" and i: "i < length hs" "hs ! i = next_hash"
    and "origin_of T cd (Suc fuel) fork_len route next_hash = Ok result"
    and "connected (entries T (cd_db cd)) next_hash (rev route) parent" and "set route \<inter> set hs = {}"
    and route: "fork_len = length route" "length route < 2 ^ 32"
  shows "\<exists>origin. origin_ok (entries T (cd_db cd)) hs parent origin
     \<and> result = (if length hs < unat (sc_block_number origin) + 1 then SideChainBecomingCanonChain origin else SideChain origin)"
proof -
  let ?m = "entries T (cd_db cd)"
  note c = canon_chainD [OF assms(2)]
  have best: "unat (bb_number (cd_best_block cd)) = length hs - 1"
    using i(1) c(7) unat_word_of_nat_eq [of "length hs - 1", OF _ refl] by (auto simp: c(1) best_of_def)
  have some: "?m (KeyBlockNumber next_hash) = Some (ValueBlockNumber (word_of_nat i))" using c(9) [OF i(1)] i(2) by simp
  have small: "unat (word_of_nat i :: u32) = i" "unat (word_of_nat fork_len :: u32) = length route"
    using i(1) c(7) route by (intro unat_word_of_nat_eq; simp)+
  obtain n block_number "first" "end" where adds: "u32_add (word_of_nat i) (word_of_nat fork_len) = (Ok n :: (db_error, u32) outcome)"
      "u32_add n 1 = (Ok block_number :: (db_error, u32) outcome)" "u32_add (word_of_nat i) 1 = (Ok first :: (db_error, u32) outcome)"
      "u32_add (bb_number (cd_best_block cd)) 1 = (Ok end :: (db_error, u32) outcome)"
    and result: "result = (if block_number > bb_number (cd_best_block cd) then SideChainBecomingCanonChain else SideChain)
        \<lparr> sc_ancestor = word_of_nat i, sc_canonized_route = rev route, sc_decanonized_route =
            List.map_filter (\<lambda>n. Option.bind (?m (KeyBlockHash n)) as_block_hash) (map word_of_nat [unat first..<unat end]),
          sc_block_number = block_number \<rparr>"
    using assms(5) assms(1) by (auto simp: some hashes_between_eq Let_def)
  note unats = adds [THEN u32_add_OkD, unfolded small best]
  have n: "unat block_number = i + length route + 1" using unats by simp
  have "List.map_filter (\<lambda>n. Option.bind (?m (KeyBlockHash n)) as_block_hash) (map word_of_nat [unat first..<unat end]) = drop (i + 1) hs"
  proof -
    have ends: "unat first = i + 1" "unat end = length hs" using unats(3,4) i(1) by simp_all
    show ?thesis unfolding ends by (rule chain_from [OF assms(2)]) (use i(1) in simp)
  qed
  moreover have "block_number > bb_number (cd_best_block cd) \<longleftrightarrow> length hs < unat block_number + 1"
    using best i(1) by (auto simp: word_less_nat_alt)
  ultimately have n: "unat block_number = i + length route + 1"
      "result = (if length hs < unat block_number + 1 then SideChainBecomingCanonChain else SideChain)
        \<lparr> sc_ancestor = word_of_nat i, sc_canonized_route = rev route, sc_decanonized_route = drop (i + 1) hs,
          sc_block_number = block_number \<rparr>"
    using n result by simp_all
  then show ?thesis
    using n assms(6,7) i small(1)
    by (intro exI [of _ "\<lparr> sc_ancestor = word_of_nat i, sc_canonized_route = rev route,
           sc_decanonized_route = drop (i + 1) hs, sc_block_number = block_number \<rparr>"]) (auto simp: origin_ok_def)
qed

lemma origin_of_Ok:
  assumes "invar (cd_db cd)" and "canon_chain (entries T (cd_db cd)) (cd_best_block cd) hs" and "hs \<noteq> []"
    and "connected (entries T (cd_db cd)) next_hash (rev route) parent" and "set route \<inter> set hs = {}"
    and "fork_len = length route" "length route + fuel < 2 ^ 32"
    and "origin_of T cd fuel fork_len route next_hash = Ok result"
  shows "\<exists>origin. origin_ok (entries T (cd_db cd)) hs parent origin
     \<and> result = (if length hs < unat (sc_block_number origin) + 1 then SideChainBecomingCanonChain origin else SideChain origin)"
  using assms(4-8)
proof (induction fuel arbitrary: fork_len route next_hash)
  case (Suc fuel)
  let ?m = "entries T (cd_db cd)"
  note c = canon_chainD [OF assms(2)]
  show ?case
  proof (cases "next_hash \<in> set hs")
    case False
    then have none: "?m (KeyBlockNumber next_hash) = None" using c(10) by blast
    then obtain header where h: "header_at ?m next_hash = Some header"
      using Suc.prems(5) assms(1) by (cases "header_at ?m next_hash") simp_all
    show ?thesis
    proof (rule Suc.IH)
      show "connected ?m (bh_previous_header_hash header) (rev (route @ [next_hash])) parent"
        using connected_Cons [OF Suc.prems(1) h] by simp
      show "origin_of T cd fuel (fork_len + 1) (route @ [next_hash]) (bh_previous_header_hash header) = Ok result"
        using Suc.prems(5) assms(1) none h by simp
    qed (use Suc.prems False in auto)
  next
    case True
    then obtain i where "i < length hs" "hs ! i = next_hash" by (auto simp: in_set_conv_nth)
    then show ?thesis using origin_at_ancestor [OF assms(1,2) _ _ Suc.prems(5,1,2,3)] Suc.prems(4) by simp
  qed
qed simp

end


section \<open>Forks\<close>

context key_value_database
begin

lemma chain_open_best:
  assumes "invar db" and "canon_chain (entries T db) best hs"
  shows "chain_open T db = Ok \<lparr> cd_best_block = best, cd_db = db \<rparr>"
proof -
  note c = canon_chainD [OF assms(2)]
  have len: "length (bb_hash best) = 32"
    using c(6) last_in_set [of hs] by (cases "hs = []") (auto simp: c(1) best_of_def best_block_default_def list_all_iff)
  have get: "\<exists>st. kv_get T k db = Ok st \<and> into_option st = entries T db k" for k
    using get_total [OF assms(1), of k] by (auto simp: entries_def)
  obtain n h where nh: "kv_get T (KeyMeta KEY_BEST_BLOCK_NUMBER) db = Ok n" "into_option n = entries T db (KeyMeta KEY_BEST_BLOCK_NUMBER)"
      "kv_get T (KeyMeta KEY_BEST_BLOCK_HASH) db = Ok h" "into_option h = entries T db (KeyMeta KEY_BEST_BLOCK_HASH)"
    using get by meson
  have reread: "deserialize read_u32 (serialize_u32 x) = Ok x" "deserialize (read_slice 32) (bb_hash best) = Ok (bb_hash best)" for x
    using u32.deserialize_serialize [where x = x and rest = "[]"] hash.deserialize_serialize [of "bb_hash best" 32 "[]"] len
    by simp_all
  show ?thesis
    using c(2) unfolding best_recorded_def by (auto simp: chain_open_def read_best_block_def nh reread)
qed

lemma decanonize_route_drops:
  "invar (cd_db cd) \<Longrightarrow> canon_chain (entries T (cd_db cd)) (cd_best_block cd) (hs @ gone) \<Longrightarrow>
   decanonize_route T (rev gone) cd = (Ok (), cd') \<Longrightarrow>
   canon_chain (entries T (cd_db cd')) (cd_best_block cd') hs \<and> invar (cd_db cd')"
proof (induction gone arbitrary: cd rule: rev_induct)
  case (snoc hash gone)
  obtain cd1 where step: "chain_decanonize T cd = (Ok hash, cd1)" "decanonize_route T (rev gone) cd1 = (Ok (), cd')"
    using snoc.prems(3) by (auto split: prod.splits outcome.splits if_splits)
  then have "canon_chain (entries T (cd_db cd1)) (cd_best_block cd1) (hs @ gone) \<and> invar (cd_db cd1)"
    using decanonize_drops_last [OF snoc.prems(1), of "hs @ gone" hash] snoc.prems(2) by simp
  then show ?case using snoc.IH step(2) by blast
qed simp

lemma canonize_route_appends:
  "invar (cd_db cd) \<Longrightarrow> canon_chain (entries T (cd_db cd)) (cd_best_block cd) hs \<Longrightarrow>
   list_all (\<lambda>h. length h = 32 \<and> h \<noteq> zero_hash) route \<Longrightarrow> canonize_route T route cd = (Ok (), cd') \<Longrightarrow>
   canon_chain (entries T (cd_db cd')) (cd_best_block cd') (hs @ route) \<and> invar (cd_db cd')"
proof (induction route arbitrary: cd hs)
  case (Cons hash route)
  obtain cd1 where step: "chain_canonize T hash cd = (Ok (), cd1)" "canonize_route T route cd1 = (Ok (), cd')"
    using Cons.prems(4) by (auto split: prod.splits outcome.splits)
  then have "canon_chain (entries T (cd_db cd1)) (cd_best_block cd1) (hs @ [hash]) \<and> invar (cd_db cd1)"
    using canonize_appends [OF Cons.prems(1,2), of hash cd1] Cons.prems(3) by simp
  then show ?case using Cons.IH [of cd1 "hs @ [hash]"] step(2) Cons.prems(3) by simp
qed simp

end

text \<open>Nothing is written below an overlay.\<close>

lemma commit_overlay: "ov_db (cd_db (snd (commit (overlay_database T) update cd))) = ov_db (cd_db cd)"
  by (simp add: commit_def overlay_database_def overlay_write_eq split: outcome.split prod.split)

lemma decanonize_route_overlay:
  "decanonize_route (overlay_database T) route cd = (r, cd') \<Longrightarrow> ov_db (cd_db cd') = ov_db (cd_db cd)"
proof (induction route arbitrary: cd)
  case (Cons hash route)
  have "ov_db (cd_db (snd (chain_decanonize (overlay_database T) cd))) = ov_db (cd_db cd)"
    unfolding chain_decanonize_def by (rule commit_overlay)
  then show ?case using Cons by (auto split: prod.splits outcome.splits if_splits)
qed simp

lemma canonize_route_overlay:
  "canonize_route (overlay_database T) route cd = (r, cd') \<Longrightarrow> ov_db (cd_db cd') = ov_db (cd_db cd)"
proof (induction route arbitrary: cd)
  case (Cons hash route)
  have "ov_db (cd_db (snd (chain_canonize (overlay_database T) hash cd))) = ov_db (cd_db cd)"
    unfolding chain_canonize_def by (rule commit_overlay)
  then show ?case using Cons by (auto split: prod.splits outcome.splits)
qed simp

context key_value_database
begin

lemma fork_replaces_tail:
  assumes invar: "invar (cd_db cd)" and canon: "canon_chain (entries T (cd_db cd)) (cd_best_block cd) hs"
    and gone: "sc_decanonized_route origin = drop k hs"
    and hashes: "list_all (\<lambda>h. length h = 32 \<and> h \<noteq> zero_hash) (sc_canonized_route origin)"
    and ok: "chain_fork T origin cd = Ok fork"
  shows "canon_chain (entries (overlay_database T) (cd_db fork)) (cd_best_block fork) (take k hs @ sc_canonized_route origin)
    \<and> overlay_ok invar (cd_db fork) \<and> ov_db (cd_db fork) = cd_db cd"
proof -
  let ?O = "overlay_database T" and ?fork0 = "\<lparr> cd_best_block = cd_best_block cd, cd_db = overlay_new (cd_db cd) \<rparr>"
  note overlay = reliable_database.axioms(1) [OF overlay_is_database]
  have start: "overlay_ok invar (cd_db ?fork0)" "canon_chain (entries ?O (cd_db ?fork0)) (cd_best_block ?fork0) (take k hs @ drop k hs)"
    using invar canon by simp_all
  have open0: "chain_open ?O (overlay_new (cd_db cd)) = (Ok ?fork0 :: (db_error, _) outcome)"
    using key_value_database.chain_open_best [OF overlay _ start(2)] start(1) by simp
  obtain fork1 where steps: "decanonize_route ?O (rev (drop k hs)) ?fork0 = (Ok (), fork1)"
      "canonize_route ?O (sc_canonized_route origin) fork1 = (Ok (), fork)"
    using ok by (auto simp: chain_fork_def open0 gone split: prod.splits outcome.splits)
  have "canon_chain (entries ?O (cd_db fork1)) (cd_best_block fork1) (take k hs) \<and> overlay_ok invar (cd_db fork1)"
    by (rule key_value_database.decanonize_route_drops [OF overlay start steps(1)])
  then have "canon_chain (entries ?O (cd_db fork)) (cd_best_block fork) (take k hs @ sc_canonized_route origin) \<and> overlay_ok invar (cd_db fork)"
    using key_value_database.canonize_route_appends [OF overlay _ _ hashes steps(2)] by blast
  moreover have "ov_db (cd_db fork) = cd_db cd"
    using decanonize_route_overlay [OF steps(1)] canonize_route_overlay [OF steps(2)] by (simp add: overlay_new_def)
  ultimately show ?thesis by blast
qed

end

end
