(* ===== verification/Reorg.thy ===== *)
theory Reorg
  imports Block_Chain_Props
begin

text \<open>
  Reorganizations of the main chain: what \<open>canonize\<close> and \<open>decanonize\<close> do to the index entries of
  transactions, that taking a block off the chain undoes adding it, that switching to a fork replaces
  the tail of the chain, and a block order that \<open>canonize\<close> cannot handle.
\<close>

section \<open>Marking outputs\<close>

text \<open>The index entries as the loops see them: the modified ones over those of the database.\<close>

type_synonym meta_map = "bytes \<rightharpoonup> transaction_meta"

definition in_range :: "meta_map \<Rightarrow> transaction_input \<Rightarrow> bool" where
  "in_range cur i \<longleftrightarrow>
     (\<exists>meta. cur (op_hash (ti_previous_output i)) = Some meta \<and> Suc (unat (op_index (ti_previous_output i))) < length (tm_bits meta))"

definition used_indexes :: "bytes \<Rightarrow> transaction_input list \<Rightarrow> nat list" where
  "used_indexes hash is =
     map (\<lambda>i. unat (op_index (ti_previous_output i))) (filter (\<lambda>i. op_hash (ti_previous_output i) = hash) is)"

definition set_bits :: "bool \<Rightarrow> nat list \<Rightarrow> transaction_meta \<Rightarrow> transaction_meta" where
  "set_bits x idxs meta = meta\<lparr>tm_bits := fold (\<lambda>i bits. bits[Suc i := x]) idxs (tm_bits meta)\<rparr>"

definition mark_all :: "bool \<Rightarrow> transaction_input list \<Rightarrow> meta_map \<Rightarrow> meta_map" where
  "mark_all x is cur hash = map_option (set_bits x (used_indexes hash is)) (cur hash)"

lemma used_indexes_simps [simp]:
  "used_indexes hash [] = []"
  "used_indexes hash (i # is) =
     (if op_hash (ti_previous_output i) = hash then unat (op_index (ti_previous_output i)) # used_indexes hash is else used_indexes hash is)"
  "used_indexes hash (is @ js) = used_indexes hash is @ used_indexes hash js"
  by (simp_all add: used_indexes_def)

lemma set_bits_Nil [simp]: "set_bits x [] = (\<lambda>meta. meta)"
  by (simp add: fun_eq_iff set_bits_def)

lemma set_bits_append: "set_bits x (is @ js) = (\<lambda>meta. set_bits x js (set_bits x is meta))"
  by (simp add: fun_eq_iff set_bits_def)

lemma length_fold_update: "length (fold (\<lambda>i bits. bits[Suc i := x]) idxs bits) = length bits"
  by (induction idxs arbitrary: bits) simp_all

lemma length_set_bits [simp]: "length (tm_bits (set_bits x idxs meta)) = length (tm_bits meta)"
  by (simp add: set_bits_def length_fold_update)

lemma nth_fold_update:
  "j < length bits \<Longrightarrow> fold (\<lambda>i bits. bits[Suc i := x]) idxs bits ! j = (if j \<in> Suc ` set idxs then x else bits ! j)"
  by (induction idxs arbitrary: bits) (auto simp: nth_list_update)

lemma set_bits_undo:
  assumes "list_all (\<lambda>i. Suc i < length (tm_bits meta) \<longrightarrow> \<not> tm_bits meta ! Suc i) idxs"
  shows "set_bits False idxs (set_bits True idxs meta) = meta"
proof -
  have "fold (\<lambda>i bits. bits[Suc i := False]) idxs (fold (\<lambda>i bits. bits[Suc i := True]) idxs (tm_bits meta)) = tm_bits meta"
    by (rule nth_equalityI) (use assms in \<open>auto simp: length_fold_update nth_fold_update list_all_iff\<close>)
  then show ?thesis by (simp add: set_bits_def)
qed

lemma mark_all_Nil [simp]: "mark_all x [] cur = cur"
  by (simp add: fun_eq_iff mark_all_def option.map_ident)

lemma mark_all_append: "mark_all x (is @ js) cur = mark_all x js (mark_all x is cur)"
  by (simp add: fun_eq_iff mark_all_def set_bits_append option.map_comp o_def)

lemma in_range_mark_all [simp]: "in_range (mark_all x is cur) i = in_range cur i"
  by (auto simp: in_range_def mark_all_def)

lemma dom_mark_all [simp]: "dom (mark_all x is cur) = dom cur"
  by (auto simp: mark_all_def dom_def)

lemma mark_all_Cons:
  assumes "cur (op_hash (ti_previous_output i)) = Some meta"
  shows "mark_all x [i] cur
     = cur(op_hash (ti_previous_output i)
           \<mapsto> meta\<lparr>tm_bits := (tm_bits meta)[Suc (unat (op_index (ti_previous_output i))) := x]\<rparr>)"
  using assms by (auto simp: fun_eq_iff mark_all_def option.map_ident) (simp add: set_bits_def)

fun denoting :: "bool \<Rightarrow> transaction_meta \<Rightarrow> nat \<Rightarrow> (db_error, transaction_meta) outcome" where
  "denoting True = denote_used" | "denoting False = denote_unused"

lemma denoting_eq:
  "denoting x meta i = (if Suc i < length (tm_bits meta) then Ok (meta\<lparr>tm_bits := (tm_bits meta)[Suc i := x]\<rparr>) else Panic)"
  by (cases x) (simp_all add: denote_used_def denote_unused_def bit_vec_set_def)

context key_value_database
begin

lemma mark_input_Ok:
  assumes "invar db" and "mark_input T db e (denoting x) metas i = Ok metas'"
  shows "in_range (meta_at (entries T db) ++ map_of metas) i"
    "meta_at (entries T db) ++ map_of metas' = mark_all x [i] (meta_at (entries T db) ++ map_of metas)"
    "dom (map_of metas') = insert (op_hash (ti_previous_output i)) (dom (map_of metas))"
    "distinct (map fst metas) \<Longrightarrow> distinct (map fst metas')"
proof -
  let ?cur = "meta_at (entries T db) ++ map_of metas" and ?h = "op_hash (ti_previous_output i)"
    and ?i = "unat (op_index (ti_previous_output i))"
  obtain meta where meta: "?cur ?h = Some meta" "Suc ?i < length (tm_bits meta)"
      "metas' = AList.update ?h (meta\<lparr>tm_bits := (tm_bits meta)[Suc ?i := x]\<rparr>) metas"
    using assms by (auto simp: mark_input_def denoting_eq Let_def map_add_def split: option.splits if_splits)
  then show "in_range ?cur i" by (simp add: in_range_def)
  show "meta_at (entries T db) ++ map_of metas' = mark_all x [i] ?cur"
    using mark_all_Cons [of ?cur i meta x] meta(1) by (simp add: meta(3) update_conv')
  show "dom (map_of metas') = insert ?h (dom (map_of metas))" by (simp add: meta(3) update_conv')
  show "distinct (map fst metas) \<Longrightarrow> distinct (map fst metas')" by (simp add: meta(3) distinct_update)
qed

lemma mark_input_total:
  assumes "invar db" and "in_range (meta_at (entries T db) ++ map_of metas) i"
  shows "\<exists>metas'. mark_input T db e (denoting x) metas i = Ok metas'"
  using assms by (auto simp: mark_input_def denoting_eq Let_def in_range_def map_add_def split: option.splits)

lemma mark_inputs_Ok:
  assumes "invar db" and "mark_inputs T db e (denoting x) metas is = Ok metas'"
  shows "list_all (in_range (meta_at (entries T db) ++ map_of metas)) is
    \<and> meta_at (entries T db) ++ map_of metas' = mark_all x is (meta_at (entries T db) ++ map_of metas)
    \<and> dom (map_of metas') = (op_hash \<circ> ti_previous_output) ` set is \<union> dom (map_of metas)
    \<and> (distinct (map fst metas) \<longrightarrow> distinct (map fst metas'))"
  using assms(2)
proof (induction "is" arbitrary: metas)
  case (Cons i "is")
  then obtain metas1 where step: "mark_input T db e (denoting x) metas i = Ok metas1"
      "mark_inputs T db e (denoting x) metas1 is = Ok metas'" by auto
  note one = mark_input_Ok [OF assms(1) step(1)] and rest = Cons.IH [OF step(2)]
  show ?case using one rest mark_all_append [of x "[i]" "is"] by auto
qed simp

lemma mark_inputs_total:
  assumes "invar db" and "list_all (in_range (meta_at (entries T db) ++ map_of metas)) is"
  shows "\<exists>metas'. mark_inputs T db e (denoting x) metas is = Ok metas'"
  using assms(2)
proof (induction "is" arbitrary: metas)
  case (Cons i "is")
  then obtain metas1 where step: "mark_input T db e (denoting x) metas i = Ok metas1"
    using mark_input_total [OF assms(1), of metas i e x] by auto
  then show ?case using Cons mark_input_Ok(2) [OF assms(1) step] by simp
qed simp

end


section \<open>The index entries of a block\<close>

abbreviation inputs_of :: "indexed_transaction list \<Rightarrow> transaction_input list" where
  "inputs_of txs \<equiv> concat (map (\<lambda>tx. tx_inputs (it_raw tx)) txs)"

abbreviation spent_hashes :: "indexed_transaction list \<Rightarrow> bytes set" where
  "spent_hashes txs \<equiv> (op_hash \<circ> ti_previous_output) ` set (inputs_of txs)"

lemma in_range_upd: "in_range cur i \<Longrightarrow> h \<notin> dom cur \<Longrightarrow> in_range (cur(h \<mapsto> meta)) i"
  by (auto simp: in_range_def)

lemma mark_all_cong: "cur p = cur' p \<Longrightarrow> mark_all x is cur p = mark_all x is cur' p"
  by (simp add: mark_all_def)

lemma mark_inputs_append:
  "mark_inputs T db e denote metas (is @ js)
     = and_then (mark_inputs T db e denote metas is) (\<lambda>metas. mark_inputs T db e denote metas js)"
  by (induction "is" arbitrary: metas) (simp_all add: and_then_assoc)

lemma decanonize_transactions_eq:
  "decanonize_transactions T db metas txs = mark_inputs T db CannotDecanonize (denoting False) metas (inputs_of txs)"
  by (induction txs arbitrary: metas) (simp_all add: mark_inputs_append)

context key_value_database
begin

abbreviation current :: "'db \<Rightarrow> modified_meta \<Rightarrow> meta_map" where
  "current db metas \<equiv> meta_at (entries T db) ++ map_of metas"

lemma canonize_transactions_Ok:
  assumes "invar db" and "canonize_transactions T db number metas txs = Ok metas'"
    and "distinct (map it_hash txs)" and "it_hash ` set txs \<inter> dom (current db metas) = {}"
  shows "list_all (in_range (current db metas')) (inputs_of txs)
    \<and> (\<forall>i. in_range (current db metas) i \<longrightarrow> in_range (current db metas') i)
    \<and> (\<forall>p. p \<notin> it_hash ` set txs \<longrightarrow> current db metas' p = mark_all True (inputs_of txs) (current db metas) p)
    \<and> dom (map_of metas') = dom (map_of metas) \<union> it_hash ` set txs \<union> spent_hashes txs
    \<and> (distinct (map fst metas) \<longrightarrow> distinct (map fst metas'))"
  using assms(2-4)
proof (induction txs arbitrary: metas)
  case (Cons tx txs)
  let ?new = "meta_new number (length (tx_outputs (it_raw tx)))" and ?is = "tx_inputs (it_raw tx)"
  let ?metas1 = "AList.update (it_hash tx) ?new metas"
  obtain metas2 where step: "mark_inputs T db CannotCanonize (denoting True) ?metas1 ?is = Ok metas2"
      "canonize_transactions T db number metas2 txs = Ok metas'"
    using Cons.prems(1) by auto
  have cur1: "current db ?metas1 = (current db metas)(it_hash tx \<mapsto> ?new)" by (simp add: update_conv')
  note marked = mark_inputs_Ok [OF assms(1) step(1), unfolded cur1]
  then have dom2: "dom (current db metas2) = insert (it_hash tx) (dom (current db metas))" by simp
  have fresh: "it_hash tx \<notin> dom (current db metas)" using Cons.prems(3) by auto
  have rest: "list_all (in_range (current db metas')) (inputs_of txs)"
      "\<And>i. in_range (current db metas2) i \<Longrightarrow> in_range (current db metas') i"
      "\<And>p. p \<notin> it_hash ` set txs \<Longrightarrow> current db metas' p = mark_all True (inputs_of txs) (current db metas2) p"
      "dom (map_of metas') = dom (map_of metas2) \<union> it_hash ` set txs \<union> spent_hashes txs"
      "distinct (map fst metas2) \<Longrightarrow> distinct (map fst metas')"
    using Cons.IH [OF step(2)] Cons.prems(2,3) dom2 by auto
  have keep: "in_range (current db metas) i \<Longrightarrow> in_range (current db metas') i" for i
    using in_range_upd [OF _ fresh] marked rest(2) by simp
  have inputs: "list_all (in_range (current db metas')) ?is" using marked rest(2) by (simp add: list_all_iff)
  have outside: "current db metas' p = mark_all True (inputs_of (tx # txs)) (current db metas) p"
    if "p \<notin> it_hash ` set (tx # txs)" for p
    using that rest(3) [of p] marked mark_all_cong [of "(current db metas)(it_hash tx \<mapsto> ?new)" p "current db metas" True "inputs_of (tx # txs)"]
    by (simp add: mark_all_append)
  show ?case
    using keep inputs outside rest(1,4,5) marked by (auto simp: update_conv' distinct_update image_Un)
qed simp

end

lemma meta_operations_apply:
  "distinct (map fst metas) \<Longrightarrow>
   apply_operations (meta_operations metas) m (KeyTransactionMeta h)
     = (case map_of metas h of Some meta \<Rightarrow> Some (ValueTransactionMeta meta) | None \<Rightarrow> m (KeyTransactionMeta h))"
proof (induction metas arbitrary: m)
  case (Cons e metas)
  show ?case
  proof (cases "h = fst e")
    case True
    then have "KeyTransactionMeta h \<notin> operation_key ` set (meta_operations metas)"
      using Cons.prems by (auto simp: image_iff split: prod.splits)
    then show ?thesis using True by (cases e) (simp add: apply_operations_other apply_operation_apply)
  next
    case False
    then show ?thesis using Cons by (cases e) (simp add: apply_operation_apply split: option.split)
  qed
qed simp

lemma deleted_metas:
  "apply_operations (map (\<lambda>tx. Delete (KeyTransactionMeta (it_hash tx))) txs) m (KeyTransactionMeta h)
     = (if h \<in> it_hash ` set txs then None else m (KeyTransactionMeta h))"
  by (induction txs arbitrary: m) (auto simp: apply_operation_apply)

lemma txs_at_cong:
  "(\<And>h. m (KeyTransaction h) = m' (KeyTransaction h)) \<Longrightarrow> m (KeyBlockTransactions hash) = m' (KeyBlockTransactions hash) \<Longrightarrow>
   txs_at m hash = txs_at m' hash"
  by (simp add: txs_at_def tx_at_def [abs_def] hashes_at_def)

context key_value_database
begin

lemma canonize_metas_Ok:
  assumes "invar db" and "canonize_metas T db number txs = Ok metas"
    and "distinct (map it_hash txs)" and "\<forall>tx\<in>set txs. meta_at (entries T db) (it_hash tx) = None"
  shows "list_all (in_range (current db metas)) (inputs_of (drop 1 txs))
    \<and> (\<forall>p. p \<notin> it_hash ` set txs \<longrightarrow> current db metas p = mark_all True (inputs_of (drop 1 txs)) (meta_at (entries T db)) p)
    \<and> dom (map_of metas) = it_hash ` set txs \<union> spent_hashes (drop 1 txs) \<and> distinct (map fst metas)"
proof (cases txs)
  case Nil
  then show ?thesis using assms(2) by (simp add: canonize_metas_def)
next
  case (Cons tx txs')
  then obtain meta where c: "canonize_transactions T db number [(it_hash tx, meta)] txs' = Ok metas"
    using assms(2) by (auto simp: canonize_metas_def)
  have start: "current db [(it_hash tx, meta)] = (meta_at (entries T db))(it_hash tx \<mapsto> meta)" by simp
  have "it_hash ` set txs' \<inter> dom (current db [(it_hash tx, meta)]) = {}"
    unfolding start using assms(3,4) Cons by force
  from canonize_transactions_Ok [OF assms(1) c _ this] show ?thesis
    using assms(3) Cons mark_all_cong [of "(meta_at (entries T db))(it_hash tx \<mapsto> meta)" _ "meta_at (entries T db)" True "inputs_of txs'"]
    by (auto simp: start)
qed

text \<open>The database after \<open>canonize\<close>: the block is unchanged, and the index entries are the modified ones.\<close>

lemma canonize_effect:
  assumes "invar (cd_db cd)" and "chain_canonize T hash cd = (Ok (), cd')"
  obtains number metas where "canonize_metas T (cd_db cd) number (txs_at (entries T (cd_db cd)) hash) = Ok metas"
    "entries T (cd_db cd') = apply_operations ([Insert (KvBlockHash number hash), Insert (KvBlockNumber hash number)]
       @ best_block_operations (cd_best_block cd') @ meta_operations metas) (entries T (cd_db cd))"
    "cd_best_block cd' = \<lparr> bb_number = number, bb_hash = hash \<rparr>" "invar (cd_db cd')"
proof -
  obtain ops best where u: "canonize_update T hash cd = Ok (ops, best, ())" "cd_best_block cd' = best" "invar (cd_db cd')"
      "entries T (cd_db cd') = apply_operations ops (entries T (cd_db cd))"
    using commit_Ok [OF assms(1) assms(2) [unfolded chain_canonize_def]] by metis
  from canonize_update_Ok [OF assms(1) u(1)] show ?thesis using that u by metis
qed

lemma decanonize_total:
  assumes "invar (cd_db cd)" and "block_at (entries T (cd_db cd)) (bb_hash (cd_best_block cd)) = Some b"
    and "0 < bb_number (cd_best_block cd) \<or> is_zero_hash (bh_previous_header_hash (ih_raw (ib_header b)))"
    and "decanonize_transactions T (cd_db cd) [] (drop 1 (ib_transactions b)) = Ok metas"
    and "\<And>ops. \<exists>db. kv_write T ops (cd_db cd) = (Ok (), db)"
  obtains cd' where "chain_decanonize T cd = (Ok (bb_hash (cd_best_block cd)), cd')"
    "entries T (cd_db cd') = apply_operations ([Delete (KeyBlockHash (bb_number (cd_best_block cd))),
        Delete (KeyBlockNumber (bb_hash (cd_best_block cd)))] @ best_block_operations (cd_best_block cd')
        @ meta_operations metas @ map (\<lambda>tx. Delete (KeyTransactionMeta (it_hash tx))) (ib_transactions b)) (entries T (cd_db cd))"
proof -
  obtain n where n: "(if 0 < bb_number (cd_best_block cd) then Ok (bb_number (cd_best_block cd) - 1)
      else if is_zero_hash (bh_previous_header_hash (ih_raw (ib_header b))) then Ok 0 else Panic) = (Ok n :: (db_error, u32) outcome)"
    using assms(3) by (cases "0 < bb_number (cd_best_block cd)") auto
  obtain ops best where u: "decanonize_update T cd = Ok (ops, best, bb_hash (cd_best_block cd))"
      "ops = [Delete (KeyBlockHash (bb_number (cd_best_block cd))), Delete (KeyBlockNumber (bb_hash (cd_best_block cd)))]
        @ best_block_operations best @ meta_operations metas @ map (\<lambda>tx. Delete (KeyTransactionMeta (it_hash tx))) (ib_transactions b)"
    using assms(1,2,4) n by (simp add: decanonize_update_def Let_def del: and_then_eq_Ok)
  moreover obtain db where db: "kv_write T ops (cd_db cd) = (Ok (), db)" using assms(5) by blast
  ultimately have "chain_decanonize T cd = (Ok (bb_hash (cd_best_block cd)), \<lparr> cd_best_block = best, cd_db = db \<rparr>)"
    by (simp add: chain_decanonize_def commit_def)
  then show ?thesis using that write_Ok [OF assms(1) db] u(2) by simp
qed

end


section \<open>Taking a block off undoes adding it\<close>

lemma metas_undone:
  assumes "distinct (map fst metas)" "distinct (map fst metas')"
    and "meta_at m ++ map_of metas = meta_at m'" "meta_at m' ++ map_of metas' = mark_all False is (meta_at m')"
    and "dom (map_of metas) = H \<union> S" "dom (map_of metas') = S" "p \<notin> H"
    and "(meta_at m ++ map_of metas) p = mark_all True is (meta_at m) p"
    and "\<And>meta. meta_at m p = Some meta \<Longrightarrow> set_bits False (used_indexes p is) (set_bits True (used_indexes p is) meta) = meta"
  shows "(case map_of metas' p of Some meta \<Rightarrow> Some (ValueTransactionMeta meta)
      | None \<Rightarrow> (case map_of metas p of Some meta \<Rightarrow> Some (ValueTransactionMeta meta) | None \<Rightarrow> m (KeyTransactionMeta p)))
     = m (KeyTransactionMeta p)"
proof (cases "p \<in> S")
  case False
  then have "map_of metas p = None" "map_of metas' p = None" using assms(5-7) by blast+
  then show ?thesis by simp
next
  case True
  then obtain meta2 where two: "map_of metas' p = Some meta2" using assms(6) by blast
  then have "mark_all False is (meta_at m') p = Some meta2" using assms(4) by (metis map_add_SomeD map_add_Some_iff)
  moreover have "meta_at m' p = mark_all True is (meta_at m) p" using assms(3,8) by simp
  ultimately obtain meta where "meta_at m p = Some meta" "meta2 = set_bits False (used_indexes p is) (set_bits True (used_indexes p is) meta)"
    by (auto simp: mark_all_def)
  then have "meta_at m p = Some meta2" using assms(9) by simp
  then have "m (KeyTransactionMeta p) = Some (ValueTransactionMeta meta2)"
    by (auto simp: meta_at_def bind_eq_Some_conv elim!: as_transaction_meta.elims)
  then show ?thesis using two by simp
qed

lemma canonized_block:
  assumes "canon_chain m' best (hs @ [hash])"
    and "m' = apply_operations ([Insert (KvBlockHash number hash), Insert (KvBlockNumber hash number)]
         @ best_block_operations best @ meta_operations metas) m"
    and "best = \<lparr> bb_number = number, bb_hash = hash \<rparr>"
  shows "\<exists>b. block_at m' hash = Some b \<and> ib_transactions b = txs_at m hash
    \<and> (0 < number \<or> is_zero_hash (bh_previous_header_hash (ih_raw (ib_header b))))"
proof -
  note c = canon_chainD [OF assms(1)]
  obtain header where h: "header_at m' hash = Some header"
      "bh_previous_header_hash header = (if hs = [] then zero_hash else hs ! (length hs - 1))"
    using c(3) [unfolded linked_def, rule_format, of "length hs"] by (auto simp: nth_append)
  have "txs_at m' hash = txs_at m hash"
    by (rule txs_at_cong) (simp_all add: assms(2) updates_other)
  moreover have "0 < number" if "hs \<noteq> []"
  proof -
    have "unat number = length hs"
      using c(1,7) assms(3) unat_word_of_nat_eq [of "length hs", OF _ refl] by (simp add: best_of_def)
    then show ?thesis using that by (simp add: word_less_nat_alt)
  qed
  ultimately show ?thesis using h by (auto simp: block_at_def)
qed

text \<open>The number and the hash of the block were not in use before.\<close>

lemma number_fresh:
  assumes "canon_chain m best hs" and "canon_chain m' best' (hs @ [hash])" and "best' = \<lparr> bb_number = number, bb_hash = hash \<rparr>"
  shows "m (KeyBlockHash number) = None" "m (KeyBlockNumber hash) = None"
proof -
  note c = canon_chainD [OF assms(1)] and c' = canon_chainD [OF assms(2)]
  have "unat number = length hs"
    using c'(1,7) assms(3) unat_word_of_nat_eq [of "length hs", OF _ refl] by (simp add: best_of_def)
  then show "m (KeyBlockHash number) = None" by (simp add: c(8))
  show "m (KeyBlockNumber hash) = None" using c'(4) by (intro c(10)) simp
qed

lemma unspent_indexes:
  assumes "key_value_database T invar" and "invar db"
    and "\<forall>i\<in>set is. chain_is_spent T db (ti_previous_output i) = (Ok False :: (db_error, bool) outcome)"
    and "meta_at (entries T db) p = Some meta"
  shows "list_all (\<lambda>i. Suc i < length (tm_bits meta) \<longrightarrow> \<not> tm_bits meta ! Suc i) (used_indexes p is)"
proof -
  have "\<not> tm_bits meta ! Suc k" if "i \<in> set is" "op_hash (ti_previous_output i) = p"
      "k = unat (op_index (ti_previous_output i))" "Suc k < length (tm_bits meta)" for i k
    using assms(3) [rule_format, OF that(1)] that(2-4) assms(4)
    by (simp add: chain_is_spent_def key_value_database.chain_transaction_meta_eq [OF assms(1,2)] meta_is_spent_def)
  then show ?thesis by (auto simp: list_all_iff used_indexes_def)
qed

text \<open>The entries after adding a block and taking it off again.\<close>

lemma decanonize_after_canonize:
  assumes db: "reliable_database T invar" and invar: "invar (cd_db cd)"
    and canon: "canon_chain (entries T (cd_db cd)) (cd_best_block cd) hs"
    and hash: "length hash = 32" "hash \<noteq> zero_hash" and ok: "chain_canonize T hash cd = (Ok (), cd')"
    and txs: "txs_at (entries T (cd_db cd)) hash = txs" "distinct (map it_hash txs)"
    and fresh: "\<forall>tx\<in>set txs. entries T (cd_db cd) (KeyTransactionMeta (it_hash tx)) = None"
  obtains number metas metas' cd'' where
    "canonize_metas T (cd_db cd) number txs = Ok metas"
    "entries T (cd_db cd') = apply_operations ([Insert (KvBlockHash number hash), Insert (KvBlockNumber hash number)]
       @ best_block_operations (cd_best_block cd') @ meta_operations metas) (entries T (cd_db cd))"
    "cd_best_block cd' = \<lparr> bb_number = number, bb_hash = hash \<rparr>" "invar (cd_db cd')"
    "canon_chain (entries T (cd_db cd')) (cd_best_block cd') (hs @ [hash])"
    "meta_at (entries T (cd_db cd')) = meta_at (entries T (cd_db cd)) ++ map_of metas"
    "decanonize_transactions T (cd_db cd') [] (drop 1 txs) = Ok metas'"
    "chain_decanonize T cd' = (Ok hash, cd'')"
    "entries T (cd_db cd'') = apply_operations ([Delete (KeyBlockHash number), Delete (KeyBlockNumber hash)]
       @ best_block_operations (cd_best_block cd'') @ meta_operations metas' @ map (\<lambda>tx. Delete (KeyTransactionMeta (it_hash tx))) txs)
       (entries T (cd_db cd'))"
    "cd_best_block cd'' = cd_best_block cd"
proof -
  note kv = reliable_database.axioms(1) [OF db]
  let ?m = "entries T (cd_db cd)" and ?m' = "entries T (cd_db cd')" and ?is = "inputs_of (drop 1 txs)"
  have fresh': "\<forall>tx\<in>set txs. meta_at ?m (it_hash tx) = None" using fresh by (simp add: meta_at_def)
  obtain number metas where c: "canonize_metas T (cd_db cd) number txs = Ok metas"
      "?m' = apply_operations ([Insert (KvBlockHash number hash), Insert (KvBlockNumber hash number)]
         @ best_block_operations (cd_best_block cd') @ meta_operations metas) ?m"
      "cd_best_block cd' = \<lparr> bb_number = number, bb_hash = hash \<rparr>" "invar (cd_db cd')"
    using key_value_database.canonize_effect [OF kv invar ok] unfolding txs(1) by metis
  note added = key_value_database.canonize_metas_Ok [OF kv invar c(1) txs(2) fresh']
  have m'_meta: "?m' (KeyTransactionMeta h) = (case map_of metas h of Some meta \<Rightarrow> Some (ValueTransactionMeta meta)
      | None \<Rightarrow> ?m (KeyTransactionMeta h))" for h
    unfolding c(2) using added by (simp add: updates_other meta_operations_apply split: option.split)
  then have cur: "meta_at ?m' = meta_at ?m ++ map_of metas"
    by (auto simp: fun_eq_iff meta_at_def map_add_def split: option.split)
  obtain metas' where d: "decanonize_transactions T (cd_db cd') [] (drop 1 txs) = Ok metas'"
    using key_value_database.mark_inputs_total [OF kv c(4), of "[]" ?is CannotDecanonize False] added
    by (auto simp: decanonize_transactions_eq cur)
  note removed = key_value_database.mark_inputs_Ok [OF kv c(4) d [unfolded decanonize_transactions_eq]]
  have canon': "canon_chain ?m' (cd_best_block cd') (hs @ [hash])"
    using key_value_database.canonize_appends [OF kv invar canon hash ok] by blast
  note block = canonized_block [OF canon' c(2,3)]
  obtain b where b: "block_at ?m' hash = Some b" "ib_transactions b = txs"
      "0 < number \<or> is_zero_hash (bh_previous_header_hash (ih_raw (ib_header b)))"
    using block txs(1) by blast
  obtain cd'' where e: "chain_decanonize T cd' = (Ok hash, cd'')"
      "entries T (cd_db cd'') = apply_operations ([Delete (KeyBlockHash number), Delete (KeyBlockNumber hash)]
        @ best_block_operations (cd_best_block cd'') @ meta_operations metas' @ map (\<lambda>tx. Delete (KeyTransactionMeta (it_hash tx))) txs) ?m'"
    using key_value_database.decanonize_total [OF kv c(4), of b metas'] b d c(3) reliable_database.write_total [OF db c(4)]
    by (metis best_block.select_convs)
  have "cd_best_block cd'' = cd_best_block cd"
    using key_value_database.decanonize_drops_last [OF kv c(4) canon' e(1)] canon_chainD(1) [OF canon] canon_chainD(1) by metis
  with that c canon' cur d e show ?thesis by blast
qed

text \<open>
  C6. Taking the best block off the chain undoes adding it.  If \<open>canonize\<close> added a block whose
  transactions are new to the chain and spend outputs that were unspent, then \<open>decanonize\<close> succeeds
  with the hash of that block and restores the best block and every entry of the database other than
  the recorded best block, the spent bits of all index entries included.
\<close>

theorem decanonize_undoes_canonize:
  assumes db: "reliable_database T invar" and invar: "invar (cd_db cd)"
    and canon: "canon_chain (entries T (cd_db cd)) (cd_best_block cd) hs"
    and hash: "length hash = 32" "hash \<noteq> zero_hash" and ok: "chain_canonize T hash cd = (Ok (), cd')"
    and txs: "txs_at (entries T (cd_db cd)) hash = txs" "distinct (map it_hash txs)"
    and fresh: "\<forall>tx\<in>set txs. entries T (cd_db cd) (KeyTransactionMeta (it_hash tx)) = None"
    and unspent: "\<forall>i\<in>set (inputs_of (drop 1 txs)).
      chain_is_spent T (cd_db cd) (ti_previous_output i) = (Ok False :: (db_error, bool) outcome)"
  shows "\<exists>cd''. chain_decanonize T cd' = (Ok hash, cd'') \<and> cd_best_block cd'' = cd_best_block cd
    \<and> (\<forall>k. k \<notin> range KeyMeta \<longrightarrow> entries T (cd_db cd'') k = entries T (cd_db cd) k)"
proof -
  note kv = reliable_database.axioms(1) [OF db]
  let ?m = "entries T (cd_db cd)" and ?m' = "entries T (cd_db cd')" and ?is = "inputs_of (drop 1 txs)"
  obtain number metas metas' cd'' where r: "canonize_metas T (cd_db cd) number txs = Ok metas"
      "?m' = apply_operations ([Insert (KvBlockHash number hash), Insert (KvBlockNumber hash number)]
         @ best_block_operations (cd_best_block cd') @ meta_operations metas) ?m"
      "cd_best_block cd' = \<lparr> bb_number = number, bb_hash = hash \<rparr>" "invar (cd_db cd')"
      "canon_chain ?m' (cd_best_block cd') (hs @ [hash])" "meta_at ?m' = meta_at ?m ++ map_of metas"
      "decanonize_transactions T (cd_db cd') [] (drop 1 txs) = Ok metas'" "chain_decanonize T cd' = (Ok hash, cd'')"
      "entries T (cd_db cd'') = apply_operations ([Delete (KeyBlockHash number), Delete (KeyBlockNumber hash)]
        @ best_block_operations (cd_best_block cd'') @ meta_operations metas' @ map (\<lambda>tx. Delete (KeyTransactionMeta (it_hash tx))) txs) ?m'"
      "cd_best_block cd'' = cd_best_block cd"
    by (rule decanonize_after_canonize [OF db invar canon hash ok txs fresh])
  have "\<forall>tx\<in>set txs. meta_at ?m (it_hash tx) = None" using fresh by (simp add: meta_at_def)
  note added = key_value_database.canonize_metas_Ok [OF kv invar r(1) txs(2) this]
    and removed = key_value_database.mark_inputs_Ok [OF kv r(4) r(7) [unfolded decanonize_transactions_eq]]
  have m'_meta: "?m' (KeyTransactionMeta h) = (case map_of metas h of Some meta \<Rightarrow> Some (ValueTransactionMeta meta)
      | None \<Rightarrow> ?m (KeyTransactionMeta h))" for h
    unfolding r(2) using added by (simp add: updates_other meta_operations_apply split: option.split)
  have undone: "entries T (cd_db cd'') (KeyTransactionMeta p) = ?m (KeyTransactionMeta p)" for p
  proof (cases "p \<in> it_hash ` set txs")
    case True
    then show ?thesis using fresh by (auto simp: r(9) updates_other deleted_metas)
  next
    case False
    have "set_bits False (used_indexes p ?is) (set_bits True (used_indexes p ?is) meta) = meta" if meta: "meta_at ?m p = Some meta" for meta
      by (rule set_bits_undo) (rule unspent_indexes [OF kv invar unspent meta])
    then have "(case map_of metas' p of Some meta \<Rightarrow> Some (ValueTransactionMeta meta) | None \<Rightarrow> ?m' (KeyTransactionMeta p))
        = ?m (KeyTransactionMeta p)"
      unfolding m'_meta
      by (rule metas_undone [of metas metas' ?m ?m' ?is "it_hash ` set txs" "spent_hashes (drop 1 txs)", rotated -1])
        (use added removed r(6) False in auto)
    then show ?thesis using False removed by (cases "map_of metas' p") (simp_all add: r(9) updates_other deleted_metas meta_operations_apply)
  qed
  have "entries T (cd_db cd'') k = ?m k" if "k \<notin> range KeyMeta" for k
  proof (cases k)
    case (KeyTransactionMeta p)
    then show ?thesis using undone by simp
  qed (use that number_fresh [OF canon r(5) r(3)] in \<open>auto simp: r(9) r(2) updates_other\<close>)
  then show ?thesis using r(8,10) by blast
qed


section \<open>The main chain as a list\<close>

text \<open>
  C5. The database refines a list of block hashes: on a database that represents the main chain \<open>hs\<close>,
  a successful \<open>canonize\<close> represents \<open>hs\<close> with the block appended, and a successful \<open>decanonize\<close>
  returns the last block and represents \<open>hs\<close> without it.  Heights, hashes, headers and the recorded
  best block stay consistent with each other.
\<close>

theorem main_chain_refines_list:
  assumes "key_value_database T invar" and "invar (cd_db cd)"
    and "canon_chain (entries T (cd_db cd)) (cd_best_block cd) hs"
  shows "(length hash = 32 \<and> hash \<noteq> zero_hash \<and> chain_canonize T hash cd = (Ok (), cd') \<longrightarrow>
      canon_chain (entries T (cd_db cd')) (cd_best_block cd') (hs @ [hash]) \<and> invar (cd_db cd'))
    \<and> (hs \<noteq> [] \<and> chain_decanonize T cd = (Ok x, cd') \<longrightarrow>
      x = last hs \<and> canon_chain (entries T (cd_db cd')) (cd_best_block cd') (butlast hs) \<and> invar (cd_db cd'))"
proof (intro conjI impI; elim conjE)
  assume "hs \<noteq> []" "chain_decanonize T cd = (Ok x, cd')"
  then have "x = last hs \<and> canon_chain (entries T (cd_db cd')) (cd_best_block cd') (butlast hs) \<and> invar (cd_db cd')"
    using key_value_database.decanonize_drops_last [OF assms(1,2), of "butlast hs" "last hs"] assms(3) by simp
  then show "x = last hs" "canon_chain (entries T (cd_db cd')) (cd_best_block cd') (butlast hs)" "invar (cd_db cd')" by blast+
qed (use key_value_database.canonize_appends [OF assms] in blast)+

text \<open>
  C7. A reorganization replaces the tail of the main chain.  If the origin of a header is a side chain
  that becomes the main chain, and the fork that is built from it is switched to, then the database
  represents the old chain up to the common ancestor followed by the route of the side chain; the
  route connects the ancestor with the parent of the header, and with the block of the header on top
  the new chain is longer than the old one.
\<close>

theorem reorganization_replaces_tail:
  assumes kv: "key_value_database T invar" and invar: "invar (cd_db cd)"
    and canon: "canon_chain (entries T (cd_db cd)) (cd_best_block cd) hs" "hs \<noteq> []"
    and origin: "chain_block_origin T header cd = Ok (SideChainBecomingCanonChain origin)"
    and hashes: "list_all (\<lambda>h. length h = 32 \<and> h \<noteq> zero_hash) (sc_canonized_route origin)"
    and fork: "chain_fork T origin cd = Ok fork" and switch: "switch_to_fork T fork cd = (Ok (), cd')"
  shows "let k = unat (sc_ancestor origin); new = take (k + 1) hs @ sc_canonized_route origin in
      k < length hs \<and> canon_chain (entries T (cd_db cd')) (cd_best_block cd') new \<and> invar (cd_db cd')
      \<and> connected (entries T (cd_db cd)) (hs ! k) (sc_canonized_route origin) (bh_previous_header_hash (ih_raw header))
      \<and> length hs < length new + 1"
proof -
  let ?m = "entries T (cd_db cd)" and ?parent = "bh_previous_header_hash (ih_raw header)"
  have "origin_of T cd MAX_FORK_ROUTE_PRESET 0 [] ?parent = Ok (SideChainBecomingCanonChain origin)"
    using origin key_value_database.chain_contains_block_eq [OF kv invar] key_value_database.chain_block_hash_eq [OF kv invar]
    by (auto simp: chain_block_origin_def Let_def split: if_splits)
  from key_value_database.origin_of_Ok [OF kv invar canon _ _ _ _ this, of ?parent]
  have ok: "origin_ok ?m hs ?parent origin" and longer: "length hs < unat (sc_block_number origin) + 1"
    by (auto simp: connected_def MAX_FORK_ROUTE_PRESET_def split: if_splits)
  let ?k = "unat (sc_ancestor origin)"
  let ?new = "take (?k + 1) hs @ sc_canonized_route origin"
  have tail: "canon_chain (entries (overlay_database T) (cd_db fork)) (cd_best_block fork) ?new \<and> overlay_ok invar (cd_db fork)
      \<and> ov_db (cd_db fork) = cd_db cd"
    using key_value_database.fork_replaces_tail [OF kv invar canon(1) _ hashes fork, of "?k + 1"] ok by (simp add: origin_ok_def)
  then have "(cd_db fork)\<lparr>ov_db := cd_db cd\<rparr> = cd_db fork" by (cases "cd_db fork") simp
  then obtain o1 where flush: "overlay_flush T (cd_db fork) = (Ok (), o1)" "cd' = \<lparr> cd_best_block = cd_best_block fork, cd_db = ov_db o1 \<rparr>"
    using switch by (auto simp: switch_to_fork_def split: prod.splits)
  have "canon_chain (entries T (cd_db cd')) (cd_best_block cd') ?new \<and> invar (cd_db cd')"
    using key_value_database.overlay_flush_Ok [OF kv _ flush(1)] tail invar by (simp add: flush(2) overlay_ok_def)
  moreover have "length ?new = unat (sc_block_number origin)" "?k < length hs"
      "connected ?m (hs ! ?k) (sc_canonized_route origin) ?parent"
    using ok by (simp_all add: origin_ok_def)
  ultimately show ?thesis using longer unfolding Let_def by simp
qed


section \<open>Examples\<close>

text \<open>
  A database with the main chain of the block \<open>1\<close>, its child \<open>2\<close> with a coinbase and a transaction
  that spends the output of the first coinbase, and two more children of \<open>1\<close>: \<open>3\<close>, in which a
  transaction comes before the one it spends, and \<open>4\<close> without transactions.
\<close>

abbreviation numbered :: "u8 \<Rightarrow> bytes" where
  "numbered n \<equiv> replicate 32 n"

definition header_after :: "bytes \<Rightarrow> block_header" where
  "header_after previous =
     \<lparr> bh_version = 1, bh_previous_header_hash = previous, bh_merkle_root_hash = zero_hash, bh_time = 0, bh_bits = 0, bh_nonce = 0 \<rparr>"

definition spender_of :: "bytes list \<Rightarrow> transaction" where
  "spender_of hashes =
     \<lparr> tx_version = 1,
       tx_inputs = map (\<lambda>h. \<lparr> ti_previous_output = \<lparr> op_hash = h, op_index = 0 \<rparr>, ti_script_sig = [], ti_sequence = 0, ti_script_witness = [] \<rparr>) hashes,
       tx_outputs = [\<lparr> to_value = 5, to_script_pubkey = [] \<rparr>], tx_lock_time = 0 \<rparr>"

definition sample_chain :: memory_db where
  "sample_chain =
     memory_default\<lparr>
       db_meta := [(KEY_BEST_BLOCK_HASH, StateInsert (numbered 1)), (KEY_BEST_BLOCK_NUMBER, StateInsert (serialize_u32 0))],
       db_block_hash := [(0, StateInsert (numbered 1))],
       db_block_number := [(numbered 1, StateInsert 0)],
       db_block_header := [(numbered 1, StateInsert (header_after zero_hash)), (numbered 2, StateInsert (header_after (numbered 1))),
         (numbered 3, StateInsert (header_after (numbered 1))), (numbered 4, StateInsert (header_after (numbered 1)))],
       db_block_transactions := [(numbered 1, StateInsert [numbered 11]), (numbered 2, StateInsert [numbered 12, numbered 13]),
         (numbered 3, StateInsert [numbered 14, numbered 15, numbered 16])],
       db_transaction := [(numbered 11, StateInsert (spender_of [])), (numbered 12, StateInsert (spender_of [])),
         (numbered 13, StateInsert (spender_of [numbered 11])), (numbered 14, StateInsert (spender_of [])),
         (numbered 15, StateInsert (spender_of [numbered 16])), (numbered 16, StateInsert (spender_of [numbered 11]))],
       db_transaction_meta := [(numbered 11, StateInsert \<lparr> tm_block_height = 0, tm_bits = [True, False] \<rparr>)]\<rparr>"

definition sample_db :: "memory_db chain_db" where
  "sample_db = \<lparr> cd_best_block = \<lparr> bb_number = 0, bb_hash = numbered 1 \<rparr>, cd_db = sample_chain \<rparr>"

lemma sample_chain_ok: "memory_ok sample_chain"
  by (simp add: memory_ok_def sample_chain_def memory_default_def KEY_BEST_BLOCK_HASH_def KEY_BEST_BLOCK_NUMBER_def)

lemmas sample_entry = entries_memory layered_def sample_chain_def memory_default_def column_get_def

lemma sample_db_canon: "canon_chain (entries memory_database (cd_db sample_db)) (cd_best_block sample_db) [numbered 1]"
  by (auto simp: canon_chain_def sample_db_def sample_entry best_of_def best_recorded_def linked_def header_at_def header_after_def
      KEY_BEST_BLOCK_HASH_def KEY_BEST_BLOCK_NUMBER_def unat_eq_0)

lemma sample_txs:
  "txs_at (entries memory_database sample_chain) (numbered 2)
     = [\<lparr> it_hash = numbered 12, it_raw = spender_of [] \<rparr>, \<lparr> it_hash = numbered 13, it_raw = spender_of [numbered 11] \<rparr>]"
  "txs_at (entries memory_database sample_chain) (numbered 3)
     = [\<lparr> it_hash = numbered 14, it_raw = spender_of [] \<rparr>, \<lparr> it_hash = numbered 15, it_raw = spender_of [numbered 16] \<rparr>,
        \<lparr> it_hash = numbered 16, it_raw = spender_of [numbered 11] \<rparr>]"
  by (simp_all add: txs_at_def hashes_at_def tx_at_def sample_entry List.map_filter_def)

lemma sample_header_at:
  "header_at (entries memory_database sample_chain) (numbered 2) = Some (header_after (numbered 1))"
  "header_at (entries memory_database sample_chain) (numbered 3) = Some (header_after (numbered 1))"
  "header_at (entries memory_database sample_chain) (numbered 4) = Some (header_after (numbered 1))"
  by (simp_all add: header_at_def sample_entry)

lemma sample_meta_entry:
  "entries memory_database sample_chain (KeyTransactionMeta h)
     = (if h = numbered 11 then Some (ValueTransactionMeta \<lparr> tm_block_height = 0, tm_bits = [True, False] \<rparr>) else None)"
  by (simp add: sample_entry)

lemma sample_meta:
  "meta_at (entries memory_database sample_chain) h
     = (if h = numbered 11 then Some \<lparr> tm_block_height = 0, tm_bits = [True, False] \<rparr> else None)"
  by (simp add: meta_at_def sample_meta_entry)

lemma sample_canonize: "\<exists>cd. chain_canonize memory_database (numbered 2) sample_db = (Ok (), cd)"
proof -
  have "\<exists>metas. canonize_metas memory_database sample_chain 1 (txs_at (entries memory_database sample_chain) (numbered 2)) = Ok metas"
    by (simp add: sample_txs canonize_metas_def spender_of_def mark_input_def sample_chain_ok sample_meta
        denote_used_def bit_vec_set_def meta_new_coinbase_def meta_new_def)
  moreover have "u32_add 0 1 = (Ok 1 :: (db_error, u32) outcome)" "\<not> is_zero_hash (numbered 1)"
    by (simp_all add: u32_add_def is_zero_hash_iff)
  ultimately have "\<exists>ops best. canonize_update memory_database (numbered 2) sample_db = Ok (ops, best, ())"
    by (auto simp: canonize_update_def sample_db_def sample_chain_ok block_at_def sample_header_at header_after_def Let_def)
  then show ?thesis
    by (auto simp: chain_canonize_def commit_def memory_database_def memory_write_def)
qed

theorem decanonize_undoes_canonize_witness:
  "\<exists>cd cd'. chain_canonize memory_database (numbered 2) sample_db = (Ok (), cd)
     \<and> chain_decanonize memory_database cd = (Ok (numbered 2), cd') \<and> cd_best_block cd' = cd_best_block sample_db
     \<and> entries memory_database (cd_db cd') (KeyTransactionMeta (numbered 11))
         = Some (ValueTransactionMeta \<lparr> tm_block_height = 0, tm_bits = [True, False] \<rparr>)"
proof -
  obtain cd where cd: "chain_canonize memory_database (numbered 2) sample_db = (Ok (), cd)" using sample_canonize by blast
  have db: "cd_db sample_db = sample_chain" by (simp add: sample_db_def)
  have "\<exists>cd'. chain_decanonize memory_database cd = (Ok (numbered 2), cd') \<and> cd_best_block cd' = cd_best_block sample_db
      \<and> (\<forall>k. k \<notin> range KeyMeta \<longrightarrow> entries memory_database (cd_db cd') k = entries memory_database (cd_db sample_db) k)"
  proof (rule decanonize_undoes_canonize [OF memory.reliable_database_axioms _ sample_db_canon _ _ cd refl])
    show "\<forall>i\<in>set (inputs_of (drop 1 (txs_at (entries memory_database (cd_db sample_db)) (numbered 2)))).
        chain_is_spent memory_database (cd_db sample_db) (ti_previous_output i) = (Ok False :: (db_error, bool) outcome)"
      by (simp add: db sample_txs spender_of_def chain_is_spent_def sample_chain_ok sample_meta meta_is_spent_def)
  qed (simp_all add: db sample_chain_ok sample_txs sample_meta_entry)
  then obtain cd' where cd': "chain_decanonize memory_database cd = (Ok (numbered 2), cd')" "cd_best_block cd' = cd_best_block sample_db"
      "\<And>k. k \<notin> range KeyMeta \<Longrightarrow> entries memory_database (cd_db cd') k = entries memory_database sample_chain k"
    unfolding db by blast
  have "KeyTransactionMeta h \<notin> range KeyMeta" for h by blast
  from cd'(3) [OF this, of "numbered 11"] show ?thesis using cd cd'(1,2) unfolding sample_meta_entry by auto
qed

theorem main_chain_refines_list_witness:
  "\<exists>cd. chain_canonize memory_database (numbered 2) sample_db = (Ok (), cd)
     \<and> canon_chain (entries memory_database (cd_db cd)) (cd_best_block cd) [numbered 1, numbered 2]"
proof -
  obtain cd where cd: "chain_canonize memory_database (numbered 2) sample_db = (Ok (), cd)" using sample_canonize by blast
  then show ?thesis
    using main_chain_refines_list [OF memory.key_value_database_axioms _ sample_db_canon, of "numbered 2" cd] sample_chain_ok
    by (auto simp: sample_db_def)
qed

lemma sample_origin:
  "chain_block_origin memory_database \<lparr> ih_hash = numbered 5, ih_raw = header_after (numbered 4) \<rparr> sample_db
     = Ok (SideChainBecomingCanonChain \<lparr> sc_ancestor = 0, sc_canonized_route = [numbered 4], sc_decanonized_route = [],
         sc_block_number = 2 \<rparr>)"
proof -
  have fuel: "MAX_FORK_ROUTE_PRESET = Suc (Suc 2046)" by (simp add: MAX_FORK_ROUTE_PRESET_def)
  have entry: "entries memory_database sample_chain (KeyBlockHash 0) = Some (ValueBlockHash (numbered 1))"
      "entries memory_database sample_chain (KeyBlockHeader (numbered 5)) = None"
      "entries memory_database sample_chain (KeyBlockHeader (numbered 4)) = Some (ValueBlockHeader (header_after (numbered 1)))"
      "entries memory_database sample_chain (KeyBlockNumber (numbered 4)) = None"
      "entries memory_database sample_chain (KeyBlockNumber (numbered 1)) = Some (ValueBlockNumber 0)"
    by (simp_all add: sample_entry)
  have adds: "u32_add 0 1 = (Ok 1 :: (db_error, u32) outcome)" "u32_add 1 1 = (Ok 2 :: (db_error, u32) outcome)"
    by (simp_all add: u32_add_def)
  have "origin_of memory_database sample_db (Suc (Suc k)) 0 [] (numbered 4)
      = Ok (SideChainBecomingCanonChain \<lparr> sc_ancestor = 0, sc_canonized_route = [numbered 4], sc_decanonized_route = [],
         sc_block_number = 2 \<rparr>)" for k
    by (simp add: sample_db_def sample_chain_ok entry header_after_def header_at_def adds)
  then have "origin_of memory_database sample_db MAX_FORK_ROUTE_PRESET 0 [] (numbered 4)
      = Ok (SideChainBecomingCanonChain \<lparr> sc_ancestor = 0, sc_canonized_route = [numbered 4], sc_decanonized_route = [],
         sc_block_number = 2 \<rparr>)" by (simp only: fuel)
  then show ?thesis
    by (simp add: chain_block_origin_def sample_db_def sample_chain_ok entry header_after_def)
qed

lemma sample_fork:
  "\<exists>fork. chain_fork memory_database \<lparr> sc_ancestor = 0, sc_canonized_route = [numbered 4], sc_decanonized_route = [], sc_block_number = 2 \<rparr>
     sample_db = Ok fork"
proof -
  let ?O = "overlay_database memory_database"
  have ok: "overlay_ok memory_ok (overlay_new sample_chain)" by (simp add: sample_chain_ok)
  have canon: "canon_chain (entries ?O (overlay_new sample_chain)) \<lparr> bb_number = 0, bb_hash = numbered 1 \<rparr> [numbered 1]"
    using sample_db_canon by (simp add: sample_db_def)
  have "txs_at (entries memory_database sample_chain) (numbered 4) = []"
    by (simp add: txs_at_def hashes_at_def sample_entry List.map_filter_def)
  then have "canonize_metas ?O (overlay_new sample_chain) 1 (txs_at (entries ?O (overlay_new sample_chain)) (numbered 4)) = Ok []"
    by (simp add: canonize_metas_def)
  moreover have "u32_add 0 1 = (Ok 1 :: (db_error, u32) outcome)" "\<not> is_zero_hash (numbered 1)"
    by (simp_all add: u32_add_def is_zero_hash_iff)
  ultimately have "\<exists>ops best. canonize_update ?O (numbered 4) \<lparr> cd_best_block = \<lparr> bb_number = 0, bb_hash = numbered 1 \<rparr>, cd_db = overlay_new sample_chain \<rparr>
      = Ok (ops, best, ())"
    using ok by (auto simp: canonize_update_def overlay_memory.chain_block_eq block_at_def sample_header_at header_after_def Let_def)
  then have "\<exists>fork. chain_canonize ?O (numbered 4) \<lparr> cd_best_block = \<lparr> bb_number = 0, bb_hash = numbered 1 \<rparr>, cd_db = overlay_new sample_chain \<rparr>
      = (Ok (), fork)"
    by (auto simp: chain_canonize_def commit_def overlay_database_def overlay_write_eq)
  then show ?thesis
    using overlay_memory.chain_open_best [OF ok canon, where 'a = db_error] by (auto simp: chain_fork_def sample_db_def)
qed

theorem reorganization_replaces_tail_witness:
  "\<exists>cd :: memory_db chain_db. canon_chain (entries memory_database (cd_db cd)) (cd_best_block cd) [numbered 1, numbered 4]"
proof -
  let ?header = "\<lparr> ih_hash = numbered 5, ih_raw = header_after (numbered 4) \<rparr>"
  obtain fork where fork: "chain_fork memory_database \<lparr> sc_ancestor = 0, sc_canonized_route = [numbered 4],
      sc_decanonized_route = [], sc_block_number = 2 \<rparr> sample_db = Ok fork"
    using sample_fork by blast
  obtain cd where cd: "switch_to_fork memory_database fork sample_db = (Ok (), cd)"
    by (auto simp: switch_to_fork_def overlay_flush_def memory_database_def memory_write_def drain_transaction_def)
  show ?thesis
    using reorganization_replaces_tail [OF memory.key_value_database_axioms _ sample_db_canon _ sample_origin _ fork cd] sample_chain_ok
    by (intro exI [of _ cd]) (simp add: sample_db_def)
qed


section \<open>Canonical transaction order\<close>

lemma find_distinct: "distinct (map f xs) \<Longrightarrow> x \<in> set xs \<Longrightarrow> find (\<lambda>y. f y = f x) xs = Some x"
  by (induction xs) auto

text \<open>
  C32. A block in canonical transaction order may have a transaction before the one it spends.  The
  verifier then finds the spent output in the block, since under that order it looks at the whole
  block, but \<open>canonize\<close> looks for the index entry of the spent transaction before it has made one: it
  refuses the block, which is valid, with \<open>CannotCanonize\<close>.
\<close>

theorem canonize_refuses_canonical_order:
  assumes "key_value_database T invar" and "invar (cd_db cd)"
    and "block_at (entries T (cd_db cd)) hash = Some b"
    and "bh_previous_header_hash (ih_raw (ib_header b)) = bb_hash (cd_best_block cd)"
    and "\<not> is_zero_hash (bb_hash (cd_best_block cd))" and "unat (bb_number (cd_best_block cd)) + 1 < 2 ^ 32"
    and "ib_transactions b = coinbase # spender # txs" and "tx_inputs (it_raw spender) = i # is"
    and "parent \<in> set txs" "it_hash parent = out_point.op_hash (ti_previous_output i)"
    and "unat (op_index (ti_previous_output i)) < length (tx_outputs (it_raw parent))"
    and "distinct (map it_hash (ib_transactions b))" and "length (ib_transactions b) \<le> usize_max"
    and "entries T (cd_db cd) (KeyTransactionMeta (it_hash parent)) = None"
  shows "transaction_output (block_outputs b) (ti_previous_output i) (transaction_index_for_output_check Canonical 1)
      = Some (tx_outputs (it_raw parent) ! unat (op_index (ti_previous_output i)))
    \<and> chain_canonize T hash cd = (Err CannotCanonize, cd)"
proof
  have "find (\<lambda>tx. it_hash tx = it_hash parent) (ib_transactions b) = Some parent"
    using assms(7,9,12) by (intro find_distinct) simp_all
  then show "transaction_output (block_outputs b) (ti_previous_output i) (transaction_index_for_output_check Canonical 1)
      = Some (tx_outputs (it_raw parent) ! unat (op_index (ti_previous_output i)))"
    using assms(10,11,13) by (simp add: block_outputs_def txs_output_def min_absorb2)
next
  have other: "it_hash coinbase \<noteq> it_hash parent" "it_hash spender \<noteq> it_hash parent"
    using assms(7,9,12) by force+
  have "meta_at (entries T (cd_db cd)) (it_hash parent) = None" using assms(14) by (simp add: meta_at_def)
  then have none: "chain_transaction_meta T (cd_db cd) (it_hash parent) = (Ok None :: (db_error, _) outcome)"
    by (simp add: key_value_database.chain_transaction_meta_eq [OF assms(1,2)])
  have "canonize_metas T (cd_db cd) number (ib_transactions b) = Err CannotCanonize" for number
  proof -
    obtain meta where "meta_new_coinbase number (length (tx_outputs (it_raw coinbase))) = (Ok meta :: (db_error, _) outcome)"
      by (simp add: meta_new_coinbase_def meta_new_def bit_vec_set_def)
    then show ?thesis
      using other none assms(10) by (simp add: canonize_metas_def assms(7,8) mark_input_def update_conv')
  qed
  moreover have "u32_add (bb_number (cd_best_block cd)) 1 = (Ok (bb_number (cd_best_block cd) + 1) :: (db_error, u32) outcome)"
    using assms(6) by (simp add: u32_add_def)
  ultimately have "canonize_update T hash cd = Err CannotCanonize"
    using assms(3-5) by (simp add: canonize_update_def Let_def key_value_database.chain_block_eq [OF assms(1,2)])
  then show "chain_canonize T hash cd = (Err CannotCanonize, cd)" by (simp add: chain_canonize_def commit_def)
qed

theorem canonize_refuses_canonical_order_witness:
  "chain_canonize memory_database (numbered 3) sample_db = (Err CannotCanonize, sample_db)"
proof -
  let ?b = "\<lparr> ib_header = \<lparr> ih_hash = numbered 3, ih_raw = header_after (numbered 1) \<rparr>,
    ib_transactions = txs_at (entries memory_database sample_chain) (numbered 3) \<rparr>"
  have block: "block_at (entries memory_database (cd_db sample_db)) (numbered 3) = Some ?b"
    by (simp add: block_at_def sample_db_def sample_header_at)
  have best: "cd_best_block sample_db = \<lparr> bb_number = 0, bb_hash = numbered 1 \<rparr>" "cd_db sample_db = sample_chain"
    by (simp_all add: sample_db_def)
  show ?thesis
    by (rule conjunct2, rule canonize_refuses_canonical_order [OF memory.key_value_database_axioms _ block,
        where parent = "\<lparr> it_hash = numbered 16, it_raw = spender_of [numbered 11] \<rparr>"])
      (simp_all add: best sample_chain_ok sample_txs header_after_def is_zero_hash_iff sample_meta_entry usize_max_def,
        simp_all add: spender_of_def, simp_all)
qed

end
