(* ===== verification/Hash_Queue.thy ===== *)
theory Hash_Queue
  imports Work "HOL-Library.AList"
begin

text \<open>
  The queues of block hashes of the synchronizer: \<open>sync/src/utils/hash_queue.rs\<close> (a queue with a set
  of its elements, and a chain of queues) and \<open>sync/src/utils/best_headers_chain.rs\<close> (the headers of the
  blocks in memory).

  The contract of a queue is the locale \<open>distinct_queue\<close>: it is a list without repetitions, and the
  operations are those of lists.  \<open>HashSet\<close> is a set.
\<close>

section \<open>Queues\<close>

datatype hash_position = Missing | Front | Inside u32

record hash_queue =
  hq_queue :: "bytes list"
  hq_set :: "bytes set"

definition queue_new :: hash_queue where
  "queue_new = \<lparr> hq_queue = [], hq_set = {} \<rparr>"

definition queue_clear :: "hash_queue \<Rightarrow> hash_queue" where
  "queue_clear q = q\<lparr>hq_set := {}, hq_queue := []\<rparr>"

definition queue_len :: "hash_queue \<Rightarrow> u32" where
  "queue_len q = word_of_nat (length (hq_queue q))"

definition queue_front :: "hash_queue \<Rightarrow> bytes option" where
  "queue_front q = (case hq_queue q of [] \<Rightarrow> None | hash # _ \<Rightarrow> Some hash)"

definition queue_back :: "hash_queue \<Rightarrow> bytes option" where
  "queue_back q = (if hq_queue q = [] then None else Some (last (hq_queue q)))"

text \<open>The first index at or after \<open>i\<close>, the index of the head of the list.\<close>

fun find_index :: "'a \<Rightarrow> nat \<Rightarrow> 'a list \<Rightarrow> nat option" where
  "find_index x i [] = None"
| "find_index x i (y # ys) = (if x = y then Some i else find_index x (i + 1) ys)"

definition queue_position :: "hash_queue \<Rightarrow> bytes \<Rightarrow> u32 option" where
  "queue_position q hash = map_option word_of_nat (find_index hash 0 (hq_queue q))"

definition queue_at :: "hash_queue \<Rightarrow> u32 \<Rightarrow> bytes option" where
  "queue_at q position = (if unat position < length (hq_queue q) then Some (hq_queue q ! unat position) else None)"

definition queue_pre_back :: "hash_queue \<Rightarrow> bytes option" where
  "queue_pre_back q =
     (let queue_len = length (hq_queue q) in
      if queue_len \<le> 1 then None else Some (hq_queue q ! (queue_len - 2)))"

definition queue_contains :: "hash_queue \<Rightarrow> bytes \<Rightarrow> bool" where
  "queue_contains q hash \<longleftrightarrow> hash \<in> hq_set q"

definition queue_front_n :: "hash_queue \<Rightarrow> u32 \<Rightarrow> bytes list" where
  "queue_front_n q n = take (unat n) (hq_queue q)"

definition queue_pop_front :: "hash_queue \<Rightarrow> bytes option \<times> hash_queue" where
  "queue_pop_front q =
     (case hq_queue q of
        hash # rest \<Rightarrow> (Some hash, q\<lparr>hq_queue := rest, hq_set := hq_set q - {hash}\<rparr>)
      | [] \<Rightarrow> (None, q))"

text \<open>The loop \<open>for _ in 0..n\<close>.\<close>

fun pop_front_loop :: "nat \<Rightarrow> bytes list \<Rightarrow> hash_queue \<Rightarrow> bytes list \<times> hash_queue" where
  "pop_front_loop 0 result q = (result, q)"
| "pop_front_loop (Suc n) result q =
     (case queue_pop_front q of
        (Some hash, q) \<Rightarrow> pop_front_loop n (result @ [hash]) q
      | (None, q) \<Rightarrow> (result, q))"

definition queue_pop_front_n :: "u32 \<Rightarrow> hash_queue \<Rightarrow> bytes list \<times> hash_queue" where
  "queue_pop_front_n n q = pop_front_loop (unat n) [] q"

definition queue_pop_back :: "hash_queue \<Rightarrow> bytes option \<times> hash_queue" where
  "queue_pop_back q =
     (if hq_queue q = [] then (None, q)
      else let hash = last (hq_queue q) in
        (Some hash, q\<lparr>hq_queue := butlast (hq_queue q), hq_set := hq_set q - {hash}\<rparr>))"

definition queue_push_back :: "bytes \<Rightarrow> hash_queue \<Rightarrow> ('e, hash_queue) outcome" where
  "queue_push_back hash q =
     (if hash \<in> hq_set q then Panic
      else Ok (q\<lparr>hq_set := Set.insert hash (hq_set q), hq_queue := hq_queue q @ [hash]\<rparr>))"

fun queue_push_back_n :: "bytes list \<Rightarrow> hash_queue \<Rightarrow> ('e, hash_queue) outcome" where
  "queue_push_back_n [] q = Ok q"
| "queue_push_back_n (hash # hashes) q = and_then (queue_push_back hash q) (queue_push_back_n hashes)"

text \<open>Removing an element from a \<open>VecDeque\<close> by index.\<close>

definition remove_index :: "nat \<Rightarrow> 'a list \<Rightarrow> 'a list" where
  "remove_index i xs = take i xs @ drop (i + 1) xs"

definition queue_remove :: "bytes \<Rightarrow> hash_queue \<Rightarrow> ('e, hash_position \<times> hash_queue) outcome" where
  "queue_remove hash q =
     (if hash \<notin> hq_set q then Ok (Missing, q)
      else let q = q\<lparr>hq_set := hq_set q - {hash}\<rparr> in
        case queue_front q of
          None \<Rightarrow> Panic
        | Some front \<Rightarrow>
            if front = hash then Ok (Front, q\<lparr>hq_queue := tl (hq_queue q)\<rparr>)
            else (case find_index hash 0 (hq_queue q) of
                    Some i \<Rightarrow> Ok (Inside (word_of_nat i), q\<lparr>hq_queue := remove_index i (hq_queue q)\<rparr>)
                  | None \<Rightarrow> Panic))"

definition queue_remove_all :: "hash_queue \<Rightarrow> bytes list \<times> hash_queue" where
  "queue_remove_all q = (hq_queue q, q\<lparr>hq_set := {}, hq_queue := []\<rparr>)"

definition queue_index :: "hash_queue \<Rightarrow> u32 \<Rightarrow> ('e, bytes) outcome" where
  "queue_index q i = index (hq_queue q) (unat i)"


section \<open>Chains of queues\<close>

type_synonym hash_queue_chain = "hash_queue list"

definition with_number_of_queues :: "nat \<Rightarrow> ('e, hash_queue_chain) outcome" where
  "with_number_of_queues n = (if n \<noteq> 0 then Ok (replicate n queue_new) else Panic)"

fun queues_len_from :: "u32 \<Rightarrow> hash_queue_chain \<Rightarrow> ('e, u32) outcome" where
  "queues_len_from acc [] = Ok acc"
| "queues_len_from acc (q # qs) = and_then (u32_add acc (queue_len q)) (\<lambda>acc. queues_len_from acc qs)"

definition queues_len :: "hash_queue_chain \<Rightarrow> ('e, u32) outcome" where
  "queues_len qs = queues_len_from 0 qs"

definition queues_len_of :: "hash_queue_chain \<Rightarrow> nat \<Rightarrow> ('e, u32) outcome" where
  "queues_len_of qs i = and_then (index qs i) (\<lambda>q. Ok (queue_len q))"

fun queues_at :: "hash_queue_chain \<Rightarrow> u32 \<Rightarrow> bytes option" where
  "queues_at [] i = None"
| "queues_at (q # qs) i = (if i < queue_len q then queue_at q i else queues_at qs (i - queue_len q))"

definition queues_front_at :: "hash_queue_chain \<Rightarrow> nat \<Rightarrow> ('e, bytes option) outcome" where
  "queues_front_at qs i = and_then (index qs i) (\<lambda>q. Ok (queue_front q))"

definition queues_back_at :: "hash_queue_chain \<Rightarrow> nat \<Rightarrow> ('e, bytes option) outcome" where
  "queues_back_at qs i = and_then (index qs i) (\<lambda>q. Ok (queue_back q))"

definition queues_pre_back_at :: "hash_queue_chain \<Rightarrow> nat \<Rightarrow> ('e, bytes option) outcome" where
  "queues_pre_back_at qs i = and_then (index qs i) (\<lambda>q. Ok (queue_pre_back q))"

text \<open>The loop of \<open>back\<close> at \<open>queue_index\<close>; the subtraction underflows at index 0.\<close>

fun queues_back_loop :: "hash_queue_chain \<Rightarrow> nat \<Rightarrow> ('e, bytes option) outcome" where
  "queues_back_loop qs 0 =
     and_then (index qs 0) (\<lambda>q. if queue_back q \<noteq> None then Ok (queue_back q) else Panic)"
| "queues_back_loop qs (Suc i) =
     and_then (index qs (Suc i)) (\<lambda>q.
       if queue_back q \<noteq> None then Ok (queue_back q)
       else if i = 0 then Ok None
       else queues_back_loop qs i)"

definition queues_back :: "hash_queue_chain \<Rightarrow> ('e, bytes option) outcome" where
  "queues_back qs = (if qs = [] then Panic else queues_back_loop qs (length qs - 1))"

fun queues_contains_from :: "nat \<Rightarrow> hash_queue_chain \<Rightarrow> bytes \<Rightarrow> nat option" where
  "queues_contains_from i [] hash = None"
| "queues_contains_from i (q # qs) hash = (if queue_contains q hash then Some i else queues_contains_from (i + 1) qs hash)"

definition queues_contains_in :: "hash_queue_chain \<Rightarrow> bytes \<Rightarrow> nat option" where
  "queues_contains_in qs hash = queues_contains_from 0 qs hash"

definition queues_front_n_at :: "hash_queue_chain \<Rightarrow> nat \<Rightarrow> u32 \<Rightarrow> ('e, bytes list) outcome" where
  "queues_front_n_at qs i n = and_then (index qs i) (\<lambda>q. Ok (queue_front_n q n))"

definition queues_pop_front_n_at :: "nat \<Rightarrow> u32 \<Rightarrow> hash_queue_chain \<Rightarrow> ('e, bytes list \<times> hash_queue_chain) outcome" where
  "queues_pop_front_n_at i n qs =
     and_then (index qs i) (\<lambda>q. let (hashes, q) = queue_pop_front_n n q in Ok (hashes, qs[i := q]))"

definition queues_push_back_at :: "nat \<Rightarrow> bytes \<Rightarrow> hash_queue_chain \<Rightarrow> ('e, hash_queue_chain) outcome" where
  "queues_push_back_at i hash qs =
     and_then (index qs i) (\<lambda>q. and_then (queue_push_back hash q) (\<lambda>q. Ok (qs[i := q])))"

definition queues_push_back_n_at :: "nat \<Rightarrow> bytes list \<Rightarrow> hash_queue_chain \<Rightarrow> ('e, hash_queue_chain) outcome" where
  "queues_push_back_n_at i hashes qs =
     and_then (index qs i) (\<lambda>q. and_then (queue_push_back_n hashes q) (\<lambda>q. Ok (qs[i := q])))"

definition queues_remove_at :: "nat \<Rightarrow> bytes \<Rightarrow> hash_queue_chain \<Rightarrow> ('e, hash_position \<times> hash_queue_chain) outcome" where
  "queues_remove_at i hash qs =
     and_then (index qs i) (\<lambda>q. and_then (queue_remove hash q) (\<lambda>(position, q). Ok (position, qs[i := q])))"

definition queues_remove_all_at :: "nat \<Rightarrow> hash_queue_chain \<Rightarrow> ('e, bytes list \<times> hash_queue_chain) outcome" where
  "queues_remove_all_at i qs =
     and_then (index qs i) (\<lambda>q. let (hashes, q) = queue_remove_all q in Ok (hashes, qs[i := q]))"

fun queues_index :: "hash_queue_chain \<Rightarrow> u32 \<Rightarrow> ('e, bytes) outcome" where
  "queues_index [] i = Panic"
| "queues_index (q # qs) i = (if i < queue_len q then queue_index q i else queues_index qs (i - queue_len q))"


section \<open>The chain of headers in memory\<close>

record headers_information =
  hi_best :: u32
  hi_total :: u32

record best_headers =
  hc_storage_best_hash :: bytes
  hc_headers :: "(bytes \<times> indexed_header) list"
  hc_best :: hash_queue

definition headers_new :: "bytes \<Rightarrow> best_headers" where
  "headers_new storage_best_hash = \<lparr> hc_storage_best_hash = storage_best_hash, hc_headers = [], hc_best = queue_new \<rparr>"

definition headers_information :: "best_headers \<Rightarrow> headers_information" where
  "headers_information c = \<lparr> hi_best = queue_len (hc_best c), hi_total = word_of_nat (length (hc_headers c)) \<rparr>"

definition headers_by_hash :: "best_headers \<Rightarrow> bytes \<Rightarrow> indexed_header option" where
  "headers_by_hash c hash = map_of (hc_headers c) hash"

definition headers_at :: "best_headers \<Rightarrow> u32 \<Rightarrow> indexed_header option" where
  "headers_at c height = Option.bind (queue_at (hc_best c) height) (map_of (hc_headers c))"

definition headers_height :: "best_headers \<Rightarrow> bytes \<Rightarrow> u32 option" where
  "headers_height c hash = queue_position (hc_best c) hash"

definition headers_children :: "best_headers \<Rightarrow> bytes \<Rightarrow> ('e, bytes list) outcome" where
  "headers_children c hash =
     (case queue_position (hc_best c) hash of
        None \<Rightarrow> Ok []
      | Some pos \<Rightarrow>
          and_then (u32_add pos 1) (\<lambda>next.
            Ok (case queue_at (hc_best c) next of Some child \<Rightarrow> [child] | None \<Rightarrow> [])))"

definition headers_best_block_hash :: "best_headers \<Rightarrow> bytes" where
  "headers_best_block_hash c = (case queue_back (hc_best c) of Some hash \<Rightarrow> hash | None \<Rightarrow> hc_storage_best_hash c)"

definition headers_insert :: "indexed_header \<Rightarrow> best_headers \<Rightarrow> ('e, best_headers) outcome" where
  "headers_insert header c =
     (if headers_best_block_hash c = bh_previous_header_hash (ih_raw header) then
        and_then (queue_push_back (ih_hash header) (hc_best c)) (\<lambda>q.
          Ok (c\<lparr>hc_headers := AList.update (ih_hash header) header (hc_headers c), hc_best := q\<rparr>))
      else Ok c)"

fun headers_insert_n :: "indexed_header list \<Rightarrow> best_headers \<Rightarrow> ('e, best_headers) outcome" where
  "headers_insert_n [] c = Ok c"
| "headers_insert_n (header # headers) c = and_then (headers_insert header c) (headers_insert_n headers)"

definition headers_clear :: "best_headers \<Rightarrow> best_headers" where
  "headers_clear c = c\<lparr>hc_headers := [], hc_best := queue_clear (hc_best c)\<rparr>"

text \<open>The loop pops from the back while the queue is longer than \<open>position\<close>.\<close>

function clear_after_loop :: "u32 \<Rightarrow> best_headers \<Rightarrow> ('e, best_headers) outcome" where
  "clear_after_loop position c =
     (if queue_len (hc_best c) > position then
        (case queue_pop_back (hc_best c) of
           (Some hash, q) \<Rightarrow>
             clear_after_loop position (c\<lparr>hc_headers := AList.delete hash (hc_headers c), hc_best := q\<rparr>)
         | (None, q) \<Rightarrow> Panic)
      else Ok c)"
  by pat_completeness auto
termination
  by (relation "measure (\<lambda>(position, c). length (hq_queue (hc_best c)))")
    (auto simp: queue_pop_back_def Let_def split: if_splits)

declare clear_after_loop.simps [simp del]

definition headers_clear_after :: "u32 \<Rightarrow> best_headers \<Rightarrow> ('e, best_headers) outcome" where
  "headers_clear_after position c = (if position = 0 then Ok (headers_clear c) else clear_after_loop position c)"

definition headers_remove :: "bytes \<Rightarrow> best_headers \<Rightarrow> ('e, best_headers) outcome" where
  "headers_remove hash c =
     (if map_of (hc_headers c) hash \<noteq> None then
        let c = c\<lparr>hc_headers := AList.delete hash (hc_headers c)\<rparr> in
        and_then (queue_remove hash (hc_best c)) (\<lambda>(position, q).
          let c = c\<lparr>hc_best := q\<rparr> in
          case position of
            Front \<Rightarrow> Ok (headers_clear c)
          | Inside position \<Rightarrow> headers_clear_after position c
          | Missing \<Rightarrow> Ok c)
      else Ok c)"

fun headers_remove_n :: "bytes list \<Rightarrow> best_headers \<Rightarrow> ('e, best_headers) outcome" where
  "headers_remove_n [] c = Ok c"
| "headers_remove_n (hash # hashes) c = and_then (headers_remove hash c) (headers_remove_n hashes)"

definition block_inserted_to_storage :: "bytes \<Rightarrow> bytes \<Rightarrow> best_headers \<Rightarrow> best_headers" where
  "block_inserted_to_storage hash storage_best_hash c =
     (let c = (if queue_front (hc_best c) = Some hash
               then c\<lparr>hc_best := snd (queue_pop_front (hc_best c)), hc_headers := AList.delete hash (hc_headers c)\<rparr>
               else c)
      in c\<lparr>hc_storage_best_hash := storage_best_hash\<rparr>)"

end
