(* ===== verification/Hash_Queue_Props.thy ===== *)
theory Hash_Queue_Props
  imports Hash_Queue Compact
begin

text \<open>
  The queues of block hashes are lists without repetitions, and the headers in memory are one chain.
  The search for the last hash of a chain of queues never looks at the first queue.
\<close>

section \<open>The contract of a queue\<close>

locale distinct_queue =
  fixes elements :: "'q \<Rightarrow> 'a list" and ok :: "'q \<Rightarrow> bool"
    and push_back :: "'a \<Rightarrow> 'q \<Rightarrow> ('e, 'q) outcome" and pop_front :: "'q \<Rightarrow> 'a option \<times> 'q"
  assumes distinct_elements: "ok q \<Longrightarrow> distinct (elements q)"
    and push_back_new: "ok q \<Longrightarrow> x \<notin> set (elements q) \<Longrightarrow> \<exists>q'. push_back x q = Ok q' \<and> ok q' \<and> elements q' = elements q @ [x]"
    and push_back_old: "ok q \<Longrightarrow> x \<in> set (elements q) \<Longrightarrow> push_back x q = Panic"
    and pop_front_empty: "ok q \<Longrightarrow> elements q = [] \<Longrightarrow> pop_front q = (None, q)"
    and pop_front_some: "ok q \<Longrightarrow> elements q = x # xs \<Longrightarrow> \<exists>q'. pop_front q = (Some x, q') \<and> ok q' \<and> elements q' = xs"
begin

lemma push_all:
  assumes "\<And>q. push_n [] q = Ok q" and "\<And>x xs q. push_n (x # xs) q = and_then (push_back x q) (push_n xs)"
    and "ok q"
  shows "if distinct (elements q @ xs) then \<exists>q'. push_n xs q = Ok q' \<and> ok q' \<and> elements q' = elements q @ xs
    else push_n xs q = Panic"
  using assms(3)
proof (induction xs arbitrary: q)
  case Nil
  then show ?case using distinct_elements by (simp add: assms(1))
next
  case (Cons x xs)
  show ?case
  proof (cases "x \<in> set (elements q)")
    case True
    then show ?thesis using push_back_old [OF Cons.prems] by (simp add: assms(2))
  next
    case False
    then obtain q' where q': "push_back x q = Ok q'" "ok q'" "elements q' = elements q @ [x]"
      using push_back_new [OF Cons.prems] by blast
    then show ?thesis using Cons.IH [OF q'(2)] by (simp add: assms(2) split: if_splits)
  qed
qed

lemma pop_all:
  assumes "\<And>acc q. pop_n 0 acc q = (acc, q)"
    and "\<And>n acc q. pop_n (Suc n) acc q = (case pop_front q of (Some x, q) \<Rightarrow> pop_n n (acc @ [x]) q | (None, q) \<Rightarrow> (acc, q))"
    and "ok q"
  shows "\<exists>q'. pop_n n acc q = (acc @ take n (elements q), q') \<and> ok q' \<and> elements q' = drop n (elements q)"
  using assms(3)
proof (induction n arbitrary: acc q)
  case (Suc n)
  show ?case
  proof (cases "elements q")
    case Nil
    then show ?thesis using Suc.prems pop_front_empty by (simp add: assms(2))
  next
    case (Cons x xs)
    then obtain q' where "pop_front q = (Some x, q')" "ok q'" "elements q' = xs" using pop_front_some Suc.prems by blast
    with Suc.IH [of q' "acc @ [x]"] Cons show ?thesis by (auto simp: assms(2))
  qed
qed (simp add: assms(1))

end


section \<open>Hash queues\<close>

definition queue_ok :: "hash_queue \<Rightarrow> bool" where
  "queue_ok q \<longleftrightarrow> distinct (hq_queue q) \<and> hq_set q = set (hq_queue q)"

interpretation hash_queue: distinct_queue hq_queue queue_ok queue_push_back queue_pop_front
  by unfold_locales (auto simp: queue_ok_def queue_push_back_def queue_pop_front_def split: list.splits)

lemma find_index_None: "find_index x i ys = None \<longleftrightarrow> x \<notin> set ys"
  by (induction ys arbitrary: i) auto

lemma find_index_Some: "find_index x i ys = Some j \<longleftrightarrow> i \<le> j \<and> j < i + length ys \<and> ys ! (j - i) = x \<and> x \<notin> set (take (j - i) ys)"
proof (induction ys arbitrary: i)
  case (Cons y ys)
  show ?case
  proof (cases "j - i")
    case 0
    then show ?thesis using Cons [of "i + 1"] by (auto simp: le_Suc_eq)
  next
    case (Suc k)
    then have "j - Suc i = k" "i \<le> j \<longleftrightarrow> Suc i \<le> j" by auto
    then show ?thesis using Cons [of "i + 1"] Suc by auto
  qed
qed auto

lemma find_index_distinct:
  assumes "distinct ys" and "i < length ys"
  shows "find_index (ys ! i) 0 ys = Some i"
proof -
  have "ys ! i \<notin> set (take i ys)"
    using assms nth_eq_iff_index_eq [OF assms(1)] by (fastforce simp: in_set_conv_nth)
  then show ?thesis using assms(2) by (simp add: find_index_Some)
qed

lemma remove_index_remove1:
  assumes "find_index x 0 ys = Some i"
  shows "remove_index i ys = remove1 x ys"
proof -
  have i: "i < length ys" "ys ! i = x" "x \<notin> set (take i ys)" using assms by (simp_all add: find_index_Some)
  then have "ys = take i ys @ x # drop (Suc i) ys" by (metis id_take_nth_drop)
  then have "remove1 x ys = remove1 x (take i ys @ x # drop (Suc i) ys)" by simp
  also have "\<dots> = take i ys @ drop (Suc i) ys" using i(3) by (simp add: remove1_append)
  finally show ?thesis by (simp add: remove_index_def)
qed

text \<open>Where a removed element was.\<close>

fun position_of :: "bytes \<Rightarrow> bytes list \<Rightarrow> hash_position" where
  "position_of hash xs = (case find_index hash 0 xs of None \<Rightarrow> Missing | Some 0 \<Rightarrow> Front | Some (Suc i) \<Rightarrow> Inside (word_of_nat (Suc i)))"

lemma queue_remove_eq:
  assumes "queue_ok q"
  shows "\<exists>q'. queue_remove hash q = Ok (position_of hash (hq_queue q), q') \<and> queue_ok q' \<and> hq_queue q' = remove1 hash (hq_queue q)"
proof (cases "hash \<in> hq_set q")
  case False
  then show ?thesis using assms find_index_None [of hash 0 "hq_queue q"]
    by (simp add: queue_remove_def queue_ok_def remove1_idem)
next
  case True
  then obtain front rest where q: "hq_queue q = front # rest" using assms by (cases "hq_queue q") (auto simp: queue_ok_def)
  show ?thesis
  proof (cases "front = hash")
    case True
    then show ?thesis using assms q \<open>hash \<in> hq_set q\<close> by (auto simp: queue_remove_def queue_front_def queue_ok_def Let_def)
  next
    case False
    obtain i where i: "find_index hash 0 (hq_queue q) = Some i"
      using True assms find_index_None [of hash 0 "hq_queue q"] by (auto simp: queue_ok_def)
    then have "i \<noteq> 0" using False q by (auto simp: find_index_Some)
    then obtain k where "i = Suc k" by (cases i) auto
    moreover have "remove_index i (hq_queue q) = remove1 hash (hq_queue q)" by (rule remove_index_remove1 [OF i])
    ultimately show ?thesis using assms True False q i
      by (auto simp: queue_remove_def queue_front_def queue_ok_def Let_def)
  qed
qed

lemma queue_push_back_n_eq:
  assumes "queue_ok q"
  shows "if distinct (hq_queue q @ hashes)
    then \<exists>q'. queue_push_back_n hashes q = (Ok q' :: ('e, _) outcome) \<and> queue_ok q' \<and> hq_queue q' = hq_queue q @ hashes
    else queue_push_back_n hashes q = (Panic :: ('e, _) outcome)"
  by (rule hash_queue.push_all [of "queue_push_back_n :: _ \<Rightarrow> _ \<Rightarrow> ('e, hash_queue) outcome"]) (simp_all add: assms)

lemma queue_pop_front_n_eq:
  assumes "queue_ok q"
  shows "\<exists>q'. queue_pop_front_n n q = (take (unat n) (hq_queue q), q') \<and> queue_ok q' \<and> hq_queue q' = drop (unat n) (hq_queue q)"
  using hash_queue.pop_all [where pop_n = pop_front_loop and n = "unat n" and acc = "[]" and q = q] assms
  by (simp add: queue_pop_front_n_def)

text \<open>
  C23. A queue of hashes is a list without repetitions whose set mirrors it, and stays one: pushing
  appends, and panics exactly on a hash that is there; popping takes from the front; removing
  never panics, takes out the hash and says where it was; \<open>contains\<close> is membership in the list.
\<close>

theorem hash_queue_well_formed:
  assumes "queue_ok q"
  shows "(\<forall>hash. queue_contains q hash \<longleftrightarrow> hash \<in> set (hq_queue q))
    \<and> (\<forall>hashes. if distinct (hq_queue q @ hashes)
         then \<exists>q'. queue_push_back_n hashes q = (Ok q' :: ('e, _) outcome) \<and> queue_ok q' \<and> hq_queue q' = hq_queue q @ hashes
         else queue_push_back_n hashes q = (Panic :: ('e, _) outcome))
    \<and> (\<forall>n. \<exists>q'. queue_pop_front_n n q = (take (unat n) (hq_queue q), q') \<and> queue_ok q' \<and> hq_queue q' = drop (unat n) (hq_queue q))
    \<and> (\<forall>hash. \<exists>q'. queue_remove hash q = (Ok (position_of hash (hq_queue q), q') :: ('e, _) outcome)
         \<and> queue_ok q' \<and> hq_queue q' = remove1 hash (hq_queue q))"
proof (intro conjI allI)
  show "queue_contains q hash \<longleftrightarrow> hash \<in> set (hq_queue q)" for hash
    using assms by (simp add: queue_contains_def queue_ok_def)
qed (use queue_push_back_n_eq [OF assms] queue_pop_front_n_eq [OF assms] queue_remove_eq [OF assms] in blast)+

theorem hash_queue_well_formed_witness:
  "let q = \<lparr> hq_queue = [[1], [2]], hq_set = {[1], [2]} \<rparr> in
   queue_ok q \<and> (\<exists>q'. queue_remove [2] q = (Ok (Inside 1, q') :: (unit, _) outcome) \<and> hq_queue q' = [[1]])"
proof -
  let ?q = "\<lparr> hq_queue = [[1], [2]], hq_set = {[1], [2]} \<rparr>"
  have ok: "queue_ok ?q" by (simp add: queue_ok_def)
  from hash_queue_well_formed [OF ok, where 'e = unit]
  have "\<exists>q'. queue_remove [2] ?q = (Ok (position_of [2] (hq_queue ?q), q') :: (unit, _) outcome)
    \<and> queue_ok q' \<and> hq_queue q' = remove1 [2] (hq_queue ?q)" by blast
  then show ?thesis using ok by (auto simp: Let_def)
qed


section \<open>The headers in memory\<close>

text \<open>Every header of the queue is linked to the one before it; no other headers are kept.\<close>

definition headers_ok :: "best_headers \<Rightarrow> bool" where
  "headers_ok c \<longleftrightarrow> queue_ok (hc_best c) \<and> distinct (map fst (hc_headers c)) \<and> fst ` set (hc_headers c) = set (hq_queue (hc_best c))
     \<and> (\<forall>(hash, header) \<in> set (hc_headers c). ih_hash header = hash)
     \<and> (\<forall>i header. Suc i < length (hq_queue (hc_best c)) \<longrightarrow> map_of (hc_headers c) (hq_queue (hc_best c) ! Suc i) = Some header
          \<longrightarrow> bh_previous_header_hash (ih_raw header) = hq_queue (hc_best c) ! i)"

abbreviation headers_queue :: "best_headers \<Rightarrow> bytes list" where
  "headers_queue c \<equiv> hq_queue (hc_best c)"

lemma headers_okD:
  assumes "headers_ok c"
  shows "queue_ok (hc_best c)" "distinct (headers_queue c)" "distinct (map fst (hc_headers c))" "dom (map_of (hc_headers c)) = set (headers_queue c)"
    "map_of (hc_headers c) hash = Some header \<Longrightarrow> ih_hash header = hash"
    "Suc i < length (headers_queue c) \<Longrightarrow> map_of (hc_headers c) (headers_queue c ! Suc i) = Some header
       \<Longrightarrow> bh_previous_header_hash (ih_raw header) = headers_queue c ! i"
  using assms by (auto simp: headers_ok_def queue_ok_def dom_map_of_conv_image_fst dest: map_of_SomeD)

lemma headers_okI:
  assumes "queue_ok (hc_best c)" and "distinct (map fst (hc_headers c))" and "dom (map_of (hc_headers c)) = set (headers_queue c)"
    and "\<And>hash header. map_of (hc_headers c) hash = Some header \<Longrightarrow> ih_hash header = hash"
    and "\<And>i header. Suc i < length (headers_queue c) \<Longrightarrow> map_of (hc_headers c) (headers_queue c ! Suc i) = Some header
       \<Longrightarrow> bh_previous_header_hash (ih_raw header) = headers_queue c ! i"
  shows "headers_ok c"
  using assms by (auto simp: headers_ok_def dom_map_of_conv_image_fst)

text \<open>Restricting the chain to a prefix or to its tail.\<close>

lemma headers_ok_restrict:
  assumes "headers_ok c" and "queue_ok q" and "hq_queue q = take n (drop k (headers_queue c))"
    and "distinct (map fst headers)" and "map_of headers = map_of (hc_headers c) |` set (hq_queue q)"
  shows "headers_ok (c\<lparr>hc_best := q, hc_headers := headers\<rparr>)"
proof (rule headers_okI)
  note ok = headers_okD [OF assms(1)]
  have sub: "set (hq_queue q) \<subseteq> set (headers_queue c)" unfolding assms(3) by (meson set_drop_subset set_take_subset subset_trans)
  let ?c = "c\<lparr>hc_best := q, hc_headers := headers\<rparr>"
  show "dom (map_of (hc_headers ?c)) = set (headers_queue ?c)" using sub ok(4) by (auto simp: assms(5))
  show "ih_hash header = hash" if "map_of (hc_headers ?c) hash = Some header" for hash header
    using that ok(5) by (auto simp: assms(5) restrict_map_def split: if_splits)
  show "bh_previous_header_hash (ih_raw header) = headers_queue ?c ! i"
    if "Suc i < length (headers_queue ?c)" "map_of (hc_headers ?c) (headers_queue ?c ! Suc i) = Some header" for i header
    using that ok(6) [of "k + i" header] by (auto simp: assms(3,5) restrict_map_def split: if_splits)
qed (use assms in simp_all)

lemma headers_insert_eq:
  assumes "headers_ok c" and "ih_hash header \<notin> set (headers_queue c)" and "headers_best_block_hash c = bh_previous_header_hash (ih_raw header)"
  shows "\<exists>c'. headers_insert header c = (Ok c' :: ('e, best_headers) outcome) \<and> headers_ok c' \<and> headers_queue c' = headers_queue c @ [ih_hash header]
    \<and> map_of (hc_headers c') = (map_of (hc_headers c))(ih_hash header \<mapsto> header)
    \<and> hc_storage_best_hash c' = hc_storage_best_hash c"
proof -
  note ok = headers_okD [OF assms(1)]
  let ?hash = "ih_hash header"
  obtain q where q: "queue_push_back ?hash (hc_best c) = (Ok q :: ('e, hash_queue) outcome)" "queue_ok q" "hq_queue q = headers_queue c @ [?hash]"
    using hash_queue.push_back_new [OF ok(1) assms(2)] by blast
  let ?c = "c\<lparr>hc_headers := AList.update ?hash header (hc_headers c), hc_best := q\<rparr>"
  have "headers_ok ?c"
  proof (rule headers_okI)
    show "bh_previous_header_hash (ih_raw x) = headers_queue ?c ! i"
      if i: "Suc i < length (headers_queue ?c)" "map_of (hc_headers ?c) (headers_queue ?c ! Suc i) = Some x" for i x
    proof (cases "Suc i < length (headers_queue c)")
      case True
      then have "headers_queue c ! Suc i \<noteq> ?hash" using assms(2) nth_mem by metis
      then show ?thesis using True i(2) ok(6) by (simp add: q(3) update_conv' nth_append)
    next
      case False
      then have "i = length (headers_queue c) - 1" "headers_queue c \<noteq> []" using i(1) q(3) by auto
      then show ?thesis using i(2) assms(3) False
        by (simp add: q(3) update_conv' nth_append headers_best_block_hash_def queue_back_def last_conv_nth)
    qed
  qed (use ok(3,4) q ok(5) assms(2) in \<open>auto simp: update_conv' distinct_update split: if_splits\<close>)
  then show ?thesis using assms(3) q by (auto simp: headers_insert_def update_conv')
qed

lemma clear_after_loop_eq:
  assumes "queue_ok (hc_best c)" and "distinct (map fst (hc_headers c))" and "length (headers_queue c) < 2 ^ 32"
  shows "\<exists>q headers. clear_after_loop position c = (Ok (c\<lparr>hc_best := q, hc_headers := headers\<rparr>) :: ('e, best_headers) outcome) \<and> queue_ok q
    \<and> hq_queue q = take (unat position) (headers_queue c) \<and> distinct (map fst headers)
    \<and> map_of headers = map_of (hc_headers c) |` (- set (drop (unat position) (headers_queue c)))"
  using assms
proof (induction position c rule: clear_after_loop.induct)
  case (1 position c)
  have len: "unat (queue_len (hc_best c)) = length (headers_queue c)"
    using "1.prems"(3) by (simp add: queue_len_def unat_word_of_nat_u32)
  show ?case
  proof (cases "position < queue_len (hc_best c)")
    case False
    then have "length (headers_queue c) \<le> unat position" using len by (simp add: word_less_nat_alt)
    moreover have "c\<lparr>hc_best := hc_best c, hc_headers := hc_headers c\<rparr> = c" by simp
    ultimately show ?thesis using False "1.prems"
      by (intro exI [of _ "hc_best c"] exI [of _ "hc_headers c"]) (simp add: clear_after_loop.simps [of position c])
  next
    case True
    then have short: "unat position < length (headers_queue c)" using len by (simp add: word_less_nat_alt)
    then obtain xs x where xs: "headers_queue c = xs @ [x]" by (cases "headers_queue c" rule: rev_cases) auto
    obtain q where q: "queue_pop_back (hc_best c) = (Some x, q)" "hq_queue q = xs" "queue_ok q"
      using "1.prems"(1) xs by (auto simp: queue_pop_back_def Let_def queue_ok_def)
    let ?c = "c\<lparr>hc_headers := AList.delete x (hc_headers c), hc_best := q\<rparr>"
    have step: "clear_after_loop position c = (clear_after_loop position ?c :: ('e, best_headers) outcome)"
      using True q(1) by (subst clear_after_loop.simps) simp
    obtain q' headers where r: "clear_after_loop position ?c = (Ok (?c\<lparr>hc_best := q', hc_headers := headers\<rparr>) :: ('e, best_headers) outcome)" "queue_ok q'"
        "hq_queue q' = take (unat position) xs" "distinct (map fst headers)"
        "map_of headers = map_of (AList.delete x (hc_headers c)) |` (- set (drop (unat position) xs))"
      using "1.IH" [OF True q(1) [symmetric] refl] "1.prems" q xs by (auto simp: distinct_delete)
    have m: "map_of headers = map_of (hc_headers c) |` (- set (drop (unat position) (headers_queue c)))"
      using short unfolding r(5) xs by (auto simp: delete_conv' restrict_map_def fun_eq_iff)
    show ?thesis
      by (intro exI [of _ q'] exI [of _ headers] conjI)
        (use r(1) step in simp, rule r(2), use r(3) short xs in simp, rule r(4), rule m)
  qed
qed

lemma takeWhile_find_index: "takeWhile (\<lambda>y. y \<noteq> x) ys = (case find_index x 0 ys of Some i \<Rightarrow> take i ys | None \<Rightarrow> ys)"
proof (cases "find_index x 0 ys")
  case None
  then have "x \<notin> set ys" by (simp add: find_index_None)
  then show ?thesis using None by (auto simp: takeWhile_eq_all_conv)
next
  case (Some i)
  then have i: "i < length ys" "ys ! i = x" "x \<notin> set (take i ys)" by (simp_all add: find_index_Some)
  have "ys = take i ys @ ys ! i # drop (Suc i) ys" using i(1) by (rule id_take_nth_drop)
  then have "takeWhile (\<lambda>y. y \<noteq> x) ys = takeWhile (\<lambda>y. y \<noteq> x) (take i ys @ x # drop (Suc i) ys)" using i(2) by simp
  also have "\<dots> = take i ys" using i(3) by (subst takeWhile_append2) auto
  finally show ?thesis using Some by simp
qed

lemma headers_remove_eq:
  assumes "headers_ok c" and "length (headers_queue c) < 2 ^ 32"
  shows "\<exists>c'. headers_remove hash c = (Ok c' :: ('e, best_headers) outcome) \<and> headers_ok c'
    \<and> headers_queue c' = takeWhile (\<lambda>h. h \<noteq> hash) (headers_queue c) \<and> hc_storage_best_hash c' = hc_storage_best_hash c"
proof (cases "map_of (hc_headers c) hash = None")
  case True
  then have "hash \<notin> set (headers_queue c)" using headers_okD(4) [OF assms(1)] by (metis domIff)
  then have all: "takeWhile (\<lambda>h. h \<noteq> hash) (headers_queue c) = headers_queue c" by (auto simp: takeWhile_eq_all_conv)
  show ?thesis unfolding all using True assms(1) by (simp add: headers_remove_def)
next
  case False
  note ok = headers_okD [OF assms(1)]
  let ?c = "c\<lparr>hc_headers := AList.delete hash (hc_headers c)\<rparr>"
  obtain i where i: "find_index hash 0 (headers_queue c) = Some i"
    using False ok(4) find_index_None [of hash 0 "headers_queue c"] by (metis domIff not_Some_eq)
  then have pos: "i < length (headers_queue c)" "headers_queue c ! i = hash" by (simp_all add: find_index_Some)
  obtain q where q: "queue_remove hash (hc_best c) = (Ok (position_of hash (headers_queue c), q) :: ('e, _) outcome)"
      "queue_ok q" "hq_queue q = remove1 hash (headers_queue c)"
    using queue_remove_eq [OF ok(1)] by blast
  have rest: "hq_queue q = take i (headers_queue c) @ drop (Suc i) (headers_queue c)"
    using remove_index_remove1 [OF i] by (simp add: q(3) remove_index_def)
  show ?thesis
  proof (cases i)
    case 0
    have "headers_ok (headers_clear (?c\<lparr>hc_best := q\<rparr>))" by (rule headers_okI) (simp_all add: headers_clear_def queue_clear_def queue_ok_def)
    then show ?thesis using False q(1) i 0
      by (simp add: headers_remove_def takeWhile_find_index) (simp add: headers_clear_def queue_clear_def)
  next
    case (Suc k)
    have small: "unat (word_of_nat i :: u32) = i" using pos(1) assms(2) by (intro unat_word_of_nat_u32) simp
    have len: "length (hq_queue q) < 2 ^ 32" using assms(2) pos(1) by (simp add: rest)
    obtain q' headers where r: "clear_after_loop (word_of_nat i) (?c\<lparr>hc_best := q\<rparr>) = (Ok (?c\<lparr>hc_best := q', hc_headers := headers\<rparr>) :: ('e, _) outcome)"
        "queue_ok q'" "hq_queue q' = take i (headers_queue c)" "distinct (map fst headers)"
        "map_of headers = map_of (AList.delete hash (hc_headers c)) |` (- set (drop (Suc i) (headers_queue c)))"
      using clear_after_loop_eq [of "?c\<lparr>hc_best := q\<rparr>" "word_of_nat i :: u32", where 'e = 'e] q(2) len ok(3) pos(1) small rest
      by (auto simp: distinct_delete)
    have restricted: "map_of headers = map_of (hc_headers c) |` set (hq_queue q')"
    proof (rule ext)
      fix h
      define front rest' where "front = take i (headers_queue c)" and "rest' = drop (Suc i) (headers_queue c)"
      have "headers_queue c = front @ hash # rest'"
        using id_take_nth_drop [OF pos(1)] pos(2) by (simp add: front_def rest'_def)
      then have "h \<in> set front \<longleftrightarrow> h \<in> dom (map_of (hc_headers c)) \<and> h \<noteq> hash \<and> h \<notin> set rest'"
        using ok(2) unfolding ok(4) by auto
      then show "map_of headers h = (map_of (hc_headers c) |` set (hq_queue q')) h"
        unfolding r(5,3) front_def [symmetric] rest'_def [symmetric] by (auto simp: delete_conv' restrict_map_def domIff)
    qed
    have "headers_ok (c\<lparr>hc_best := q', hc_headers := headers\<rparr>)"
      by (rule headers_ok_restrict [OF assms(1) r(2) _ r(4) restricted, where n = i and k = 0]) (simp add: r(3))
    moreover have "word_of_nat i \<noteq> (0 :: u32)" using small Suc by auto
    ultimately show ?thesis using False q(1) i Suc r(1)
      by (auto simp: headers_remove_def headers_clear_after_def takeWhile_find_index r(3))
  qed
qed

lemma block_inserted_ok:
  assumes "headers_ok c"
  shows "headers_ok (block_inserted_to_storage hash storage_best_hash c)"
    and "headers_queue (block_inserted_to_storage hash storage_best_hash c)
      = (if queue_front (hc_best c) = Some hash then tl (headers_queue c) else headers_queue c)"
proof -
  note ok = headers_okD [OF assms]
  have change: "headers_ok (c'\<lparr>hc_storage_best_hash := storage_best_hash\<rparr>)" if "headers_ok c'" for c' :: best_headers
    using that by (simp add: headers_ok_def)
  have popped: "headers_ok (c\<lparr>hc_best := snd (queue_pop_front (hc_best c)), hc_headers := AList.delete hash (hc_headers c)\<rparr>)
      \<and> hq_queue (snd (queue_pop_front (hc_best c))) = tl (headers_queue c)" if front: "queue_front (hc_best c) = Some hash"
  proof -
    obtain rest where rest: "headers_queue c = hash # rest"
      using front by (auto simp: queue_front_def split: list.splits)
    then obtain q where q: "queue_pop_front (hc_best c) = (Some hash, q)" "queue_ok q" "hq_queue q = rest"
      using hash_queue.pop_front_some [OF ok(1)] by blast
    have "map_of (AList.delete hash (hc_headers c)) = map_of (hc_headers c) |` set rest"
      using ok(2,4) unfolding rest by (auto simp: delete_conv' restrict_map_def fun_eq_iff domIff)
    then have "headers_ok (c\<lparr>hc_best := q, hc_headers := AList.delete hash (hc_headers c)\<rparr>)"
      by (intro headers_ok_restrict [OF assms q(2), where n = "length rest" and k = 1]) (use rest q(3) ok(3) in \<open>simp_all add: distinct_delete\<close>)
    then show ?thesis using q rest by simp
  qed
  show "headers_ok (block_inserted_to_storage hash storage_best_hash c)"
    using popped change assms by (auto simp: block_inserted_to_storage_def Let_def)
  show "headers_queue (block_inserted_to_storage hash storage_best_hash c)
      = (if queue_front (hc_best c) = Some hash then tl (headers_queue c) else headers_queue c)"
    using popped by (simp add: block_inserted_to_storage_def Let_def)
qed

lemma headers_at_height:
  assumes "headers_ok c" and "length (headers_queue c) < 2 ^ 32"
  shows "headers_height c hash = Some p \<longleftrightarrow> (\<exists>header. headers_at c p = Some header \<and> ih_hash header = hash)"
proof
  note ok = headers_okD [OF assms(1)]
  assume "headers_height c hash = Some p"
  then obtain i where i: "find_index hash 0 (headers_queue c) = Some i" "p = word_of_nat i"
    by (auto simp: headers_height_def queue_position_def)
  then have pos: "i < length (headers_queue c)" "headers_queue c ! i = hash" by (simp_all add: find_index_Some)
  then have "unat p = i" using assms(2) i(2) by (simp add: unat_word_of_nat_u32)
  moreover obtain header where "map_of (hc_headers c) hash = Some header" using pos nth_mem ok(4) by blast
  ultimately show "\<exists>header. headers_at c p = Some header \<and> ih_hash header = hash"
    using pos ok(5) by (auto simp: headers_at_def queue_at_def)
next
  note ok = headers_okD [OF assms(1)]
  assume "\<exists>header. headers_at c p = Some header \<and> ih_hash header = hash"
  then have "unat p < length (headers_queue c)" "headers_queue c ! unat p = hash"
    using ok(5) by (auto simp: headers_at_def queue_at_def split: if_splits)
  then have "find_index hash 0 (headers_queue c) = Some (unat p)" using find_index_distinct [OF ok(2)] by blast
  then show "headers_height c hash = Some p" by (simp add: headers_height_def queue_position_def)
qed

lemma headers_children_eq:
  assumes "headers_ok c" and "length (headers_queue c) < 2 ^ 32" and "Suc i < length (headers_queue c)"
  shows "headers_children c (headers_queue c ! i) = (Ok [headers_queue c ! Suc i] :: ('e, bytes list) outcome)"
proof -
  have "find_index (headers_queue c ! i) 0 (headers_queue c) = Some i"
    using find_index_distinct [OF headers_okD(2) [OF assms(1)]] assms(3) by simp
  moreover have "unat (word_of_nat i :: u32) = i" "unat (word_of_nat (Suc i) :: u32) = Suc i"
    using assms(2,3) by (intro unat_word_of_nat_u32; simp)+
  moreover have "u32_add (word_of_nat i) 1 = (Ok (word_of_nat (Suc i)) :: ('e, u32) outcome)"
    using calculation(2) assms(2,3) by (simp add: u32_add_def)
  ultimately show ?thesis using assms(3) by (simp add: headers_children_def queue_position_def queue_at_def)
qed

text \<open>
  C24. The headers in memory always form one chain: inserting a header appends it exactly when it
  extends the last one, removing a header removes everything after it as well and never panics,
  and a stored block leaves from the front.  In such a chain heights and headers are inverse to each
  other, and the child of a block is the block after it.
\<close>

theorem headers_form_a_chain:
  assumes "headers_ok c" and "length (headers_queue c) < 2 ^ 32"
  shows "(\<forall>header. ih_hash header \<notin> set (headers_queue c) \<longrightarrow>
        (\<exists>c'. headers_insert header c = (Ok c' :: ('e, best_headers) outcome) \<and> headers_ok c' \<and> headers_queue c'
          = (if headers_best_block_hash c = bh_previous_header_hash (ih_raw header) then headers_queue c @ [ih_hash header] else headers_queue c)))
    \<and> (\<forall>hash. \<exists>c'. headers_remove hash c = (Ok c' :: ('e, best_headers) outcome) \<and> headers_ok c'
        \<and> headers_queue c' = takeWhile (\<lambda>h. h \<noteq> hash) (headers_queue c))
    \<and> (\<forall>hash best. headers_ok (block_inserted_to_storage hash best c))
    \<and> (\<forall>hash p. headers_height c hash = Some p \<longleftrightarrow> (\<exists>header. headers_at c p = Some header \<and> ih_hash header = hash))
    \<and> (\<forall>i. Suc i < length (headers_queue c) \<longrightarrow>
        headers_children c (headers_queue c ! i) = (Ok [headers_queue c ! Suc i] :: ('e, bytes list) outcome))"
proof (intro conjI allI impI)
  show "\<exists>c'. headers_insert header c = (Ok c' :: ('e, best_headers) outcome) \<and> headers_ok c' \<and> headers_queue c'
      = (if headers_best_block_hash c = bh_previous_header_hash (ih_raw header) then headers_queue c @ [ih_hash header] else headers_queue c)"
    if "ih_hash header \<notin> set (headers_queue c)" for header
  proof (cases "headers_best_block_hash c = bh_previous_header_hash (ih_raw header)")
    case True
    then show ?thesis using headers_insert_eq [OF assms(1) that True, where 'e = 'e] by auto
  qed (use assms(1) in \<open>simp add: headers_insert_def\<close>)
qed (use headers_remove_eq [OF assms] block_inserted_ok(1) [OF assms(1)] headers_at_height [OF assms] headers_children_eq [OF assms] in blast)+

theorem headers_form_a_chain_witness:
  "let header = \<lparr> ih_hash = [1], ih_raw = \<lparr> bh_version = 1, bh_previous_header_hash = [0], bh_merkle_root_hash = [], bh_time = 0,
         bh_bits = 0, bh_nonce = 0 \<rparr> \<rparr>; c = headers_new [0] in
   headers_ok c \<and> (\<exists>c'. headers_insert header c = (Ok c' :: (unit, best_headers) outcome) \<and> headers_ok c' \<and> headers_queue c' = [[1]])"
proof -
  let ?c = "headers_new [0]"
  have ok: "headers_ok ?c" "length (headers_queue ?c) < 2 ^ 32"
    by (simp_all add: headers_ok_def headers_new_def queue_new_def queue_ok_def)
  have "headers_best_block_hash ?c = [0]" "headers_queue ?c = []"
    by (simp_all add: headers_best_block_hash_def headers_new_def queue_new_def queue_back_def)
  with headers_form_a_chain [OF ok, where 'e = unit, THEN conjunct1, rule_format, of "\<lparr> ih_hash = [1],
      ih_raw = \<lparr> bh_version = 1, bh_previous_header_hash = [0], bh_merkle_root_hash = [], bh_time = 0, bh_bits = 0, bh_nonce = 0 \<rparr> \<rparr>"] ok(1)
  show ?thesis by (simp add: Let_def)
qed


section \<open>The last hash of a chain of queues\<close>

lemma queues_back_loop_eq:
  assumes "i < length rest"
  shows "queues_back_loop (q # rest) (Suc i)
    = Ok (let hashes = concat (map hq_queue (take (Suc i) rest)) in if hashes = [] then None else Some (last hashes))"
  using assms
proof (induction i)
  case 0
  then show ?case by (cases rest) (auto simp: index_def queue_back_def Let_def)
next
  case (Suc i)
  have "take (Suc (Suc i)) rest = take (Suc i) rest @ [rest ! Suc i]" using Suc.prems by (rule take_Suc_conv_app_nth)
  then show ?case using Suc by (simp add: index_def queue_back_def Let_def)
qed

text \<open>
  The search for the last hash of a chain of queues never looks at the first queue: with two or
  more queues it finds the last hash of the others, and with a single empty queue it underflows.
\<close>

theorem queues_back_ignores_first:
  "queues_back (q # r # rest)
     = Ok (let hashes = concat (map hq_queue (r # rest)) in if hashes = [] then None else Some (last hashes))
   \<and> queues_back [queue_new] = Panic"
  using queues_back_loop_eq [of "length rest" "r # rest" q]
  by (simp add: queues_back_def index_def queue_new_def queue_back_def)

end
