(* ===== verification/Partial_Merkle.thy ===== *)
theory Partial_Merkle
  imports Chain_Props
begin

text \<open>
  Partial merkle trees, \<open>sync/src/utils/partial_merkle_tree.rs\<close>: the proof that a node sends for the
  transactions of a block that match the filter of a peer, and the algorithm that reads it back.

  \<open>BitVec\<close> is a list of bits; reading a bit out of range panics, and so does setting one.  The builder
  and the parser share one structure in the source; here its read-only fields are arguments and the
  fields that a phase changes are its state.
\<close>

section \<open>The tree\<close>

record partial_merkle_tree =
  pm_tx_count :: nat
  pm_hashes :: "bytes list"
  pm_flags :: "bool list"

record parsed_partial_merkle_tree =
  pp_root :: bytes
  pp_hashes :: "bytes list"
  pp_flags :: "bool list"

definition level_width :: "nat \<Rightarrow> nat \<Rightarrow> nat" where
  "level_width all_len height = (all_len + 2 ^ height - 1) div 2 ^ height"

lemma level_width_0 [simp]: "level_width n 0 = n"
  by (simp add: level_width_def)

lemma level_width_Suc: "level_width n (Suc height) = (level_width n height + 1) div 2"
proof -
  have eq: "n + 2 ^ Suc height - 1 = n + 2 ^ height - 1 + 2 ^ height" by simp
  have "(n + 2 ^ Suc height - 1) div 2 ^ height = (n + 2 ^ height - 1) div 2 ^ height + 1"
    unfolding eq by (rule div_add_self2) simp
  moreover have "(n + 2 ^ Suc height - 1) div 2 ^ Suc height = (n + 2 ^ Suc height - 1) div 2 ^ height div 2"
    unfolding power_Suc2 by (rule div_mult2_eq)
  ultimately show ?thesis by (simp add: level_width_def)
qed

text \<open>The loop of \<open>tree_height\<close>.\<close>

function tree_height_from :: "nat \<Rightarrow> nat \<Rightarrow> nat" where
  "tree_height_from all_len height =
     (if level_width all_len height > 1 then tree_height_from all_len (height + 1) else height)"
  by pat_completeness auto
termination
  by (relation "measure (\<lambda>(n, height). level_width n height)") (auto simp: level_width_Suc)

declare tree_height_from.simps [simp del]

definition tree_height :: "nat \<Rightarrow> nat" where
  "tree_height all_len = tree_height_from all_len 0"

fun branch_hash :: "hasher \<Rightarrow> bytes list \<Rightarrow> nat \<Rightarrow> nat \<Rightarrow> ('e, bytes) outcome" where
  "branch_hash h all_hashes 0 pos = index all_hashes pos"
| "branch_hash h all_hashes (Suc height) pos =
     and_then (branch_hash h all_hashes height (2 * pos)) (\<lambda>left.
     and_then (if 2 * pos + 1 < level_width (length all_hashes) height
               then branch_hash h all_hashes height (2 * pos + 1) else Ok left) (\<lambda>right.
       Ok (merkle_node_hash h left right)))"


section \<open>Building\<close>

fun any_match :: "bool list \<Rightarrow> nat list \<Rightarrow> ('e, bool) outcome" where
  "any_match all_matches [] = Ok False"
| "any_match all_matches (idx # idxs) =
     and_then (index all_matches idx) (\<lambda>flag. if flag then Ok True else any_match all_matches idxs)"

fun build_branch ::
    "hasher \<Rightarrow> bytes list \<Rightarrow> bool list \<Rightarrow> nat \<Rightarrow> nat \<Rightarrow> bytes list \<times> bool list \<Rightarrow> ('e, bytes list \<times> bool list) outcome" where
  "build_branch h all_hashes all_matches 0 pos (hashes, matches) =
     and_then (any_match all_matches [pos..<min (length all_hashes) (pos + 1)]) (\<lambda>flag.
     and_then (branch_hash h all_hashes 0 pos) (\<lambda>hash. Ok (hashes @ [hash], matches @ [flag])))"
| "build_branch h all_hashes all_matches (Suc height) pos (hashes, matches) =
     (let transactions_begin = pos * 2 ^ Suc height; transactions_end = min (length all_hashes) ((pos + 1) * 2 ^ Suc height) in
      and_then (any_match all_matches [transactions_begin..<transactions_end]) (\<lambda>flag.
        if \<not> flag then
          and_then (branch_hash h all_hashes (Suc height) pos) (\<lambda>hash. Ok (hashes @ [hash], matches @ [flag]))
        else
          and_then (build_branch h all_hashes all_matches height (2 * pos) (hashes, matches @ [flag])) (\<lambda>st.
            if 2 * pos + 1 < level_width (length all_hashes) height
            then build_branch h all_hashes all_matches height (2 * pos + 1) st else Ok st)))"

definition build_partial_merkle_tree :: "hasher \<Rightarrow> bytes list \<Rightarrow> bool list \<Rightarrow> ('e, partial_merkle_tree) outcome" where
  "build_partial_merkle_tree h all_hashes all_matches =
     and_then (build_branch h all_hashes all_matches (tree_height (length all_hashes)) 0 ([], [])) (\<lambda>(hashes, matches).
       Ok \<lparr> pm_tx_count = length all_hashes, pm_hashes = hashes, pm_flags = matches \<rparr>)"


section \<open>Parsing\<close>

record parser =
  ps_all_hashes :: "bytes list"
  ps_all_matches :: "bool list"
  ps_matches_used :: nat
  ps_hashes_used :: nat

text \<open>\<open>pos\<close> is in range of the bits of the transactions whenever a leaf is marked; \<open>set\<close> panics otherwise.\<close>

definition parse_leaf :: "bytes list \<Rightarrow> nat \<Rightarrow> nat \<Rightarrow> bool \<Rightarrow> parser \<Rightarrow> (string, bytes \<times> parser) outcome" where
  "parse_leaf hashes height pos flag s =
     (if ps_hashes_used s > length hashes then Err ''all hashes used''
      else and_then (index hashes (ps_hashes_used s)) (\<lambda>hash.
        let s = s\<lparr>ps_hashes_used := ps_hashes_used s + 1\<rparr> in
        if height = 0 \<and> flag then
          if pos < length (ps_all_matches s)
          then Ok (hash, s\<lparr>ps_all_hashes := ps_all_hashes s @ [hash], ps_all_matches := (ps_all_matches s)[pos := True]\<rparr>)
          else Panic
        else Ok (hash, s)))"

fun parse_branch ::
    "hasher \<Rightarrow> nat \<Rightarrow> bytes list \<Rightarrow> bool list \<Rightarrow> nat \<Rightarrow> nat \<Rightarrow> parser \<Rightarrow> (string, bytes \<times> parser) outcome" where
  "parse_branch h all_len hashes matches 0 pos s =
     (if ps_matches_used s \<ge> length matches then Err ''all matches used''
      else parse_leaf hashes 0 pos (matches ! ps_matches_used s) (s\<lparr>ps_matches_used := ps_matches_used s + 1\<rparr>))"
| "parse_branch h all_len hashes matches (Suc height) pos s =
     (if ps_matches_used s \<ge> length matches then Err ''all matches used''
      else let flag = matches ! ps_matches_used s; s = s\<lparr>ps_matches_used := ps_matches_used s + 1\<rparr> in
        if \<not> flag then parse_leaf hashes (Suc height) pos flag s
        else
          and_then (parse_branch h all_len hashes matches height (2 * pos) s) (\<lambda>(left, s).
            let has_right_child = 2 * pos + 1 < level_width all_len height in
            and_then (if has_right_child then parse_branch h all_len hashes matches height (2 * pos + 1) s else Ok (left, s))
              (\<lambda>(right, s).
                if has_right_child \<and> left = right then Err ''met same hash twice''
                else Ok (merkle_node_hash h left right, s))))"

definition parse_partial_merkle_tree :: "hasher \<Rightarrow> partial_merkle_tree \<Rightarrow> (string, parsed_partial_merkle_tree) outcome" where
  "parse_partial_merkle_tree h t =
     (let all_len = pm_tx_count t; hashes = pm_hashes t; matches = pm_flags t in
      if all_len = 0 then Err ''no transactions''
      else if length hashes > all_len then Err ''too many hashes''
      else if length matches < length hashes then Err ''too few matches''
      else
        and_then (parse_branch h all_len hashes matches (tree_height all_len) 0
            \<lparr> ps_all_hashes = [], ps_all_matches = replicate all_len False, ps_matches_used = 0, ps_hashes_used = 0 \<rparr>) (\<lambda>(root, s).
          if ps_matches_used s \<noteq> length matches then Err ''not all matches used''
          else if ps_hashes_used s \<noteq> length hashes then Err ''not all hashes used''
          else Ok \<lparr> pp_root = root, pp_hashes = ps_all_hashes s, pp_flags = ps_all_matches s \<rparr>))"


section \<open>The rows of the merkle tree\<close>

primrec row :: "hasher \<Rightarrow> bytes list \<Rightarrow> nat \<Rightarrow> bytes list" where
  "row h xs 0 = xs"
| "row h xs (Suc k) = next_row h (row h xs k)"

lemma length_row: "length (row h xs k) = level_width (length xs) k"
  by (induction k) (simp_all add: level_width_Suc length_pairing)

lemma pairing_nth:
  "i < length (pairing xs) \<Longrightarrow> pairing xs ! i = (xs ! (2 * i), if 2 * i + 1 < length xs then xs ! (2 * i + 1) else xs ! (2 * i))"
proof (induction xs arbitrary: i rule: pairing.induct)
  case (3 x y zs)
  then show ?case by (cases i) auto
qed auto

lemma row_Suc_nth:
  assumes "pos < level_width (length xs) (Suc k)"
  shows "2 * pos < level_width (length xs) k"
    and "row h xs (Suc k) ! pos = merkle_node_hash h (row h xs k ! (2 * pos))
      (if 2 * pos + 1 < level_width (length xs) k then row h xs k ! (2 * pos + 1) else row h xs k ! (2 * pos))"
proof -
  have pos: "pos < length (pairing (row h xs k))" using assms by (simp add: length_pairing length_row level_width_Suc)
  show "2 * pos < level_width (length xs) k" using assms by (simp add: level_width_Suc)
  show "row h xs (Suc k) ! pos = merkle_node_hash h (row h xs k ! (2 * pos))
      (if 2 * pos + 1 < level_width (length xs) k then row h xs k ! (2 * pos + 1) else row h xs k ! (2 * pos))"
    using pos by (simp add: pairing_nth length_row)
qed

lemma branch_hash_row: "pos < level_width (length xs) k \<Longrightarrow> branch_hash h xs k pos = Ok (row h xs k ! pos)"
proof (induction k arbitrary: pos)
  case (Suc k)
  note r = row_Suc_nth(1) [OF Suc.prems] row_Suc_nth(2) [OF Suc.prems, of h]
  show ?case using Suc.IH r by (simp del: row.simps)
qed (simp add: index_def)

lemma merkle_root_row: "level_width (length xs) k \<ge> 1 \<Longrightarrow> (\<forall>j<k. level_width (length xs) j > 1) \<Longrightarrow> merkle_root h xs = merkle_root h (row h xs k)"
proof (induction k)
  case (Suc k)
  have big: "level_width (length xs) k > 1" using Suc.prems(2) by blast
  then have "length (row h xs k) \<noteq> 1" by (simp add: length_row)
  then have "merkle_root h (row h xs k) = merkle_root h (row h xs (Suc k))" by (subst merkle_root_unfold) simp
  then show ?case using Suc.IH Suc.prems(2) big by simp
qed simp

lemma tree_height_from:
  "n > 0 \<Longrightarrow> level_width n (tree_height_from n k) = 1 \<and> (\<forall>j. k \<le> j \<and> j < tree_height_from n k \<longrightarrow> level_width n j > 1)"
proof (induction n k rule: tree_height_from.induct)
  case (1 n k)
  have pos: "level_width n k > 0" using \<open>n > 0\<close> by (simp add: level_width_def div_greater_zero_iff)
  show ?case
  proof (cases "level_width n k > 1")
    case True
    then have eq: "tree_height_from n k = tree_height_from n (Suc k)" by (simp add: tree_height_from.simps [of n k])
    have "level_width n (tree_height_from n (Suc k)) = 1" "Suc k \<le> j \<Longrightarrow> j < tree_height_from n (Suc k) \<Longrightarrow> level_width n j > 1" for j
      using 1 True by simp_all
    then show ?thesis using True unfolding eq by (metis Suc_leI nat_less_le)
  next
    case False
    with pos show ?thesis by (auto simp: tree_height_from.simps [of n k])
  qed
qed

lemma tree_height:
  assumes "xs \<noteq> []"
  shows "level_width (length xs) (tree_height (length xs)) = 1"
    and "\<forall>j<tree_height (length xs). level_width (length xs) j > 1"
    and "merkle_root h xs = Some (row h xs (tree_height (length xs)) ! 0)"
proof -
  have t: "level_width (length xs) (tree_height (length xs)) = 1" "\<forall>j<tree_height (length xs). level_width (length xs) j > 1"
    using tree_height_from [of "length xs" 0] assms by (auto simp: tree_height_def)
  show "level_width (length xs) (tree_height (length xs)) = 1" "\<forall>j<tree_height (length xs). level_width (length xs) j > 1"
    by (fact t)+
  have "merkle_root h xs = merkle_root h (row h xs (tree_height (length xs)))"
    using t by (intro merkle_root_row) simp_all
  also have "\<dots> = Some (row h xs (tree_height (length xs)) ! 0)"
    by (subst merkle_root_unfold) (simp add: length_row t(1))
  finally show "merkle_root h xs = Some (row h xs (tree_height (length xs)) ! 0)" .
qed

lemma less_level_width: "pos < level_width n k \<longleftrightarrow> pos * 2 ^ k < n"
proof -
  have "pos < level_width n k \<longleftrightarrow> Suc pos \<le> (n + 2 ^ k - 1) div 2 ^ k" by (simp add: level_width_def Suc_le_eq)
  also have "\<dots> \<longleftrightarrow> Suc pos * 2 ^ k \<le> n + 2 ^ k - 1" by (rule less_eq_div_iff_mult_less_eq) simp
  also have "\<dots> \<longleftrightarrow> pos * 2 ^ k < n"
  proof -
    obtain p where "(2 :: nat) ^ k = Suc p" using not0_implies_Suc [of "2 ^ k"] by auto
    then show ?thesis by (simp add: less_eq_Suc_le)
  qed
  finally show ?thesis .
qed

lemma merkle_nodes_row:
  "(\<forall>j<k. level_width (length xs) j > 1) \<Longrightarrow> set (merkle_nodes h (row h xs k)) \<subseteq> set (merkle_nodes h xs)"
proof (induction k)
  case (Suc k)
  then have "\<not> length (row h xs k) \<le> 1" by (simp add: length_row not_le)
  then have "set (merkle_nodes h (row h xs (Suc k))) \<subseteq> set (merkle_nodes h (row h xs k))"
    by (simp add: merkle_nodes.simps [of h "row h xs k"])
  then show ?case using Suc by auto
qed simp

lemma row_distinct:
  assumes "distinct xs" and "\<forall>x \<in> set xs. length x = 32" and "\<not> collide h (merkle_nodes h xs) (merkle_nodes h xs)"
  shows "(\<forall>j<k. level_width (length xs) j > 1) \<Longrightarrow> distinct (row h xs k) \<and> (\<forall>x \<in> set (row h xs k). length x = 32)"
proof (induction k)
  case (Suc k)
  let ?r = "row h xs k"
  have IH: "distinct ?r" "\<forall>x \<in> set ?r. length x = 32" using Suc by auto
  have "\<not> length ?r \<le> 1" using Suc.prems by (simp add: length_row not_le)
  then have "set (row_nodes ?r) \<subseteq> set (merkle_nodes h ?r)" by (subst merkle_nodes.simps) simp
  also have "\<dots> \<subseteq> set (merkle_nodes h xs)" using Suc.prems by (intro merkle_nodes_row) simp
  finally have nodes: "set (row_nodes ?r) \<subseteq> set (merkle_nodes h xs)" .
  have "next_row h ?r ! i \<noteq> next_row h ?r ! j" if "i < length (next_row h ?r)" "j < length (next_row h ?r)" "i \<noteq> j" for i j
  proof
    assume eq: "next_row h ?r ! i = next_row h ?r ! j"
    obtain l m l' m' where p: "pairing ?r ! i = (l, m)" "pairing ?r ! j = (l', m')" by fastforce
    then have "l @ m \<in> set (row_nodes ?r)" "l' @ m' \<in> set (row_nodes ?r)"
      using that nth_mem [of i "pairing ?r"] nth_mem [of j "pairing ?r"] by force+
    then have mem: "l @ m \<in> set (merkle_nodes h xs)" "l' @ m' \<in> set (merkle_nodes h xs)" using nodes by blast+
    have "dhash256 h (l @ m) = dhash256 h (l' @ m')" using eq p that(1,2) by (simp add: merkle_node_hash_def)
    then have "l @ m = l' @ m'" using mem assms(3) unfolding collide_def by blast
    moreover have idx: "2 * i < length ?r" "2 * j < length ?r" using that(1,2) by (simp_all add: length_pairing)
    moreover have "l = ?r ! (2 * i)" "l' = ?r ! (2 * j)" using p that(1,2) by (auto simp: pairing_nth)
    ultimately have "?r ! (2 * i) = ?r ! (2 * j)" using IH(2) nth_mem by (metis append_eq_append_conv)
    then show False using IH(1) idx that(3) by (simp add: nth_eq_iff_index_eq)
  qed
  then have "distinct (next_row h ?r)" by (simp only: distinct_conv_nth) blast
  then show ?case by (auto simp: merkle_node_hash_def)
qed (simp add: assms)


section \<open>Segments\<close>

text \<open>The transactions below a node that match, and what the builder writes for a node.\<close>

definition matched :: "bool list \<Rightarrow> nat \<Rightarrow> nat \<Rightarrow> nat list" where
  "matched ms k pos = filter (\<lambda>i. ms ! i) [pos * 2 ^ k..<min (length ms) ((pos + 1) * 2 ^ k)]"

fun segment :: "hasher \<Rightarrow> bytes list \<Rightarrow> bool list \<Rightarrow> nat \<Rightarrow> nat \<Rightarrow> bytes list \<times> bool list" where
  "segment h xs ms 0 pos = ([xs ! pos], [ms ! pos])"
| "segment h xs ms (Suc k) pos =
     (if matched ms (Suc k) pos = [] then ([row h xs (Suc k) ! pos], [False])
      else
        let left = segment h xs ms k (2 * pos);
            right = (if 2 * pos + 1 < level_width (length xs) k then segment h xs ms k (2 * pos + 1) else ([], []))
        in (fst left @ fst right, True # snd left @ snd right))"

lemma matched_0: "pos < length ms \<Longrightarrow> matched ms 0 pos = (if ms ! pos then [pos] else [])"
  by (simp add: matched_def)

lemma matched_Suc:
  assumes "pos < level_width (length ms) (Suc k)"
  shows "matched ms (Suc k) pos
    = matched ms k (2 * pos) @ (if 2 * pos + 1 < level_width (length ms) k then matched ms k (2 * pos + 1) else [])"
proof -
  let ?n = "length ms" and ?a = "pos * 2 ^ Suc k" and ?b = "(2 * pos + 1) * 2 ^ k" and ?c = "(pos + 1) * 2 ^ Suc k"
  have split: "[a..<c] = [a..<b] @ [b..<c]" if "a \<le> b" "b \<le> c" for a b c :: nat
    using that upt_add_eq_append [of a b "c - b"] by simp
  have a: "?a < ?n" using assms by (simp add: less_level_width)
  have order: "?a \<le> ?b" "?b \<le> ?c" by (simp_all add: algebra_simps)
  have ranges: "2 * pos * 2 ^ k = ?a" "(2 * pos + 1 + 1) * 2 ^ k = ?c" by simp_all
  show ?thesis
  proof (cases "?b < ?n")
    case True
    then have "[?a..<min ?n ?c] = [?a..<min ?n ?b] @ [?b..<min ?n ?c]" using order by (intro split [THEN trans]) simp_all
    then show ?thesis using True by (simp only: matched_def less_level_width ranges if_True filter_append)
  next
    case False
    then have "min ?n ?c = min ?n ?b" using order by simp
    then show ?thesis using False by (simp only: matched_def less_level_width ranges if_False append_Nil2)
  qed
qed

lemma any_match_eq: "list_all (\<lambda>i. i < length ms) idxs \<Longrightarrow> any_match ms idxs = Ok (filter (\<lambda>i. ms ! i) idxs \<noteq> [])"
  by (induction idxs) (auto simp: index_def)

lemma any_match_matched:
  "any_match ms [pos * 2 ^ k..<min (length ms) (Suc pos * 2 ^ k)] = Ok (matched ms k pos \<noteq> [])"
  by (subst any_match_eq) (auto simp: list_all_iff matched_def)

lemma build_branch_segment:
  assumes "length ms = length xs" and "pos < level_width (length xs) k"
  shows "build_branch h xs ms k pos (hashes, flags) = Ok (hashes @ fst (segment h xs ms k pos), flags @ snd (segment h xs ms k pos))"
  using assms(2)
proof (induction k arbitrary: pos hashes flags)
  case 0
  then show ?case using assms(1) by (simp add: any_match_eq index_def)
next
  case (Suc k)
  show ?case
  proof (cases "matched ms (Suc k) pos = []")
    case True
    then show ?thesis
      by (simp add: Let_def any_match_matched [of ms, unfolded assms(1)] branch_hash_row [OF Suc.prems]
          del: branch_hash.simps row.simps power_Suc mult_Suc add_mult_distrib and_then_eq_Ok)
  next
    case False
    then show ?thesis
      by (simp add: Let_def any_match_matched [of ms, unfolded assms(1)] Suc.IH row_Suc_nth(1) [OF Suc.prems]
          del: row.simps power_Suc mult_Suc add_mult_distrib and_then_eq_Ok)
  qed
qed

lemma segment_length:
  assumes "length ms = length xs" and "pos < level_width (length xs) k"
  shows "length (fst (segment h xs ms k pos)) \<le> min (length xs) ((pos + 1) * 2 ^ k) - pos * 2 ^ k
    \<and> length (fst (segment h xs ms k pos)) \<le> length (snd (segment h xs ms k pos))"
  using assms(2)
proof (induction k arbitrary: pos)
  case (Suc k)
  have left: "2 * pos < level_width (length xs) k" by (rule row_Suc_nth(1) [OF Suc.prems])
  have a: "pos * 2 ^ Suc k < length xs" using Suc.prems by (simp add: less_level_width)
  let ?a = "pos * 2 ^ Suc k" and ?b = "(2 * pos + 1) * 2 ^ k" and ?c = "(pos + 1) * 2 ^ Suc k"
  have ranges: "2 * pos * 2 ^ k = ?a" "(2 * pos + 1 + 1) * 2 ^ k = ?c" "?a \<le> ?b" "?b \<le> ?c" "?a < ?c" by (simp_all add: algebra_simps)
  note l = Suc.IH [OF left, unfolded ranges(1)]
  show ?case
  proof (cases "2 * pos + 1 < level_width (length xs) k")
    case True
    then have "?b < length xs" by (simp add: less_level_width)
    then show ?thesis using l Suc.IH [OF True, unfolded ranges(2)] a ranges by (auto simp: Let_def min_def split: if_splits)
  next
    case False
    then have "length xs \<le> ?b" by (simp add: less_level_width)
    then show ?thesis using l a ranges False by (auto simp: Let_def min_def split: if_splits)
  qed
qed simp

text \<open>Marking the matched transactions.\<close>

definition mark_matched :: "bytes list \<Rightarrow> nat list \<Rightarrow> nat \<Rightarrow> nat \<Rightarrow> parser \<Rightarrow> parser" where
  "mark_matched xs idxs hashes_read matches_read s =
     s\<lparr>ps_all_hashes := ps_all_hashes s @ map ((!) xs) idxs,
       ps_all_matches := fold (\<lambda>i bits. bits[i := True]) idxs (ps_all_matches s),
       ps_matches_used := ps_matches_used s + matches_read, ps_hashes_used := ps_hashes_used s + hashes_read\<rparr>"

lemma mark_matched_append:
  "mark_matched xs js d e (mark_matched xs is b c s) = mark_matched xs (is @ js) (b + d) (c + e) s"
  by (simp add: mark_matched_def)

lemma length_mark_positions [simp]: "length (fold (\<lambda>i bits. bits[i := x]) is bits) = length bits"
  by (induction "is" arbitrary: bits) auto

lemma drop_eq_ConsD: "drop n xs = y # ys \<Longrightarrow> n < length xs \<and> xs ! n = y \<and> drop (Suc n) xs = ys"
  by (metis Cons_nth_drop_Suc drop_eq_Nil list.discI list.inject not_le)

lemma parse_branch_segment:
  assumes "length ms = length xs" and "pos < level_width (length xs) k"
    and "\<And>j. j < k \<Longrightarrow> distinct (row h xs j)"
    and "drop (ps_hashes_used s) hashes = fst (segment h xs ms k pos) @ hashes'"
    and "drop (ps_matches_used s) flags = snd (segment h xs ms k pos) @ flags'"
    and "length (ps_all_matches s) = length xs"
  shows "parse_branch h (length xs) hashes flags k pos s
    = Ok (row h xs k ! pos, mark_matched xs (matched ms k pos) (length (fst (segment h xs ms k pos))) (length (snd (segment h xs ms k pos))) s)"
  using assms(2-)
proof (induction k arbitrary: pos s hashes' flags')
  case 0
  have "ps_hashes_used s < length hashes" "hashes ! ps_hashes_used s = xs ! pos"
      "ps_matches_used s < length flags" "flags ! ps_matches_used s = ms ! pos"
    using drop_eq_ConsD [of "ps_hashes_used s" hashes] drop_eq_ConsD [of "ps_matches_used s" flags] "0.prems"(3,4) by simp_all
  then show ?case using "0.prems"(1,5) assms(1) by (simp add: parse_leaf_def index_def matched_0 mark_matched_def)
next
  case (Suc k)
  note r = row_Suc_nth(1) [OF Suc.prems(1)] row_Suc_nth(2) [OF Suc.prems(1), of h]
  let ?right = "2 * pos + 1 < level_width (length xs) k" and ?s1 = "s\<lparr>ps_matches_used := ps_matches_used s + 1\<rparr>"
  have used: "ps_matches_used s < length flags" "flags ! ps_matches_used s \<longleftrightarrow> matched ms (Suc k) pos \<noteq> []"
    using drop_eq_ConsD [of "ps_matches_used s" flags] Suc.prems(4) by (auto simp: Let_def split: if_splits)
  show ?case
  proof (cases "matched ms (Suc k) pos = []")
    case True
    then have "ps_hashes_used s < length hashes" "hashes ! ps_hashes_used s = row h xs (Suc k) ! pos"
      using drop_eq_ConsD [of "ps_hashes_used s" hashes] Suc.prems(3) by (simp_all del: row.simps)
    then show ?thesis using True used by (simp add: parse_leaf_def index_def mark_matched_def Let_def del: row.simps)
  next
    case False
    let ?l = "segment h xs ms k (2 * pos)" and ?r = "if ?right then segment h xs ms k (2 * pos + 1) else ([], [])"
    have seg: "segment h xs ms (Suc k) pos = (fst ?l @ fst ?r, True # snd ?l @ snd ?r)" using False by (simp add: Let_def)
    have dl: "drop (ps_hashes_used ?s1) hashes = fst ?l @ fst ?r @ hashes'" "drop (ps_matches_used ?s1) flags = snd ?l @ snd ?r @ flags'"
      using Suc.prems(3) drop_eq_ConsD [of "ps_matches_used s" flags] Suc.prems(4) unfolding seg by simp_all
    let ?s2 = "mark_matched xs (matched ms k (2 * pos)) (length (fst ?l)) (length (snd ?l)) ?s1"
    have left: "parse_branch h (length xs) hashes flags k (2 * pos) ?s1 = Ok (row h xs k ! (2 * pos), ?s2)"
      using Suc.prems(2,5) by (intro Suc.IH [OF r(1) _ dl]) simp_all
    have dr: "drop (ps_hashes_used ?s2) hashes = fst ?r @ hashes'" "drop (ps_matches_used ?s2) flags = snd ?r @ flags'"
      using arg_cong [OF dl(1), of "drop (length (fst ?l))"] arg_cong [OF dl(2), of "drop (length (snd ?l))"]
      by (simp_all add: mark_matched_def add.commute)
    show ?thesis
    proof (cases ?right)
      case True
      let ?s3 = "mark_matched xs (matched ms k (2 * pos + 1)) (length (fst ?r)) (length (snd ?r)) ?s2"
      have right: "parse_branch h (length xs) hashes flags k (2 * pos + 1) ?s2 = Ok (row h xs k ! (2 * pos + 1), ?s3)"
        using Suc.IH [OF True, of ?s2 hashes' flags'] Suc.prems(2,5) dr True by (simp add: mark_matched_def)
      have "row h xs k ! (2 * pos) \<noteq> row h xs k ! (2 * pos + 1)"
        using Suc.prems(2) [of k] r(1) True by (simp add: nth_eq_iff_index_eq length_row)
      moreover have "?s3 = mark_matched xs (matched ms (Suc k) pos) (length (fst (segment h xs ms (Suc k) pos)))
          (length (snd (segment h xs ms (Suc k) pos))) s"
        using True assms(1) Suc.prems(1) unfolding mark_matched_append seg by (simp add: matched_Suc mark_matched_def)
      ultimately show ?thesis using used False left right True unfolding r(2) by (simp add: Let_def del: segment.simps row.simps)
    next
      case no_right: False
      have "?s2 = mark_matched xs (matched ms (Suc k) pos) (length (fst (segment h xs ms (Suc k) pos)))
          (length (snd (segment h xs ms (Suc k) pos))) s"
        using no_right assms(1) Suc.prems(1) unfolding seg by (simp add: matched_Suc mark_matched_def)
      then show ?thesis using used False left no_right unfolding r(2) by (simp add: Let_def del: segment.simps row.simps)
    qed
  qed
qed

section \<open>Round trip\<close>

lemma nth_mark_positions:
  "i < length bits \<Longrightarrow> fold (\<lambda>i bits. bits[i := True]) is bits ! i \<longleftrightarrow> i \<in> set is \<or> bits ! i"
proof (induction "is" arbitrary: bits)
  case (Cons j js)
  then show ?case by (cases "j = i") auto
qed simp

lemma map_nth_filter: "length ms = length xs \<Longrightarrow> map ((!) xs) (filter ((!) ms) [0..<length xs]) = map fst (filter snd (zip xs ms))"
proof (induction xs ms rule: rev_induct2)
  case (4 x xs y ms)
  have "filter ((!) (ms @ [y])) [0..<length xs] = filter ((!) ms) [0..<length xs]" using 4(2) by (intro filter_cong) (auto simp: nth_append)
  moreover have prefix: "map ((!) (xs @ [x])) (filter ((!) ms) [0..<length xs]) = map ((!) xs) (filter ((!) ms) [0..<length xs])"
    by (intro map_cong) (auto simp: nth_append)
  moreover have "(ms @ [y]) ! length xs = y" using 4(2) by (simp add: nth_append)
  ultimately show ?case using 4 by (simp add: prefix del: map_eq_conv)
qed simp_all

text \<open>
  C13. A partial merkle tree proves what it is built for.  For the distinct transaction hashes of a
  block and any choice of matches, building returns a tree from which the parser recovers the merkle
  root of the block, exactly the matched hashes in order and the match flags, unless two of the strings
  hashed for the merkle root collide.
\<close>

theorem partial_tree_round_trip:
  assumes "xs \<noteq> []" and "length ms = length xs" and "distinct xs" and "\<forall>x \<in> set xs. length x = 32"
    and "\<not> collide h (merkle_nodes h xs) (merkle_nodes h xs)"
  shows "\<exists>tree root. build_partial_merkle_tree h xs ms = (Ok tree :: ('e, partial_merkle_tree) outcome) \<and> merkle_root h xs = Some root
    \<and> parse_partial_merkle_tree h tree = Ok \<lparr> pp_root = root, pp_hashes = map fst (filter snd (zip xs ms)), pp_flags = ms \<rparr>"
proof -
  let ?k = "tree_height (length xs)" and ?n = "length xs"
  let ?seg = "segment h xs ms ?k 0"
  note t = tree_height(1,2) [OF assms(1)] tree_height(3) [OF assms(1), of h]
  have pos: "0 < level_width ?n ?k" using t(1) by simp
  have top: "?n \<le> 2 ^ ?k" using less_level_width [of 1 ?n ?k] t(1) by simp
  then have m: "matched ms ?k 0 = filter ((!) ms) [0..<?n]" using assms(2) by (simp add: matched_def)
  have build: "build_partial_merkle_tree h xs ms
      = (Ok \<lparr> pm_tx_count = ?n, pm_hashes = fst ?seg, pm_flags = snd ?seg \<rparr> :: ('e, partial_merkle_tree) outcome)"
    using build_branch_segment [OF assms(2) pos, of h "[]" "[]", where 'a = 'e] by (simp add: build_partial_merkle_tree_def case_prod_beta)
  have rows: "distinct (row h xs j)" if "j < ?k" for j
    using row_distinct [OF assms(3-5), of j] t(2) that by auto
  let ?s = "\<lparr> ps_all_hashes = [], ps_all_matches = replicate ?n False, ps_matches_used = 0, ps_hashes_used = 0 \<rparr>"
  have parse: "parse_branch h ?n (fst ?seg) (snd ?seg) ?k 0 ?s
      = Ok (row h xs ?k ! 0, mark_matched xs (matched ms ?k 0) (length (fst ?seg)) (length (snd ?seg)) ?s)"
    by (rule parse_branch_segment [OF assms(2) pos rows, where hashes' = "[]" and flags' = "[]"]) simp_all
  have "fold (\<lambda>i bits. bits[i := True]) (matched ms ?k 0) (replicate ?n False) = ms"
    using assms(2) by (intro nth_equalityI) (auto simp: nth_mark_positions m)
  then have "parse_partial_merkle_tree h \<lparr> pm_tx_count = ?n, pm_hashes = fst ?seg, pm_flags = snd ?seg \<rparr>
      = Ok \<lparr> pp_root = row h xs ?k ! 0, pp_hashes = map fst (filter snd (zip xs ms)), pp_flags = ms \<rparr>"
    using segment_length [OF assms(2) pos, of h] assms(1) map_nth_filter [OF assms(2)]
    by (simp add: parse_partial_merkle_tree_def parse mark_matched_def m [symmetric] Let_def)
  then show ?thesis using build t(3) by blast
qed

theorem partial_tree_round_trip_witness:
  "\<exists>tree root. build_partial_merkle_tree padding_hasher [replicate 32 1, replicate 32 2] [False, True]
       = (Ok tree :: (unit, partial_merkle_tree) outcome)
     \<and> merkle_root padding_hasher [replicate 32 1, replicate 32 2] = Some root
     \<and> parse_partial_merkle_tree padding_hasher tree = Ok \<lparr> pp_root = root, pp_hashes = [replicate 32 2], pp_flags = [False, True] \<rparr>"
proof -
  let ?xs = "[replicate 32 1, replicate 32 2] :: bytes list"
  have "merkle_nodes padding_hasher ?xs = [replicate 32 1 @ replicate 32 2]"
    by (simp add: merkle_nodes.simps)
  then have "\<not> collide padding_hasher (merkle_nodes padding_hasher ?xs) (merkle_nodes padding_hasher ?xs)"
    by (simp add: collide_def)
  then show ?thesis using partial_tree_round_trip [of ?xs "[False, True]" padding_hasher, where 'e = unit] by simp
qed

end
