(* ===== verification/Memory_Pool.thy ===== *)
theory Memory_Pool
  imports Storage Script_Num "HOL-Library.AList" "HOL-Library.While_Combinator"
begin

text \<open>
  The memory pool: \<open>miner/src/memory_pool.rs\<close> and the fees of \<open>miner/src/fee.rs\<close>.

  A \<open>HashMap\<close> is an association list with distinct keys and a \<open>HashSet\<close> that is iterated over a list
  without repetitions; their orders stand for the unspecified iteration order.  A \<open>BTreeSet\<close> is the
  list of its elements, distinct under the order of its element type; its first element is the least
  one.  The comparisons compute in \<open>i64\<close> and panic on overflow.  The operations have no errors, only
  panics; the error type is the one of the storage, whose callers call the pool as well.

  \<open>sort_by\<close> is given an order that is not total, for which the standard library leaves the result open:
  it is a parameter \<open>sort_by\<close>, a function from the comparison and a list to a list.
\<close>

type_synonym 'a run = "(db_error, 'a) outcome"

definition u64_add :: "u64 \<Rightarrow> u64 \<Rightarrow> u64 run" where
  "u64_add a b = (if unat a + unat b < 2 ^ 64 then Ok (a + b) else Panic)"

definition i64_checked :: "int \<Rightarrow> int run" where
  "i64_checked v = (if i64_range v then Ok v else Panic)"


section \<open>Entries and orders\<close>

datatype ordering_strategy = ByTimestamp | ByTransactionScore | ByPackageScore

record entry =
  en_transaction :: transaction
  en_ancestors :: "bytes list"
  en_hash :: bytes
  en_size :: nat
  en_storage_index :: u64
  en_miner_fee :: u64
  en_miner_virtual_fee :: int
  en_package_size :: nat
  en_package_miner_fee :: u64
  en_package_miner_virtual_fee :: int

datatype cmp = Less | Equal | Greater

definition cmp_bytes :: "bytes \<Rightarrow> bytes \<Rightarrow> cmp" where
  "cmp_bytes a b = (if a = b then Equal else if ord_class.lexordp a b then Less else Greater)"

definition cmp_of :: "'a::linorder \<Rightarrow> 'a \<Rightarrow> cmp" where
  "cmp_of a b = (if a < b then Less else if a = b then Equal else Greater)"

record by_timestamp =
  bt_hash :: bytes
  bt_storage_index :: u64

record by_score =
  bs_hash :: bytes
  bs_size :: nat
  bs_miner_fee :: u64
  bs_miner_virtual_fee :: int

definition timestamp_entry :: "entry \<Rightarrow> by_timestamp" where
  "timestamp_entry e = \<lparr> bt_hash = en_hash e, bt_storage_index = en_storage_index e \<rparr>"

definition transaction_score_entry :: "entry \<Rightarrow> by_score" where
  "transaction_score_entry e =
     \<lparr> bs_hash = en_hash e, bs_size = en_size e, bs_miner_fee = en_miner_fee e, bs_miner_virtual_fee = en_miner_virtual_fee e \<rparr>"

definition package_score_entry :: "entry \<Rightarrow> by_score" where
  "package_score_entry e =
     \<lparr> bs_hash = en_hash e, bs_size = en_package_size e, bs_miner_fee = en_package_miner_fee e,
       bs_miner_virtual_fee = en_package_miner_virtual_fee e \<rparr>"

definition cmp_timestamp :: "by_timestamp \<Rightarrow> by_timestamp \<Rightarrow> cmp run" where
  "cmp_timestamp a b =
     (let order = cmp_of (bt_storage_index a) (bt_storage_index b) in
      Ok (if order \<noteq> Equal then order else cmp_bytes (bt_hash a) (bt_hash b)))"

text \<open>\<open>(a.fee as i64 + a.virtual_fee) * (b.size as i64)\<close>.\<close>

definition cross_score :: "by_score \<Rightarrow> by_score \<Rightarrow> int run" where
  "cross_score a b =
     and_then (i64_checked (sint (bs_miner_fee a) + bs_miner_virtual_fee a)) (\<lambda>v.
       i64_checked (v * sint (word_of_nat (bs_size b) :: u64)))"

definition cmp_score :: "by_score \<Rightarrow> by_score \<Rightarrow> cmp run" where
  "cmp_score a b =
     and_then (cross_score a b) (\<lambda>left.
     and_then (cross_score b a) (\<lambda>right.
       let order = cmp_of right left in
       Ok (if order \<noteq> Equal then order else cmp_bytes (bs_hash a) (bs_hash b))))"


section \<open>Ordered sets\<close>

fun set_contains :: "('a \<Rightarrow> 'a \<Rightarrow> cmp run) \<Rightarrow> 'a \<Rightarrow> 'a list \<Rightarrow> bool run" where
  "set_contains cmp x [] = Ok False"
| "set_contains cmp x (y # ys) = and_then (cmp x y) (\<lambda>o1. if o1 = Equal then Ok True else set_contains cmp x ys)"

definition set_insert :: "('a \<Rightarrow> 'a \<Rightarrow> cmp run) \<Rightarrow> 'a \<Rightarrow> 'a list \<Rightarrow> 'a list run" where
  "set_insert cmp x ys = and_then (set_contains cmp x ys) (\<lambda>found. Ok (if found then ys else ys @ [x]))"

fun set_remove :: "('a \<Rightarrow> 'a \<Rightarrow> cmp run) \<Rightarrow> 'a \<Rightarrow> 'a list \<Rightarrow> (bool \<times> 'a list) run" where
  "set_remove cmp x [] = Ok (False, [])"
| "set_remove cmp x (y # ys) =
     and_then (cmp x y) (\<lambda>o1.
       if o1 = Equal then Ok (True, ys)
       else and_then (set_remove cmp x ys) (\<lambda>(removed, ys). Ok (removed, y # ys)))"

text \<open>\<open>iter().nth(0)\<close>: the least element.\<close>

fun set_first :: "('a \<Rightarrow> 'a \<Rightarrow> cmp run) \<Rightarrow> 'a list \<Rightarrow> 'a option run" where
  "set_first cmp [] = Ok None"
| "set_first cmp (x # xs) =
     and_then (set_first cmp xs) (\<lambda>least.
       case least of
         None \<Rightarrow> Ok (Some x)
       | Some y \<Rightarrow> and_then (cmp x y) (\<lambda>o1. Ok (Some (if o1 = Greater then y else x))))"


section \<open>The storage\<close>

record ordered_references =
  or_by_storage_index :: "by_timestamp list"
  or_by_transaction_score :: "by_score list"
  or_by_package_score :: "by_score list"

record reference_storage =
  rs_by_input :: "(bytes \<times> bytes list) list"
  rs_pending :: "bytes list"
  rs_ordered :: ordered_references

type_synonym entries_by_hash = "(bytes \<times> entry) list"

record pool_storage =
  po_counter :: u64
  po_transactions_size_in_bytes :: nat
  po_by_hash :: entries_by_hash
  po_by_previous_output :: "(out_point \<times> bytes) list"
  po_references :: reference_storage

definition storage_new :: pool_storage where
  "storage_new =
     \<lparr> po_counter = 0, po_transactions_size_in_bytes = 0, po_by_hash = [], po_by_previous_output = [],
       po_references = \<lparr> rs_by_input = [], rs_pending = [],
         rs_ordered = \<lparr> or_by_storage_index = [], or_by_transaction_score = [], or_by_package_score = [] \<rparr> \<rparr> \<rparr>"

definition insert_to_orderings :: "entry \<Rightarrow> ordered_references \<Rightarrow> ordered_references run" where
  "insert_to_orderings e r =
     and_then (set_insert cmp_timestamp (timestamp_entry e) (or_by_storage_index r)) (\<lambda>a.
     and_then (set_insert cmp_score (transaction_score_entry e) (or_by_transaction_score r)) (\<lambda>b.
     and_then (set_insert cmp_score (package_score_entry e) (or_by_package_score r)) (\<lambda>c.
       Ok \<lparr> or_by_storage_index = a, or_by_transaction_score = b, or_by_package_score = c \<rparr>)))"

definition remove_from_orderings :: "entry \<Rightarrow> ordered_references \<Rightarrow> ordered_references run" where
  "remove_from_orderings e r =
     and_then (set_remove cmp_timestamp (timestamp_entry e) (or_by_storage_index r)) (\<lambda>(_, a).
     and_then (set_remove cmp_score (transaction_score_entry e) (or_by_transaction_score r)) (\<lambda>(_, b).
     and_then (set_remove cmp_score (package_score_entry e) (or_by_package_score r)) (\<lambda>(_, c).
       Ok \<lparr> or_by_storage_index = a, or_by_transaction_score = b, or_by_package_score = c \<rparr>)))"

definition has_in_pool_ancestors :: "bytes set option \<Rightarrow> entries_by_hash \<Rightarrow> transaction \<Rightarrow> bool" where
  "has_in_pool_ancestors removed by_hash t \<longleftrightarrow>
     list_ex (\<lambda>i. let hash = op_hash (ti_previous_output i) in
       map_of by_hash hash \<noteq> None \<and> \<not> (case removed of None \<Rightarrow> False | Some r \<Rightarrow> hash \<in> r)) (tx_inputs t)"

text \<open>The loop over the descendants of a removed entry.\<close>

fun release_descendants :: "bytes set option \<Rightarrow> entries_by_hash \<Rightarrow> bytes list \<Rightarrow> reference_storage \<Rightarrow> reference_storage run" where
  "release_descendants removed by_hash [] r = Ok r"
| "release_descendants removed by_hash (hash # hashes) r =
     (case map_of by_hash hash of
        None \<Rightarrow> release_descendants removed by_hash hashes r
      | Some descendant \<Rightarrow>
          if has_in_pool_ancestors removed by_hash (en_transaction descendant)
          then release_descendants removed by_hash hashes r
          else
            and_then
              (case map_of by_hash (en_hash descendant) of
                 Some e \<Rightarrow> insert_to_orderings e (rs_ordered r)
               | None \<Rightarrow> Ok (rs_ordered r)) (\<lambda>ordered.
            release_descendants removed by_hash hashes
              (r\<lparr>rs_pending := remove1 (en_hash descendant) (rs_pending r), rs_ordered := ordered\<rparr>)))"

definition references_remove :: "bytes set option \<Rightarrow> entries_by_hash \<Rightarrow> entry \<Rightarrow> reference_storage \<Rightarrow> reference_storage run" where
  "references_remove removed by_hash e r =
     and_then (release_descendants removed by_hash (case map_of (rs_by_input r) (en_hash e) of Some ds \<Rightarrow> ds | None \<Rightarrow> []) r) (\<lambda>r.
     and_then (remove_from_orderings e (rs_ordered r)) (\<lambda>ordered.
       Ok (r\<lparr>rs_by_input := AList.delete (en_hash e) (rs_by_input r), rs_pending := remove1 (en_hash e) (rs_pending r),
             rs_ordered := ordered\<rparr>)))"

definition add_input_reference :: "bytes \<Rightarrow> bytes \<Rightarrow> (bytes \<times> bytes list) list \<Rightarrow> (bytes \<times> bytes list) list" where
  "add_input_reference hash input_hash by_input =
     AList.update input_hash
       (List.insert hash (case map_of by_input input_hash of Some hs \<Rightarrow> hs | None \<Rightarrow> [])) by_input"

text \<open>The scores of the packages that an entry joins.\<close>

definition join_package :: "entry \<Rightarrow> bytes \<Rightarrow> pool_storage \<Rightarrow> pool_storage run" where
  "join_package e ancestor_hash s =
     (case map_of (po_by_hash s) ancestor_hash of
        None \<Rightarrow> Ok s
      | Some ancestor \<Rightarrow>
          let ordered = rs_ordered (po_references s) in
          and_then (set_remove cmp_score (package_score_entry ancestor) (or_by_package_score ordered)) (\<lambda>(removed, scores).
          and_then (u64_add (en_package_miner_fee ancestor) (en_package_miner_fee e)) (\<lambda>fee.
          and_then (i64_checked (en_package_miner_virtual_fee ancestor + en_package_miner_virtual_fee e)) (\<lambda>virtual_fee.
            let ancestor = ancestor\<lparr>en_package_size := en_package_size ancestor + en_size e, en_package_miner_fee := fee,
                  en_package_miner_virtual_fee := virtual_fee\<rparr> in
            and_then (if removed then set_insert cmp_score (package_score_entry ancestor) scores else Ok scores) (\<lambda>scores.
              Ok (s\<lparr>po_by_hash := AList.update ancestor_hash ancestor (po_by_hash s),
                    po_references := (po_references s)\<lparr>rs_ordered := ordered\<lparr>or_by_package_score := scores\<rparr>\<rparr>\<rparr>))))))"

fun join_packages :: "entry \<Rightarrow> bytes list \<Rightarrow> pool_storage \<Rightarrow> pool_storage run" where
  "join_packages e [] s = Ok s"
| "join_packages e (hash # hashes) s = and_then (join_package e hash s) (join_packages e hashes)"

fun spend_inputs :: "bytes \<Rightarrow> transaction_input list \<Rightarrow> (out_point \<times> bytes) list \<Rightarrow> (out_point \<times> bytes) list run" where
  "spend_inputs hash [] spent = Ok spent"
| "spend_inputs hash (i # is) spent =
     (if map_of spent (ti_previous_output i) \<noteq> None then Panic
      else spend_inputs hash is (AList.update (ti_previous_output i) hash spent))"

definition storage_insert :: "entry \<Rightarrow> pool_storage \<Rightarrow> pool_storage run" where
  "storage_insert e s =
     (let inputs = tx_inputs (en_transaction e);
          s = s\<lparr>po_transactions_size_in_bytes := po_transactions_size_in_bytes s + en_size e,
                po_references := (po_references s)\<lparr>rs_by_input :=
                  fold (\<lambda>i. add_input_reference (en_hash e) (op_hash (ti_previous_output i))) inputs (rs_by_input (po_references s))\<rparr>\<rparr> in
      and_then (join_packages e (en_ancestors e) s) (\<lambda>s.
      and_then
        (if has_in_pool_ancestors None (po_by_hash s) (en_transaction e)
         then Ok ((po_references s)\<lparr>rs_pending := List.insert (en_hash e) (rs_pending (po_references s))\<rparr>)
         else and_then (insert_to_orderings e (rs_ordered (po_references s))) (\<lambda>ordered.
           Ok ((po_references s)\<lparr>rs_ordered := ordered\<rparr>))) (\<lambda>references.
      and_then (spend_inputs (en_hash e) inputs (po_by_previous_output s)) (\<lambda>spent.
        Ok (s\<lparr>po_references := references, po_by_previous_output := spent,
              po_by_hash := AList.update (en_hash e) e (po_by_hash s)\<rparr>)))))"

definition get_by_hash :: "pool_storage \<Rightarrow> bytes \<Rightarrow> entry option" where
  "get_by_hash s hash = map_of (po_by_hash s) hash"

definition storage_contains :: "pool_storage \<Rightarrow> bytes \<Rightarrow> bool" where
  "storage_contains s hash \<longleftrightarrow> map_of (po_by_hash s) hash \<noteq> None"

definition is_output_spent :: "pool_storage \<Rightarrow> out_point \<Rightarrow> bool" where
  "is_output_spent s prevout \<longleftrightarrow> map_of (po_by_previous_output s) prevout \<noteq> None"

definition first_with_strategy :: "ordering_strategy \<Rightarrow> ordered_references \<Rightarrow> bytes option run" where
  "first_with_strategy strategy r =
     (case strategy of
        ByTimestamp \<Rightarrow> and_then (set_first cmp_timestamp (or_by_storage_index r)) (\<lambda>x. Ok (map_option bt_hash x))
      | ByTransactionScore \<Rightarrow> and_then (set_first cmp_score (or_by_transaction_score r)) (\<lambda>x. Ok (map_option bs_hash x))
      | ByPackageScore \<Rightarrow> and_then (set_first cmp_score (or_by_package_score r)) (\<lambda>x. Ok (map_option bs_hash x)))"

definition read_with_strategy :: "ordering_strategy \<Rightarrow> pool_storage \<Rightarrow> bytes option run" where
  "read_with_strategy strategy s = first_with_strategy strategy (rs_ordered (po_references s))"

fun unspend_inputs :: "bytes \<Rightarrow> transaction_input list \<Rightarrow> (out_point \<times> bytes) list \<Rightarrow> (out_point \<times> bytes) list run" where
  "unspend_inputs hash [] spent = Ok spent"
| "unspend_inputs hash (i # is) spent =
     (if map_of spent (ti_previous_output i) = Some hash
      then unspend_inputs hash is (AList.delete (ti_previous_output i) spent) else Panic)"

definition storage_remove_by_hash :: "bytes \<Rightarrow> pool_storage \<Rightarrow> (entry option \<times> pool_storage) run" where
  "storage_remove_by_hash hash s =
     (case map_of (po_by_hash s) hash of
        None \<Rightarrow> Ok (None, s)
      | Some e \<Rightarrow>
          let by_hash = AList.delete hash (po_by_hash s) in
          if en_size e > po_transactions_size_in_bytes s then Panic
          else
            and_then (unspend_inputs hash (tx_inputs (en_transaction e)) (po_by_previous_output s)) (\<lambda>spent.
            and_then (references_remove None by_hash e (po_references s)) (\<lambda>references.
              Ok (Some e, s\<lparr>po_by_hash := by_hash, po_by_previous_output := spent, po_references := references,
                            po_transactions_size_in_bytes := po_transactions_size_in_bytes s - en_size e\<rparr>))))"

definition remove_with_strategy :: "ordering_strategy \<Rightarrow> pool_storage \<Rightarrow> (indexed_transaction option \<times> pool_storage) run" where
  "remove_with_strategy strategy s =
     and_then (read_with_strategy strategy s) (\<lambda>top.
       case top of
         None \<Rightarrow> Ok (None, s)
       | Some hash \<Rightarrow>
           and_then (storage_remove_by_hash hash s) (\<lambda>(e, s).
             case e of
               None \<Rightarrow> Panic
             | Some e \<Rightarrow> Ok (Some \<lparr> it_hash = en_hash e, it_raw = en_transaction e \<rparr>, s)))"

fun remove_n_loop :: "nat \<Rightarrow> ordering_strategy \<Rightarrow> indexed_transaction list \<Rightarrow> pool_storage \<Rightarrow> (indexed_transaction list \<times> pool_storage) run" where
  "remove_n_loop 0 strategy result s = Ok (result, s)"
| "remove_n_loop (Suc n) strategy result s =
     and_then (remove_with_strategy strategy s) (\<lambda>(t, s).
       case t of
         Some t \<Rightarrow> remove_n_loop n strategy (result @ [t]) s
       | None \<Rightarrow> Ok (result, s))"

definition remove_n_with_strategy :: "nat \<Rightarrow> ordering_strategy \<Rightarrow> pool_storage \<Rightarrow> (indexed_transaction list \<times> pool_storage) run" where
  "remove_n_with_strategy n strategy s = remove_n_loop n strategy [] s"



section \<open>Virtual fees\<close>

definition change_ancestor_fee :: "int \<Rightarrow> bytes \<Rightarrow> pool_storage \<Rightarrow> pool_storage run" where
  "change_ancestor_fee change ancestor_hash s =
     (case map_of (po_by_hash s) ancestor_hash of
        None \<Rightarrow> Ok s
      | Some ancestor \<Rightarrow>
          let ordered = rs_ordered (po_references s) in
          and_then (set_remove cmp_score (package_score_entry ancestor) (or_by_package_score ordered)) (\<lambda>(removed, scores).
          and_then (i64_checked (en_package_miner_virtual_fee ancestor + change)) (\<lambda>virtual_fee.
            let ancestor = ancestor\<lparr>en_package_miner_virtual_fee := virtual_fee\<rparr> in
            and_then (if removed then set_insert cmp_score (package_score_entry ancestor) scores else Ok scores) (\<lambda>scores.
              Ok (s\<lparr>po_by_hash := AList.update ancestor_hash ancestor (po_by_hash s),
                    po_references := (po_references s)\<lparr>rs_ordered := ordered\<lparr>or_by_package_score := scores\<rparr>\<rparr>\<rparr>)))))"

fun change_ancestor_fees :: "int \<Rightarrow> bytes list \<Rightarrow> pool_storage \<Rightarrow> pool_storage run" where
  "change_ancestor_fees change [] s = Ok s"
| "change_ancestor_fees change (hash # hashes) s = and_then (change_ancestor_fee change hash s) (change_ancestor_fees change hashes)"

definition storage_set_virtual_fee :: "bytes \<Rightarrow> int \<Rightarrow> pool_storage \<Rightarrow> pool_storage run" where
  "storage_set_virtual_fee hash virtual_fee s =
     (case map_of (po_by_hash s) hash of
        None \<Rightarrow> Ok s
      | Some e \<Rightarrow>
          let ordered = rs_ordered (po_references s) in
          and_then (set_remove cmp_score (package_score_entry e) (or_by_package_score ordered)) (\<lambda>(in_packages, packages).
          and_then (set_remove cmp_score (transaction_score_entry e) (or_by_transaction_score ordered)) (\<lambda>(in_transactions, transactions).
          and_then (i64_checked (virtual_fee - en_miner_virtual_fee e)) (\<lambda>change.
            let e' = e\<lparr>en_miner_virtual_fee := virtual_fee\<rparr> in
            and_then (if in_transactions then set_insert cmp_score (transaction_score_entry e') transactions else Ok transactions) (\<lambda>transactions.
            and_then (if in_packages then set_insert cmp_score (package_score_entry e') packages else Ok packages) (\<lambda>packages.
              let s = s\<lparr>po_by_hash := AList.update hash e' (po_by_hash s),
                        po_references := (po_references s)\<lparr>rs_ordered := ordered\<lparr>or_by_transaction_score := transactions,
                          or_by_package_score := packages\<rparr>\<rparr>\<rparr> in
              if change \<noteq> 0 then change_ancestor_fees change (en_ancestors e) s else Ok s))))))"


section \<open>Double spends\<close>

datatype double_spend_check =
    NoDoubleSpend
  | DoubleSpend bytes bytes u32
  | NonFinalDoubleSpend "out_point set" "out_point set"

definition outputs_of :: "bytes \<Rightarrow> transaction \<Rightarrow> out_point list" where
  "outputs_of hash t = map (\<lambda>idx. \<lparr> op_hash = hash, op_index = word_of_nat idx \<rparr>) [0..<length (tx_outputs t)]"

text \<open>
  The loop over the outputs that depend on a spent one.  It follows spenders in the pool and ends when
  they have no cycle; \<open>None\<close> is running forever.
\<close>

partial_function (option) dependent_spends ::
    "pool_storage \<Rightarrow> out_point list \<Rightarrow> out_point set \<Rightarrow> out_point set run option" where
  "dependent_spends s queue spends =
     (case queue of
        [] \<Rightarrow> Some (Ok spends)
      | prevout # queue \<Rightarrow>
          (case map_of (po_by_previous_output s) prevout of
             None \<Rightarrow> dependent_spends s queue spends
           | Some hash \<Rightarrow>
               (case map_of (po_by_hash s) hash of
                  None \<Rightarrow> Some Panic
                | Some e \<Rightarrow>
                    let outputs = outputs_of hash (en_transaction e) in
                    dependent_spends s (queue @ outputs) (spends \<union> set outputs))))"

fun double_spend_loop ::
    "pool_storage \<Rightarrow> transaction_input list \<Rightarrow> out_point set \<Rightarrow> out_point set \<Rightarrow> double_spend_check run option" where
  "double_spend_loop s [] double spends =
     Some (Ok (if double = {} then NoDoubleSpend else NonFinalDoubleSpend double spends))"
| "double_spend_loop s (i # is) double spends =
     (let prevout = ti_previous_output i in
      case map_of (po_by_previous_output s) prevout of
        None \<Rightarrow> double_spend_loop s is double spends
      | Some hash \<Rightarrow>
          (case map_of (po_by_hash s) hash of
             None \<Rightarrow> Some Panic
           | Some e \<Rightarrow>
               if tx_is_final (en_transaction e) then Some (Ok (DoubleSpend hash (op_hash prevout) (op_index prevout)))
               else Option.bind (dependent_spends s [prevout] spends) (\<lambda>r.
                 case r of
                   Ok spends \<Rightarrow> double_spend_loop s is (Set.insert prevout double) spends
                 | Err e \<Rightarrow> Some (Err e)
                 | Panic \<Rightarrow> Some Panic)))"

definition check_double_spend :: "pool_storage \<Rightarrow> transaction \<Rightarrow> double_spend_check run option" where
  "check_double_spend s t = double_spend_loop s (tx_inputs t) {} {}"


section \<open>Removing with descendants\<close>

lemma storage_remove_smaller:
  assumes "storage_remove_by_hash hash s = Ok (Some e, s')"
  shows "length (po_by_hash s') < length (po_by_hash s)"
proof -
  have "hash \<in> fst ` set (po_by_hash s)" and s': "po_by_hash s' = AList.delete hash (po_by_hash s)"
    using assms by (auto simp: storage_remove_by_hash_def Let_def dest: map_of_SomeD split: option.splits if_splits intro: rev_image_eqI)
  then show ?thesis using length_filter_less by (fastforce simp: AList.delete_eq)
qed

text \<open>The loop of \<open>remove_by_prevout\<close>: every round takes an element from the queue or an entry from the pool.\<close>

function remove_by_prevout_loop ::
    "out_point list \<Rightarrow> indexed_transaction list \<Rightarrow> pool_storage \<Rightarrow> (indexed_transaction list \<times> pool_storage) run" where
  "remove_by_prevout_loop [] removed s = Ok (removed, s)"
| "remove_by_prevout_loop (prevout # queue) removed s =
     (case map_of (po_by_previous_output s) prevout of
        None \<Rightarrow> remove_by_prevout_loop queue removed s
      | Some hash \<Rightarrow>
          (case storage_remove_by_hash hash s of
             Ok (Some e, s') \<Rightarrow>
               remove_by_prevout_loop (queue @ outputs_of hash (en_transaction e))
                 (removed @ [\<lparr> it_hash = en_hash e, it_raw = en_transaction e \<rparr>]) s'
           | _ \<Rightarrow> Panic))"
  by pat_completeness auto
termination
  by (relation "measures [\<lambda>(queue, removed, s). length (po_by_hash s), \<lambda>(queue, removed, s). length queue]")
    (auto dest: storage_remove_smaller)

definition remove_by_prevout :: "out_point \<Rightarrow> pool_storage \<Rightarrow> (indexed_transaction list option \<times> pool_storage) run" where
  "remove_by_prevout prevout s =
     and_then (remove_by_prevout_loop [prevout] [] s) (\<lambda>(removed, s). Ok (Some removed, s))"

text \<open>
  All transactions that depend on those of a stack, by the references of the pool.  A hash enters the
  set once; the stack shrinks otherwise.
\<close>

definition descendants_step :: "(bytes \<times> bytes list) list \<Rightarrow> bytes list \<times> bytes list \<Rightarrow> bytes list \<times> bytes list" where
  "descendants_step by_input = (\<lambda>(descendants, all_descendants).
     let descendant = last descendants; rest = butlast descendants in
     if descendant \<in> set all_descendants then (rest, all_descendants)
     else (rest @ (case map_of by_input descendant of Some ds \<Rightarrow> ds | None \<Rightarrow> []), all_descendants @ [descendant]))"

definition all_descendants :: "(bytes \<times> bytes list) list \<Rightarrow> bytes list \<Rightarrow> bytes list option" where
  "all_descendants by_input descendants =
     map_option snd (while_option (\<lambda>(descendants, _). descendants \<noteq> []) (descendants_step by_input) (descendants, []))"

type_synonym sorter = "(bytes \<Rightarrow> bytes \<Rightarrow> cmp) \<Rightarrow> bytes list \<Rightarrow> bytes list"

definition cmp_ancestors :: "entries_by_hash \<Rightarrow> bytes \<Rightarrow> bytes \<Rightarrow> cmp" where
  "cmp_ancestors by_hash l r =
     (case (map_of by_hash l, map_of by_hash r) of
        (Some left, Some right) \<Rightarrow>
          if en_hash right \<in> set (en_ancestors left) then Greater
          else if en_hash left \<in> set (en_ancestors right) then Less
          else Equal
      | _ \<Rightarrow> Equal)"

fun remove_all_by_hash :: "bytes list \<Rightarrow> pool_storage \<Rightarrow> (indexed_transaction list \<times> pool_storage) run" where
  "remove_all_by_hash [] s = Ok ([], s)"
| "remove_all_by_hash (hash # hashes) s =
     and_then (storage_remove_by_hash hash s) (\<lambda>(e, s).
     and_then (remove_all_by_hash hashes s) (\<lambda>(removed, s).
       Ok ((case e of Some e \<Rightarrow> [\<lparr> it_hash = en_hash e, it_raw = en_transaction e \<rparr>] | None \<Rightarrow> []) @ removed, s)))"

text \<open>
  Sorting two or more elements compares each of them at least once, and the comparison panics on a
  hash that is not in the pool.
\<close>

definition remove_by_parent_hash ::
    "sorter \<Rightarrow> bytes \<Rightarrow> pool_storage \<Rightarrow> (indexed_transaction list option \<times> pool_storage) run option" where
  "remove_by_parent_hash sort_by hash s =
     (case map_of (rs_by_input (po_references s)) hash of
        None \<Rightarrow> Some (Ok (None, s))
      | Some descendants \<Rightarrow>
          map_option (\<lambda>all.
            if length all \<ge> 2 \<and> list_ex (\<lambda>d. map_of (po_by_hash s) d = None) all then Panic
            else and_then (remove_all_by_hash (sort_by (cmp_ancestors (po_by_hash s)) all) s) (\<lambda>(removed, s). Ok (Some removed, s)))
            (all_descendants (rs_by_input (po_references s)) descendants))"


section \<open>The memory pool\<close>

record memory_pool =
  mp_storage :: pool_storage
  mp_accept_zero_fee_transactions :: bool

definition pool_new :: memory_pool where
  "pool_new = \<lparr> mp_storage = storage_new, mp_accept_zero_fee_transactions = False \<rparr>"

definition accept_zero_fee_transactions :: "memory_pool \<Rightarrow> memory_pool" where
  "accept_zero_fee_transactions p = p\<lparr>mp_accept_zero_fee_transactions := True\<rparr>"

definition pool_outputs :: "memory_pool \<Rightarrow> output_provider" where
  "pool_outputs p =
     \<lparr> transaction_output = (\<lambda>prevout _.
         case map_of (po_by_hash (mp_storage p)) (op_hash prevout) of
           None \<Rightarrow> None
         | Some e \<Rightarrow>
             let outputs = tx_outputs (en_transaction e); idx = unat (op_index prevout) in
             if idx < length outputs then Some (outputs ! idx) else None),
       is_spent = is_output_spent (mp_storage p) \<rparr>"

fun sum_u64 :: "u64 \<Rightarrow> u64 list \<Rightarrow> u64 run" where
  "sum_u64 acc [] = Ok acc"
| "sum_u64 acc (v # vs) = and_then (u64_add acc v) (\<lambda>acc. sum_u64 acc vs)"

definition transaction_fee :: "output_provider \<Rightarrow> transaction \<Rightarrow> u64 run" where
  "transaction_fee store t =
     and_then (sum_u64 0 (map (\<lambda>i. case transaction_output store (ti_previous_output i) usize_max of
       Some out \<Rightarrow> to_value out | None \<Rightarrow> 0) (tx_inputs t))) (\<lambda>input_value.
     and_then (sum_u64 0 (map to_value (tx_outputs t))) (\<lambda>output_value.
       Ok (if output_value \<le> input_value then input_value - output_value else 0)))"

definition transaction_fee_rate :: "output_provider \<Rightarrow> transaction \<Rightarrow> u64 run" where
  "transaction_fee_rate store t =
     and_then (transaction_fee store t) (\<lambda>fee.
       let size = word_of_nat (length (serialize_transaction 0 t)) in
       if size = 0 then Panic else Ok (fee div size))"

type_synonym fee_calculator = "memory_pool \<Rightarrow> transaction \<Rightarrow> u64 run"

definition calculate_fee :: "output_provider \<Rightarrow> fee_calculator" where
  "calculate_fee store p t = transaction_fee (duplex store (pool_outputs p)) t"

definition get_ancestors :: "memory_pool \<Rightarrow> transaction \<Rightarrow> bytes list" where
  "get_ancestors p t =
     fold (\<lambda>i ancestors.
       case map_of (po_by_hash (mp_storage p)) (op_hash (ti_previous_output i)) of
         None \<Rightarrow> ancestors
       | Some e \<Rightarrow> fold List.insert (en_ancestors e) (List.insert (en_hash e) ancestors)) (tx_inputs t) []"

definition make_entry :: "fee_calculator \<Rightarrow> indexed_transaction \<Rightarrow> memory_pool \<Rightarrow> (entry option \<times> memory_pool) run" where
  "make_entry fc t p =
     (let ancestors = get_ancestors p (it_raw t); sz = length (serialize_transaction 0 (it_raw t)) in
      and_then (u64_add (po_counter (mp_storage p)) 1) (\<lambda>storage_index.
        let p = p\<lparr>mp_storage := (mp_storage p)\<lparr>po_counter := storage_index\<rparr>\<rparr> in
        and_then (fc p (it_raw t)) (\<lambda>miner_fee.
          if \<not> mp_accept_zero_fee_transactions p \<and> miner_fee = 0 then Ok (None, p)
          else Ok (Some \<lparr> en_transaction = it_raw t, en_ancestors = ancestors, en_hash = it_hash t, en_size = sz,
                 en_storage_index = storage_index, en_miner_fee = miner_fee, en_miner_virtual_fee = 0,
                 en_package_size = sz, en_package_miner_fee = miner_fee, en_package_miner_virtual_fee = 0 \<rparr>, p))))"

definition insert_entry :: "fee_calculator \<Rightarrow> indexed_transaction \<Rightarrow> memory_pool \<Rightarrow> memory_pool run" where
  "insert_entry fc t p =
     and_then (make_entry fc t p) (\<lambda>(e, p).
       case e of
         None \<Rightarrow> Ok p
       | Some e \<Rightarrow> and_then (storage_insert e (mp_storage p)) (\<lambda>s. Ok (p\<lparr>mp_storage := s\<rparr>)))"

fun insert_entries :: "fee_calculator \<Rightarrow> indexed_transaction list \<Rightarrow> memory_pool \<Rightarrow> memory_pool run" where
  "insert_entries fc [] p = Ok p"
| "insert_entries fc (t # ts) p = and_then (insert_entry fc t p) (insert_entries fc ts)"

definition insert_verified :: "sorter \<Rightarrow> fee_calculator \<Rightarrow> indexed_transaction \<Rightarrow> memory_pool \<Rightarrow> memory_pool run option" where
  "insert_verified sort_by fc t p =
     (case make_entry fc t p of
        Ok (None, p) \<Rightarrow> Some (Ok p)
      | Ok (Some e, p) \<Rightarrow>
          map_option (\<lambda>r.
            and_then r (\<lambda>(descendants, s).
            and_then (storage_insert e s) (\<lambda>s.
              insert_entries fc (case descendants of Some ds \<Rightarrow> ds | None \<Rightarrow> []) (p\<lparr>mp_storage := s\<rparr>))))
            (remove_by_parent_hash sort_by (en_hash e) (mp_storage p))
      | Err x \<Rightarrow> Some (Err x)
      | Panic \<Rightarrow> Some Panic)"

definition pool_remove_by_hash :: "bytes \<Rightarrow> memory_pool \<Rightarrow> (indexed_transaction option \<times> memory_pool) run" where
  "pool_remove_by_hash hash p =
     and_then (storage_remove_by_hash hash (mp_storage p)) (\<lambda>(e, s).
       Ok (map_option (\<lambda>e. \<lparr> it_hash = en_hash e, it_raw = en_transaction e \<rparr>) e, p\<lparr>mp_storage := s\<rparr>))"

definition pool_remove_by_prevout :: "out_point \<Rightarrow> memory_pool \<Rightarrow> (indexed_transaction list option \<times> memory_pool) run" where
  "pool_remove_by_prevout prevout p =
     and_then (remove_by_prevout prevout (mp_storage p)) (\<lambda>(removed, s). Ok (removed, p\<lparr>mp_storage := s\<rparr>))"

definition pool_remove_n_with_strategy :: "nat \<Rightarrow> ordering_strategy \<Rightarrow> memory_pool \<Rightarrow> (indexed_transaction list \<times> memory_pool) run" where
  "pool_remove_n_with_strategy n strategy p =
     and_then (remove_n_with_strategy n strategy (mp_storage p)) (\<lambda>(removed, s). Ok (removed, p\<lparr>mp_storage := s\<rparr>))"

definition pool_transaction :: "memory_pool \<Rightarrow> bytes \<Rightarrow> indexed_transaction option" where
  "pool_transaction p hash =
     map_option (\<lambda>e. \<lparr> it_hash = hash, it_raw = en_transaction e \<rparr>) (get_by_hash (mp_storage p) hash)"

definition pool_information :: "memory_pool \<Rightarrow> nat \<times> nat" where
  "pool_information p = (length (po_by_hash (mp_storage p)), po_transactions_size_in_bytes (mp_storage p))"

definition get_transactions_ids :: "memory_pool \<Rightarrow> bytes list" where
  "get_transactions_ids p = map fst (po_by_hash (mp_storage p))"


section \<open>Iterating over the pool\<close>

record pool_iterator =
  it_references :: reference_storage
  it_removed :: "bytes set"

definition iterator_new :: "memory_pool \<Rightarrow> pool_iterator" where
  "iterator_new p = \<lparr> it_references = po_references (mp_storage p), it_removed = {} \<rparr>"

definition iterator_next :: "memory_pool \<Rightarrow> ordering_strategy \<Rightarrow> pool_iterator \<Rightarrow> (entry option \<times> pool_iterator) run" where
  "iterator_next p strategy it =
     and_then (first_with_strategy strategy (rs_ordered (it_references it))) (\<lambda>top.
       case top of
         None \<Rightarrow> Ok (None, it)
       | Some hash \<Rightarrow>
           (case map_of (po_by_hash (mp_storage p)) hash of
              None \<Rightarrow> Panic
            | Some e \<Rightarrow>
                let removed = Set.insert hash (it_removed it) in
                and_then (references_remove (Some removed) (po_by_hash (mp_storage p)) e (it_references it)) (\<lambda>references.
                  Ok (Some e, \<lparr> it_references = references, it_removed = removed \<rparr>))))"

fun iterate_pool :: "nat \<Rightarrow> memory_pool \<Rightarrow> ordering_strategy \<Rightarrow> pool_iterator \<Rightarrow> entry list run" where
  "iterate_pool 0 p strategy it = Ok []"
| "iterate_pool (Suc n) p strategy it =
     and_then (iterator_next p strategy it) (\<lambda>(e, it).
       case e of
         None \<Rightarrow> Ok []
       | Some e \<Rightarrow> and_then (iterate_pool n p strategy it) (\<lambda>es. Ok (e # es)))"

definition read_n_with_strategy :: "nat \<Rightarrow> ordering_strategy \<Rightarrow> memory_pool \<Rightarrow> bytes list run" where
  "read_n_with_strategy n strategy p =
     and_then (iterate_pool n p strategy (iterator_new p)) (\<lambda>es. Ok (map en_hash es))"

end
