(* ===== verification/Memory_Pool_Props.thy ===== *)
theory Memory_Pool_Props
  imports Memory_Pool
begin

text \<open>
  The invariant of the memory pool (\<open>pool_ok\<close>: its indexes agree with its entries) and what removing does
  to it.  The ordered sets of the pool are sets of entries told apart by their hashes (the locale
  \<open>ordered_set\<close>, interpreted on both orders of the pool); insertion into and removal from the orderings
  keep them; descendants enter the orderings once they have no parent left in the pool; removing an entry
  keeps the invariant, and removing by a strategy takes ancestors first.
\<close>

section \<open>Ordered sets\<close>

text \<open>
  The contract of the order of an ordered set, on the elements whose comparison does not overflow:
  equal elements have the same key.
\<close>

locale ordered_set =
  fixes cmp :: "'a \<Rightarrow> 'a \<Rightarrow> cmp run" and key :: "'a \<Rightarrow> 'k" and carrier :: "'a set"
  assumes cmp_Ok: "x \<in> carrier \<Longrightarrow> y \<in> carrier \<Longrightarrow> \<exists>o1. cmp x y = Ok o1"
    and cmp_refl: "x \<in> carrier \<Longrightarrow> cmp x x = Ok Equal"
    and cmp_Equal: "cmp x y = Ok Equal \<Longrightarrow> key x = key y"
begin

lemma cmp_eq:
  assumes "x \<in> carrier" and "y \<in> carrier" and "inj_on key {x, y}"
  shows "\<exists>o1. cmp x y = Ok o1 \<and> (o1 = Equal \<longleftrightarrow> x = y)"
proof -
  obtain o1 where "cmp x y = Ok o1" using cmp_Ok assms(1,2) by blast
  moreover have "o1 = Equal \<longleftrightarrow> x = y"
    using calculation cmp_refl [OF assms(1)] cmp_Equal [of x y] assms(3) by (auto simp: inj_on_def)
  ultimately show ?thesis by blast
qed

lemma set_contains_eq:
  assumes "x \<in> carrier" and "set ys \<subseteq> carrier" and "inj_on key (Set.insert x (set ys))"
  shows "set_contains cmp x ys = Ok (x \<in> set ys)"
  using assms(2,3)
proof (induction ys)
  case (Cons y ys)
  obtain o1 where "cmp x y = Ok o1" "o1 = Equal \<longleftrightarrow> x = y"
    using cmp_eq [OF assms(1), of y] Cons.prems by (auto intro: inj_on_subset)
  moreover have "set_contains cmp x ys = Ok (x \<in> set ys)"
    using Cons by (auto intro!: Cons.IH intro: inj_on_subset)
  ultimately show ?case by auto
qed simp

lemma set_insert_eq:
  assumes "x \<in> carrier" and "set ys \<subseteq> carrier" and "inj_on key (Set.insert x (set ys))"
  shows "set_insert cmp x ys = Ok (if x \<in> set ys then ys else ys @ [x])"
  using set_contains_eq [OF assms] by (simp add: set_insert_def)

lemma set_remove_eq:
  assumes "x \<in> carrier" and "set ys \<subseteq> carrier" and "inj_on key (Set.insert x (set ys))"
  shows "set_remove cmp x ys = Ok (x \<in> set ys, remove1 x ys)"
  using assms(2,3)
proof (induction ys)
  case (Cons y ys)
  obtain o1 where "cmp x y = Ok o1" "o1 = Equal \<longleftrightarrow> x = y"
    using cmp_eq [OF assms(1), of y] Cons.prems by (auto intro: inj_on_subset)
  moreover have "set_remove cmp x ys = Ok (x \<in> set ys, remove1 x ys)"
    using Cons by (auto intro!: Cons.IH intro: inj_on_subset)
  ultimately show ?case by auto
qed simp

lemma set_first_eq:
  assumes "set ys \<subseteq> carrier"
  shows "\<exists>least. set_first cmp ys = Ok least \<and> (least = None \<longleftrightarrow> ys = []) \<and> (\<forall>y. least = Some y \<longrightarrow> y \<in> set ys)"
  using assms
proof (induction ys)
  case (Cons x ys)
  then obtain least where least: "set_first cmp ys = Ok least" "\<forall>y. least = Some y \<longrightarrow> y \<in> set ys" by auto
  show ?case
  proof (cases least)
    case (Some y)
    then obtain o1 where "cmp x y = Ok o1" using cmp_Ok least(2) Cons.prems by fastforce
    then show ?thesis using least Some by auto
  qed (use least in simp)
qed simp

end

interpretation timestamps: ordered_set cmp_timestamp bt_hash UNIV
  by unfold_locales (auto simp: cmp_timestamp_def cmp_of_def cmp_bytes_def Let_def split: if_splits)

text \<open>Scores whose comparison stays within 64 bits.\<close>

definition score_ok :: "by_score \<Rightarrow> bool" where
  "score_ok x \<longleftrightarrow> bs_size x < 2 ^ 22 \<and> unat (bs_miner_fee x) < 2 ^ 40 \<and> \<bar>bs_miner_virtual_fee x\<bar> < 2 ^ 40"

lemma sint_small: "uint w < 2 ^ 63 \<Longrightarrow> sint w = uint w" for w :: u64
  using signed_take_bit_int_eq_self [of 63 "uint w"] order_trans [OF _ uint_ge_0 [of w], of "- (2 ^ 63)"] by (simp add: sint_uint)

lemma cross_score_Ok:
  assumes "score_ok x" and "score_ok y"
  shows "cross_score x y = Ok ((int (unat (bs_miner_fee x)) + bs_miner_virtual_fee x) * int (bs_size y))"
proof -
  let ?v = "int (unat (bs_miner_fee x)) + bs_miner_virtual_fee x"
  have "unat (bs_miner_fee x) < 2 ^ 40" using assms(1) by (simp add: score_ok_def)
  then have small: "int (unat (bs_miner_fee x)) < int (2 ^ 40)" by (simp only: of_nat_less_iff)
  then have fee: "sint (bs_miner_fee x) = int (unat (bs_miner_fee x))" by (subst sint_small) simp_all
  have "uint (word_of_nat (bs_size y) :: u64) = int (bs_size y)"
    using assms(2) by (simp add: score_ok_def uint_nat unat_of_nat)
  then have sz: "sint (word_of_nat (bs_size y) :: u64) = int (bs_size y)"
    using assms(2) by (subst sint_small) (simp_all add: score_ok_def)
  have "\<bar>bs_miner_virtual_fee x\<bar> < 2 ^ 40" using assms(1) by (simp add: score_ok_def)
  moreover have "\<bar>int n + w\<bar> < 2 ^ 41" if "int n < int (2 ^ 40)" "\<bar>w\<bar> < 2 ^ 40" for n w using that by simp
  ultimately have v: "\<bar>?v\<bar> < 2 ^ 41" using small by blast
  have "\<bar>?v * int (bs_size y)\<bar> \<le> 2 ^ 41 * 2 ^ 22"
    unfolding abs_mult using v assms(2) by (intro mult_mono) (simp_all add: score_ok_def)
  moreover have "\<bar>?v * int (bs_size y)\<bar> \<noteq> 2 ^ 41 * 2 ^ 22"
    unfolding abs_mult using v assms(2) mult_strict_mono [of "\<bar>?v\<bar>" "2 ^ 41" "\<bar>int (bs_size y)\<bar>" "2 ^ 22"] by (simp add: score_ok_def)
  ultimately have "i64_range (?v * int (bs_size y))" by (simp add: i64_range_def) linarith
  moreover have "i64_range ?v" using v by (simp add: i64_range_def) linarith
  ultimately show ?thesis by (simp add: cross_score_def i64_checked_def fee sz)
qed

interpretation scores: ordered_set cmp_score bs_hash "Collect score_ok"
  by unfold_locales
    (auto simp: cmp_score_def cross_score_Ok cmp_of_def cmp_bytes_def Let_def split: if_splits)



section \<open>The orderings of a set of entries\<close>

definition entry_ok :: "entry \<Rightarrow> bool" where
  "entry_ok e \<longleftrightarrow> score_ok (transaction_score_entry e) \<and> score_ok (package_score_entry e)"

definition orderings_hold :: "entry set \<Rightarrow> ordered_references \<Rightarrow> bool" where
  "orderings_hold E r \<longleftrightarrow>
     set (or_by_storage_index r) = timestamp_entry ` E \<and> distinct (or_by_storage_index r)
     \<and> set (or_by_transaction_score r) = transaction_score_entry ` E \<and> distinct (or_by_transaction_score r)
     \<and> set (or_by_package_score r) = package_score_entry ` E \<and> distinct (or_by_package_score r)"

text \<open>Entries that can be told apart by their hashes.\<close>

definition identified :: "entry set \<Rightarrow> bool" where
  "identified E \<longleftrightarrow> inj_on en_hash E \<and> (\<forall>e\<in>E. entry_ok e)"

lemma identified_subset: "identified E \<Longrightarrow> F \<subseteq> E \<Longrightarrow> identified F"
  by (auto simp: identified_def intro: inj_on_subset)

lemma entry_keys [simp]:
  "bt_hash (timestamp_entry e) = en_hash e" "bs_hash (transaction_score_entry e) = en_hash e" "bs_hash (package_score_entry e) = en_hash e"
  by (simp_all add: timestamp_entry_def transaction_score_entry_def package_score_entry_def)

lemma image_key_inj:
  assumes "\<And>e. key (f e) = en_hash e" and "inj_on en_hash E"
  shows "inj_on key (f ` E)" and "inj_on f E"
  using assms by (auto simp: inj_on_def) metis

lemma image_remove:
  assumes "\<And>e. key (f e) = en_hash e" and "inj_on en_hash (Set.insert e E)"
  shows "f ` (E - {e}) = f ` E - {f e}"
  using image_key_inj(2) [of key f, OF assms] by (auto simp: inj_on_def)

lemma insert_to_orderings_Ok:
  assumes "orderings_hold E r" and "identified (Set.insert e E)"
  shows "\<exists>r'. insert_to_orderings e r = Ok r' \<and> orderings_hold (Set.insert e E) r'"
proof -
  have inj: "inj_on en_hash (Set.insert e E)" and ok: "\<forall>x\<in>Set.insert e E. entry_ok x" using assms(2) by (simp_all add: identified_def)
  note keys = image_key_inj(1) [of bt_hash timestamp_entry, OF entry_keys(1) inj] image_key_inj(1) [of bs_hash transaction_score_entry, OF entry_keys(2) inj] image_key_inj(1) [of bs_hash package_score_entry, OF entry_keys(3) inj]
  have a: "set_insert cmp_timestamp (timestamp_entry e) (or_by_storage_index r)
      = Ok (if timestamp_entry e \<in> set (or_by_storage_index r) then or_by_storage_index r else or_by_storage_index r @ [timestamp_entry e])"
    using assms(1) keys(1) by (intro timestamps.set_insert_eq) (simp_all add: orderings_hold_def)
  have b: "set_insert cmp_score (transaction_score_entry e) (or_by_transaction_score r)
      = Ok (if transaction_score_entry e \<in> set (or_by_transaction_score r) then or_by_transaction_score r else or_by_transaction_score r @ [transaction_score_entry e])"
    using assms(1) keys(2) ok by (intro scores.set_insert_eq) (auto simp: orderings_hold_def entry_ok_def)
  have c: "set_insert cmp_score (package_score_entry e) (or_by_package_score r)
      = Ok (if package_score_entry e \<in> set (or_by_package_score r) then or_by_package_score r else or_by_package_score r @ [package_score_entry e])"
    using assms(1) keys(3) ok by (intro scores.set_insert_eq) (auto simp: orderings_hold_def entry_ok_def)
  show ?thesis using assms(1) by (auto simp: insert_to_orderings_def a b c orderings_hold_def)
qed

lemma remove_from_orderings_Ok:
  assumes "orderings_hold E r" and "identified (Set.insert e E)"
  shows "\<exists>r'. remove_from_orderings e r = Ok r' \<and> orderings_hold (E - {e}) r'"
proof -
  have inj: "inj_on en_hash (Set.insert e E)" and ok: "\<forall>x\<in>Set.insert e E. entry_ok x" using assms(2) by (simp_all add: identified_def)
  note keys = image_key_inj(1) [of bt_hash timestamp_entry, OF entry_keys(1) inj] image_key_inj(1) [of bs_hash transaction_score_entry, OF entry_keys(2) inj] image_key_inj(1) [of bs_hash package_score_entry, OF entry_keys(3) inj]
  note images = image_remove [of bt_hash timestamp_entry, OF entry_keys(1) inj] image_remove [of bs_hash transaction_score_entry, OF entry_keys(2) inj] image_remove [of bs_hash package_score_entry, OF entry_keys(3) inj]
  have a: "set_remove cmp_timestamp (timestamp_entry e) (or_by_storage_index r)
      = Ok (timestamp_entry e \<in> set (or_by_storage_index r), remove1 (timestamp_entry e) (or_by_storage_index r))"
    using assms(1) keys(1) by (intro timestamps.set_remove_eq) (simp_all add: orderings_hold_def)
  have b: "set_remove cmp_score (transaction_score_entry e) (or_by_transaction_score r)
      = Ok (transaction_score_entry e \<in> set (or_by_transaction_score r), remove1 (transaction_score_entry e) (or_by_transaction_score r))"
    using assms(1) keys(2) ok by (intro scores.set_remove_eq) (auto simp: orderings_hold_def entry_ok_def)
  have c: "set_remove cmp_score (package_score_entry e) (or_by_package_score r)
      = Ok (package_score_entry e \<in> set (or_by_package_score r), remove1 (package_score_entry e) (or_by_package_score r))"
    using assms(1) keys(3) ok by (intro scores.set_remove_eq) (auto simp: orderings_hold_def entry_ok_def)
  show ?thesis using assms(1) by (simp add: remove_from_orderings_def a b c orderings_hold_def images)
qed

lemma first_with_strategy_Ok:
  assumes "orderings_hold E r" and "identified E"
  shows "\<exists>top. first_with_strategy strategy r = Ok top \<and> (top = None \<longleftrightarrow> E = {}) \<and> (\<forall>hash. top = Some hash \<longrightarrow> (\<exists>e\<in>E. en_hash e = hash))"
proof -
  have ok: "set (or_by_transaction_score r) \<subseteq> Collect score_ok" "set (or_by_package_score r) \<subseteq> Collect score_ok"
    using assms by (auto simp: orderings_hold_def identified_def entry_ok_def)
  note timestamps.set_first_eq [of "or_by_storage_index r", OF subset_UNIV] scores.set_first_eq [OF ok(1)] scores.set_first_eq [OF ok(2)]
  then show ?thesis using assms(1)
    by (cases strategy) (fastforce simp: first_with_strategy_def orderings_hold_def)+
qed



section \<open>The invariant of the pool\<close>

definition prevouts :: "entry \<Rightarrow> out_point list" where
  "prevouts e = map ti_previous_output (tx_inputs (en_transaction e))"

text \<open>The entries without a parent in the pool: these are ordered, the others wait.\<close>

definition free_entries :: "bytes set option \<Rightarrow> entries_by_hash \<Rightarrow> entry set" where
  "free_entries removed by_hash = {e \<in> ran (map_of by_hash). \<not> has_in_pool_ancestors removed by_hash (en_transaction e)}"

definition keyed :: "entries_by_hash \<Rightarrow> bool" where
  "keyed by_hash \<longleftrightarrow> distinct (map fst by_hash) \<and> (\<forall>hash e. map_of by_hash hash = Some e \<longrightarrow> en_hash e = hash \<and> entry_ok e \<and> distinct (prevouts e))"

definition pool_ok :: "pool_storage \<Rightarrow> bool" where
  "pool_ok s \<longleftrightarrow> keyed (po_by_hash s)
     \<and> po_transactions_size_in_bytes s = sum_list (map (en_size \<circ> snd) (po_by_hash s))
     \<and> (\<forall>p hash. map_of (po_by_previous_output s) p = Some hash \<longleftrightarrow> (\<exists>e. map_of (po_by_hash s) hash = Some e \<and> p \<in> set (prevouts e)))
     \<and> (\<forall>hash e p. map_of (po_by_hash s) hash = Some e \<longrightarrow> p \<in> set (prevouts e) \<longrightarrow> map_of (po_by_hash s) (op_hash p) \<noteq> None \<longrightarrow>
          (\<exists>ds. map_of (rs_by_input (po_references s)) (op_hash p) = Some ds \<and> hash \<in> set ds))
     \<and> distinct (rs_pending (po_references s))
     \<and> set (rs_pending (po_references s)) = en_hash ` (ran (map_of (po_by_hash s)) - free_entries None (po_by_hash s))
     \<and> orderings_hold (free_entries None (po_by_hash s)) (rs_ordered (po_references s))"

lemma pool_okD:
  assumes "pool_ok s"
  shows "keyed (po_by_hash s)" and "po_transactions_size_in_bytes s = sum_list (map (en_size \<circ> snd) (po_by_hash s))"
    and "distinct (rs_pending (po_references s))"
    and "set (rs_pending (po_references s)) = en_hash ` (ran (map_of (po_by_hash s)) - free_entries None (po_by_hash s))"
    and "orderings_hold (free_entries None (po_by_hash s)) (rs_ordered (po_references s))"
  using assms unfolding pool_ok_def by - (elim conjE, assumption)+

lemma pool_ok_spent:
  "pool_ok s \<Longrightarrow> map_of (po_by_previous_output s) p = Some hash \<longleftrightarrow> (\<exists>e. map_of (po_by_hash s) hash = Some e \<and> p \<in> set (prevouts e))"
  unfolding pool_ok_def by (elim conjE) (erule allE, erule allE, assumption)

lemma pool_ok_references:
  assumes "pool_ok s" and "map_of (po_by_hash s) hash = Some e" and "p \<in> set (prevouts e)" and "map_of (po_by_hash s) (op_hash p) \<noteq> None"
  shows "\<exists>ds. map_of (rs_by_input (po_references s)) (op_hash p) = Some ds \<and> hash \<in> set ds"
proof -
  have "\<forall>hash e p. map_of (po_by_hash s) hash = Some e \<longrightarrow> p \<in> set (prevouts e) \<longrightarrow> map_of (po_by_hash s) (op_hash p) \<noteq> None \<longrightarrow>
      (\<exists>ds. map_of (rs_by_input (po_references s)) (op_hash p) = Some ds \<and> hash \<in> set ds)"
    using assms(1) unfolding pool_ok_def by (elim conjE)
  then show ?thesis using assms(2-4) by blast
qed

lemma keyedD:
  assumes "keyed by_hash" and "map_of by_hash hash = Some e"
  shows "en_hash e = hash" "entry_ok e" "distinct (prevouts e)"
  using assms by (auto simp: keyed_def)

lemma keyedI:
  "distinct (map fst by_hash) \<Longrightarrow> (\<And>hash e. map_of by_hash hash = Some e \<Longrightarrow> en_hash e = hash \<and> entry_ok e \<and> distinct (prevouts e)) \<Longrightarrow> keyed by_hash"
  unfolding keyed_def by blast

lemma keyed_ran: "keyed by_hash \<Longrightarrow> e \<in> ran (map_of by_hash) \<longleftrightarrow> map_of by_hash (en_hash e) = Some e"
  using keyedD(1) by (fastforce simp: ran_def)

lemma keyed_identified: "keyed by_hash \<Longrightarrow> identified (ran (map_of by_hash))"
  by (auto simp: identified_def inj_on_def keyed_ran dest: keyedD(2))

lemma keyed_delete: "keyed by_hash \<Longrightarrow> keyed (AList.delete hash by_hash)"
  by (auto simp: keyed_def delete_conv' distinct_delete split: if_splits)

lemma ran_delete:
  assumes "keyed by_hash" and "map_of by_hash hash = Some e"
  shows "ran (map_of (AList.delete hash by_hash)) = ran (map_of by_hash) - {e}"
proof (rule set_eqI)
  fix x
  show "x \<in> ran (map_of (AList.delete hash by_hash)) \<longleftrightarrow> x \<in> ran (map_of by_hash) - {e}"
    unfolding keyed_ran [OF keyed_delete [OF assms(1)]] Diff_iff keyed_ran [OF assms(1)]
    using keyedD(1) [OF assms] assms(2) by (auto simp: delete_conv')
qed

lemma has_in_pool_ancestors_eq:
  "has_in_pool_ancestors None by_hash (en_transaction e) \<longleftrightarrow> (\<exists>p \<in> set (prevouts e). map_of by_hash (op_hash p) \<noteq> None)"
  by (auto simp: has_in_pool_ancestors_def list_ex_iff prevouts_def Let_def)

text \<open>Descendants that no longer have a parent in the pool enter the orderings.\<close>

lemma release_descendants_Ok:
  assumes "identified U" and "E \<subseteq> U" and "ran (map_of by_hash) \<subseteq> U" and "keyed by_hash"
    and "orderings_hold E (rs_ordered r)" and "distinct (rs_pending r)"
  shows "\<exists>r'. release_descendants removed by_hash hashes r = Ok r' \<and> rs_by_input r' = rs_by_input r \<and> distinct (rs_pending r')
    \<and> set (rs_pending r') = set (rs_pending r) - {hash \<in> set hashes. \<exists>e \<in> free_entries removed by_hash. en_hash e = hash}
    \<and> orderings_hold (E \<union> {e \<in> free_entries removed by_hash. en_hash e \<in> set hashes}) (rs_ordered r')"
  using assms(2,5,6)
proof (induction hashes arbitrary: E r)
  case (Cons hash hashes)
  have skip: ?case if none: "\<not> (\<exists>e \<in> free_entries removed by_hash. en_hash e = hash)"
    and step: "release_descendants removed by_hash (hash # hashes) r = release_descendants removed by_hash hashes r"
  proof -
    have "{e \<in> free_entries removed by_hash. en_hash e \<in> set (hash # hashes)} = {e \<in> free_entries removed by_hash. en_hash e \<in> set hashes}"
      "{h \<in> set (hash # hashes). \<exists>e \<in> free_entries removed by_hash. en_hash e = h} = {h \<in> set hashes. \<exists>e \<in> free_entries removed by_hash. en_hash e = h}"
      using none by auto
    then show ?thesis using Cons.IH [OF Cons.prems] unfolding step by simp
  qed
  show ?case
  proof (cases "map_of by_hash hash")
    case None
    then have none: "\<not> (\<exists>e \<in> free_entries removed by_hash. en_hash e = hash)"
      by (auto simp: free_entries_def keyed_ran [OF assms(4)])
    show ?thesis by (rule skip [OF none]) (simp add: None)
  next
    case (Some e)
    have hash: "en_hash e = hash" "e \<in> ran (map_of by_hash)" using Some keyedD(1) [OF assms(4) Some] by (auto simp: ran_def)
    show ?thesis
    proof (cases "has_in_pool_ancestors removed by_hash (en_transaction e)")
      case True
      then have none: "\<not> (\<exists>e \<in> free_entries removed by_hash. en_hash e = hash)"
        using Some by (auto simp: free_entries_def keyed_ran [OF assms(4)])
      show ?thesis by (rule skip [OF none]) (simp add: Some True)
    next
      case False
      then have free: "{x \<in> free_entries removed by_hash. en_hash x = hash} = {e}"
        using Some hash by (auto simp: free_entries_def keyed_ran [OF assms(4)])
      have sub: "Set.insert e E \<subseteq> U" using Cons.prems(1) hash(2) assms(3) by blast
      obtain o1 where o1: "insert_to_orderings e (rs_ordered r) = Ok o1" "orderings_hold (Set.insert e E) o1"
        using insert_to_orderings_Ok [OF Cons.prems(2) identified_subset [OF assms(1) sub]] by blast
      let ?r = "r\<lparr>rs_pending := remove1 hash (rs_pending r), rs_ordered := o1\<rparr>"
      have step: "release_descendants removed by_hash (hash # hashes) r = release_descendants removed by_hash hashes ?r"
        using Some False o1(1) hash(1) by simp
      have sets: "Set.insert e E \<union> {x \<in> free_entries removed by_hash. en_hash x \<in> set hashes}
          = E \<union> {x \<in> free_entries removed by_hash. en_hash x \<in> set (hash # hashes)}"
        using free by auto
      have sets': "set (remove1 hash (rs_pending r)) - {h \<in> set hashes. \<exists>x \<in> free_entries removed by_hash. en_hash x = h}
          = set (rs_pending r) - {h \<in> set (hash # hashes). \<exists>x \<in> free_entries removed by_hash. en_hash x = h}"
        unfolding set_remove1_eq [OF Cons.prems(3)] using free by auto
      from Cons.IH [OF sub, of ?r] o1(2) Cons.prems(3) show ?thesis unfolding step sets [symmetric] sets' [symmetric] by simp
    qed
  qed
qed simp


section \<open>Removing an entry\<close>

lemma sum_list_delete:
  "distinct (map fst xs) \<Longrightarrow> map_of xs k = Some v \<Longrightarrow> sum_list (map (f \<circ> snd) xs) = f v + sum_list (map (f \<circ> snd) (AList.delete k xs))"
  for f :: "'v \<Rightarrow> nat"
proof (induction xs)
  case (Cons x xs)
  show ?case
  proof (cases "fst x = k")
    case True
    then have "AList.delete k xs = xs" using Cons.prems(1) by (auto simp: image_iff)
    then show ?thesis using True Cons.prems(2) by (cases x) auto
  next
    case False
    then show ?thesis using Cons by (cases x) auto
  qed
qed simp

lemma unspend_inputs_Ok:
  assumes "distinct (map ti_previous_output is)" and "\<And>p. p \<in> ti_previous_output ` set is \<Longrightarrow> map_of spent p = Some hash"
  shows "\<exists>spent'. unspend_inputs hash is spent = Ok spent' \<and> (\<forall>p. map_of spent' p = (if p \<in> ti_previous_output ` set is then None else map_of spent p))"
  using assms
proof (induction "is" arbitrary: spent)
  case (Cons i "is")
  have fresh: "ti_previous_output i \<notin> ti_previous_output ` set is" using Cons.prems(1) by simp
  have "map_of (AList.delete (ti_previous_output i) spent) p = Some hash" if "p \<in> ti_previous_output ` set is" for p
  proof -
    have "p \<noteq> ti_previous_output i" using fresh that by blast
    then show ?thesis using Cons.prems(2) [of p] that by (simp add: delete_conv')
  qed
  then have "\<exists>spent'. unspend_inputs hash is (AList.delete (ti_previous_output i) spent) = Ok spent'
      \<and> (\<forall>p. map_of spent' p = (if p \<in> ti_previous_output ` set is then None else map_of (AList.delete (ti_previous_output i) spent) p))"
    using Cons.prems(1) by (intro Cons.IH) simp_all
  then show ?case using Cons.prems(2) by (auto simp: delete_conv')
qed simp

lemma free_entries_delete:
  assumes "keyed by_hash" and "map_of by_hash hash = Some e"
    and refs: "\<And>h x p. map_of by_hash h = Some x \<Longrightarrow> p \<in> set (prevouts x) \<Longrightarrow> op_hash p = hash \<Longrightarrow> h \<in> set ds"
  shows "free_entries None (AList.delete hash by_hash)
      = (free_entries None by_hash \<union> {x \<in> free_entries None (AList.delete hash by_hash). en_hash x \<in> set ds}) - {e}"
    (is "?F' = (?F \<union> ?R) - {e}")
proof (intro equalityI subsetI)
  fix x assume x: "x \<in> ?F'"
  then have in': "x \<in> ran (map_of by_hash)" "x \<noteq> e" by (auto simp: free_entries_def ran_delete [OF assms(1,2)])
  then have at: "map_of by_hash (en_hash x) = Some x" by (simp add: keyed_ran [OF assms(1)])
  show "x \<in> (?F \<union> ?R) - {e}"
  proof (cases "en_hash x \<in> set ds")
    case False
    then have "op_hash p \<noteq> hash" if "p \<in> set (prevouts x)" for p using refs [OF at that] by blast
    then have "x \<in> ?F" using x in' by (auto simp: free_entries_def has_in_pool_ancestors_eq delete_conv')
    then show ?thesis using in' by blast
  qed (use x in' in blast)
next
  fix x assume "x \<in> (?F \<union> ?R) - {e}"
  then show "x \<in> ?F'"
    by (auto simp: free_entries_def has_in_pool_ancestors_eq delete_conv' ran_delete [OF assms(1,2), unfolded delete_conv'])
qed

lemma references_remove_Ok:
  assumes "keyed by_hash" and "map_of by_hash hash = Some e"
    and refs: "\<And>h x p. map_of by_hash h = Some x \<Longrightarrow> p \<in> set (prevouts x) \<Longrightarrow> op_hash p = hash \<Longrightarrow>
      \<exists>ds. map_of (rs_by_input r) hash = Some ds \<and> h \<in> set ds"
    and "distinct (rs_pending r)" and "set (rs_pending r) = en_hash ` (ran (map_of by_hash) - free_entries None by_hash)"
    and "orderings_hold (free_entries None by_hash) (rs_ordered r)"
  defines "by_hash' \<equiv> AList.delete hash by_hash"
  shows "\<exists>r'. references_remove None by_hash' e r = Ok r' \<and> rs_by_input r' = AList.delete hash (rs_by_input r)
    \<and> distinct (rs_pending r') \<and> set (rs_pending r') = en_hash ` (ran (map_of by_hash') - free_entries None by_hash')
    \<and> orderings_hold (free_entries None by_hash') (rs_ordered r')"
proof -
  let ?U = "ran (map_of by_hash)" and ?F = "free_entries None by_hash" and ?F' = "free_entries None by_hash'"
  define ds where "ds = (case map_of (rs_by_input r) hash of Some ds \<Rightarrow> ds | None \<Rightarrow> [])"
  have hash: "en_hash e = hash" "e \<in> ?U" using keyedD(1) [OF assms(1,2)] assms(2) by (auto simp: ran_def)
  have U': "ran (map_of by_hash') = ?U - {e}" unfolding by_hash'_def by (rule ran_delete [OF assms(1,2)])
  have inj: "inj_on en_hash ?U" using keyed_identified [OF assms(1)] by (simp add: identified_def)
  have F: "?F \<subseteq> ?U" "?F' \<subseteq> ?U - {e}" using U' by (auto simp: free_entries_def)
  have F': "?F' = (?F \<union> {x \<in> ?F'. en_hash x \<in> set ds}) - {e}"
    unfolding by_hash'_def using refs by (intro free_entries_delete [OF assms(1,2)]) (fastforce simp: ds_def)
  obtain r1 where r1: "release_descendants None by_hash' ds r = Ok r1" "rs_by_input r1 = rs_by_input r" "distinct (rs_pending r1)"
      "set (rs_pending r1) = set (rs_pending r) - {h \<in> set ds. \<exists>x \<in> ?F'. en_hash x = h}"
      "orderings_hold (?F \<union> {x \<in> ?F'. en_hash x \<in> set ds}) (rs_ordered r1)"
    using release_descendants_Ok [OF keyed_identified [OF assms(1)] F(1) _ keyed_delete [OF assms(1)] assms(6,4), of hash None ds] U'
    unfolding by_hash'_def by auto
  have "identified (Set.insert e (?F \<union> {x \<in> ?F'. en_hash x \<in> set ds}))"
    using F hash(2) by (intro identified_subset [OF keyed_identified [OF assms(1)]]) auto
  from remove_from_orderings_Ok [OF r1(5) this] obtain o1 where o1: "remove_from_orderings e (rs_ordered r1) = Ok o1" "orderings_hold ?F' o1"
    using F' by auto
  have "set (rs_pending r) - {h \<in> set ds. \<exists>x \<in> ?F'. en_hash x = h} - {hash} = en_hash ` (?U - {e} - ?F')"
  proof -
    have "{h \<in> set ds. \<exists>x \<in> ?F'. en_hash x = h} = en_hash ` {x \<in> ?F'. en_hash x \<in> set ds}" by auto
    moreover have "{hash} = en_hash ` {e}" using hash by simp
    moreover have "en_hash ` (?U - ?F) - en_hash ` {x \<in> ?F'. en_hash x \<in> set ds} - en_hash ` {e}
        = en_hash ` (?U - ?F - {x \<in> ?F'. en_hash x \<in> set ds} - {e})"
    proof -
      have diff: "en_hash ` A - en_hash ` B = en_hash ` (A - B)" if "A \<subseteq> ?U" "B \<subseteq> ?U" for A B
        using inj_on_image_set_diff [OF inj, of A B] that by blast
      show ?thesis using F hash(2) by (subst diff, blast, blast)+ (rule refl)
    qed
    moreover have "?U - ?F - {x \<in> ?F'. en_hash x \<in> set ds} - {e} = ?U - {e} - ?F'" using F' by blast
    ultimately show ?thesis using assms(5) by simp
  qed
  then show ?thesis using r1 o1 hash(1) by (simp add: references_remove_def ds_def [symmetric] set_remove1_eq U')
qed

lemma spent_after_remove:
  assumes "map_of by_hash hash = Some e"
    and spent: "\<And>p h. map_of spent p = Some h \<longleftrightarrow> (\<exists>x. map_of by_hash h = Some x \<and> p \<in> set (prevouts x))"
    and spent': "\<And>p. map_of spent' p = (if p \<in> set (prevouts e) then None else map_of spent p)"
  shows "map_of spent' p = Some h \<longleftrightarrow> (\<exists>x. map_of (AList.delete hash by_hash) h = Some x \<and> p \<in> set (prevouts x))"
proof (cases "p \<in> set (prevouts e)")
  case True
  then have "map_of spent p = Some hash" using assms(1) by (auto simp: spent)
  then have "h = hash" if "map_of by_hash h = Some x" "p \<in> set (prevouts x)" for x using spent [of p h] that by auto
  then show ?thesis using True by (auto simp: spent' delete_conv')
next
  case False
  then show ?thesis using assms(1) by (auto simp: spent' spent delete_conv')
qed

lemma storage_remove_Ok:
  assumes "pool_ok s" and "map_of (po_by_hash s) hash = Some e"
  shows "\<exists>s'. storage_remove_by_hash hash s = Ok (Some e, s') \<and> po_by_hash s' = AList.delete hash (po_by_hash s)
    \<and> rs_by_input (po_references s') = AList.delete hash (rs_by_input (po_references s)) \<and> pool_ok s'"
proof -
  note ok = pool_okD [OF assms(1)] and spent = pool_ok_spent [OF assms(1)] and refs = pool_ok_references [OF assms(1)]
  have "distinct (map fst (po_by_hash s))" using ok(1) by (simp add: keyed_def)
  from sum_list_delete [OF this assms(2), of en_size]
  have size: "po_transactions_size_in_bytes s = en_size e + sum_list (map (en_size \<circ> snd) (AList.delete hash (po_by_hash s)))" using ok(2) by simp
  have "distinct (map ti_previous_output (tx_inputs (en_transaction e)))" using keyedD(3) [OF ok(1) assms(2)] by (simp add: prevouts_def)
  moreover have "map_of (po_by_previous_output s) p = Some hash" if "p \<in> ti_previous_output ` set (tx_inputs (en_transaction e))" for p
    using that assms(2) by (auto simp: spent prevouts_def)
  ultimately obtain spent' where spent': "unspend_inputs hash (tx_inputs (en_transaction e)) (po_by_previous_output s) = Ok spent'"
      "\<And>p. map_of spent' p = (if p \<in> set (prevouts e) then None else map_of (po_by_previous_output s) p)"
    using unspend_inputs_Ok [of "tx_inputs (en_transaction e)" "po_by_previous_output s" hash] by (auto simp: prevouts_def)
  obtain r' where r': "references_remove None (AList.delete hash (po_by_hash s)) e (po_references s) = Ok r'"
      "rs_by_input r' = AList.delete hash (rs_by_input (po_references s))" "distinct (rs_pending r')"
      "set (rs_pending r') = en_hash ` (ran (map_of (AList.delete hash (po_by_hash s))) - free_entries None (AList.delete hash (po_by_hash s)))"
      "orderings_hold (free_entries None (AList.delete hash (po_by_hash s))) (rs_ordered r')"
  proof -
    have children: "\<exists>ds. map_of (rs_by_input (po_references s)) hash = Some ds \<and> h \<in> set ds"
      if "map_of (po_by_hash s) h = Some x" "p \<in> set (prevouts x)" "op_hash p = hash" for h x p
      using refs [OF that(1,2)] assms(2) that(3) by simp
    show thesis
      by (rule exE [OF references_remove_Ok [OF ok(1) assms(2) _ ok(3-5)]], erule (2) children, elim conjE, rule that)
  qed
  let ?s' = "s\<lparr>po_by_hash := AList.delete hash (po_by_hash s), po_by_previous_output := spent', po_references := r',
    po_transactions_size_in_bytes := po_transactions_size_in_bytes s - en_size e\<rparr>"
  have "storage_remove_by_hash hash s = Ok (Some e, ?s')" using assms(2) size by (simp add: storage_remove_by_hash_def spent'(1) r'(1) Let_def)
  moreover have "pool_ok ?s'"
  proof -
    have "\<exists>ds. map_of (rs_by_input r') (op_hash p) = Some ds \<and> h \<in> set ds"
      if "map_of (AList.delete hash (po_by_hash s)) h = Some x" "p \<in> set (prevouts x)" "map_of (AList.delete hash (po_by_hash s)) (op_hash p) \<noteq> None" for h x p
      using that refs [of h x p] unfolding r'(2) by (auto simp: delete_conv' split: if_splits)
    then show ?thesis unfolding pool_ok_def
      using keyed_delete [OF ok(1)] size r'(3-5) spent_after_remove [OF assms(2) spent spent'(2)] by simp
  qed
  ultimately show ?thesis using r'(2) by auto
qed


section \<open>Draining the pool\<close>

text \<open>The pairs of a parent and a child that are both in the pool.\<close>

definition pool_parents :: "entries_by_hash \<Rightarrow> (bytes \<times> bytes) set" where
  "pool_parents by_hash = {(op_hash p, hash) | p hash e. map_of by_hash hash = Some e \<and> p \<in> set (prevouts e) \<and> map_of by_hash (op_hash p) \<noteq> None}"

text \<open>No transaction of a list is taken while one of its parents is among the waiting hashes.\<close>

fun ancestors_first :: "bytes set \<Rightarrow> indexed_transaction list \<Rightarrow> bool" where
  "ancestors_first waiting [] \<longleftrightarrow> True"
| "ancestors_first waiting (t # ts) \<longleftrightarrow>
     list_all (\<lambda>i. op_hash (ti_previous_output i) \<notin> waiting) (tx_inputs (it_raw t)) \<and> ancestors_first (waiting - {it_hash t}) ts"

lemma pool_parents_delete: "pool_parents (AList.delete hash by_hash) \<subseteq> pool_parents by_hash"
  by (auto simp: pool_parents_def delete_conv' split: if_splits)

lemma free_entry_exists:
  assumes "keyed by_hash" and "acyclic (pool_parents by_hash)" and "by_hash \<noteq> []"
  shows "free_entries None by_hash \<noteq> {}"
proof -
  have "pool_parents by_hash \<subseteq> dom (map_of by_hash) \<times> dom (map_of by_hash)" by (auto simp: pool_parents_def)
  then have "finite (pool_parents by_hash)" by (rule finite_subset) (simp add: finite_dom_map_of)
  then have "wf (pool_parents by_hash)" using assms(2) by (rule finite_acyclic_wf)
  moreover obtain x where "x \<in> dom (map_of by_hash)" using assms(3) by (cases by_hash) auto
  ultimately obtain z where z: "z \<in> dom (map_of by_hash)" "\<And>y. (y, z) \<in> pool_parents by_hash \<Longrightarrow> y \<notin> dom (map_of by_hash)"
    by (rule wfE_min) blast
  then obtain e where e: "map_of by_hash z = Some e" by blast
  have "map_of by_hash (op_hash p) = None" if "p \<in> set (prevouts e)" for p
  proof (rule ccontr)
    assume "map_of by_hash (op_hash p) \<noteq> None"
    moreover from this have "(op_hash p, z) \<in> pool_parents by_hash" using e that unfolding pool_parents_def by blast
    ultimately show False using z(2) by blast
  qed
  then have "e \<in> free_entries None by_hash" using e by (auto simp: free_entries_def has_in_pool_ancestors_eq ran_def)
  then show ?thesis by blast
qed

lemma remove_with_strategy_Ok:
  assumes "pool_ok s" and "acyclic (pool_parents (po_by_hash s))" and "po_by_hash s \<noteq> []"
  shows "\<exists>e s'. remove_with_strategy strategy s = Ok (Some \<lparr> it_hash = en_hash e, it_raw = en_transaction e \<rparr>, s')
    \<and> e \<in> free_entries None (po_by_hash s) \<and> map_of (po_by_hash s) (en_hash e) = Some e
    \<and> po_by_hash s' = AList.delete (en_hash e) (po_by_hash s) \<and> pool_ok s'"
proof -
  note ok = pool_okD [OF assms(1)]
  have "identified (free_entries None (po_by_hash s))"
    by (rule identified_subset [OF keyed_identified [OF ok(1)]]) (auto simp: free_entries_def)
  from first_with_strategy_Ok [OF ok(5) this] free_entry_exists [OF ok(1) assms(2,3)]
  obtain e where e: "read_with_strategy strategy s = Ok (Some (en_hash e))" "e \<in> free_entries None (po_by_hash s)"
    unfolding read_with_strategy_def by (metis option.exhaust)
  have at: "map_of (po_by_hash s) (en_hash e) = Some e" using e(2) by (simp add: free_entries_def keyed_ran [OF ok(1)])
  obtain s' where "storage_remove_by_hash (en_hash e) s = Ok (Some e, s')" "po_by_hash s' = AList.delete (en_hash e) (po_by_hash s)" "pool_ok s'"
    using storage_remove_Ok [OF assms(1) at] by blast
  then have "remove_with_strategy strategy s = Ok (Some \<lparr> it_hash = en_hash e, it_raw = en_transaction e \<rparr>, s')"
    by (simp add: remove_with_strategy_def e(1))
  then show ?thesis using e(2) at \<open>po_by_hash s' = _\<close> \<open>pool_ok s'\<close> by blast
qed

lemma remove_with_strategy_empty:
  assumes "pool_ok s" and "po_by_hash s = []"
  shows "remove_with_strategy strategy s = Ok (None, s)"
proof -
  have none: "free_entries None (po_by_hash s) = {}" by (simp add: free_entries_def assms(2))
  have "identified {}" by (simp add: identified_def)
  from first_with_strategy_Ok [OF pool_okD(5) [OF assms(1), unfolded none] this, of strategy] show ?thesis
    by (auto simp: remove_with_strategy_def read_with_strategy_def)
qed

lemma length_delete: "distinct (map fst xs) \<Longrightarrow> map_of xs k = Some v \<Longrightarrow> length xs = Suc (length (AList.delete k xs))"
  using sum_list_delete [of xs k v "\<lambda>_. 1"] by (simp add: comp_def sum_list_triv)

lemma remove_n_loop_Ok:
  assumes "pool_ok s" and "acyclic (pool_parents (po_by_hash s))"
  shows "\<exists>ts s'. remove_n_loop n strategy result s = Ok (result @ ts, s') \<and> pool_ok s'
    \<and> length ts = min n (length (po_by_hash s)) \<and> distinct (map it_hash ts)
    \<and> (\<forall>t\<in>set ts. map_option en_transaction (map_of (po_by_hash s) (it_hash t)) = Some (it_raw t))
    \<and> po_by_hash s' = filter (\<lambda>(hash, _). hash \<notin> it_hash ` set ts) (po_by_hash s)
    \<and> ancestors_first (fst ` set (po_by_hash s)) ts"
  using assms
proof (induction n arbitrary: s result)
  case (Suc n)
  show ?case
  proof (cases "po_by_hash s = []")
    case True
    then show ?thesis using Suc.prems(1) remove_with_strategy_empty [OF Suc.prems(1) True] by simp
  next
    case False
    note keyed = pool_okD(1) [OF Suc.prems(1)]
    obtain e s1 where e: "remove_with_strategy strategy s = Ok (Some \<lparr> it_hash = en_hash e, it_raw = en_transaction e \<rparr>, s1)"
        "e \<in> free_entries None (po_by_hash s)" "map_of (po_by_hash s) (en_hash e) = Some e"
        "po_by_hash s1 = AList.delete (en_hash e) (po_by_hash s)" "pool_ok s1"
      using remove_with_strategy_Ok [OF Suc.prems False] by blast
    let ?t = "\<lparr> it_hash = en_hash e, it_raw = en_transaction e \<rparr>"
    have "acyclic (pool_parents (po_by_hash s1))" unfolding e(4) by (rule acyclic_subset [OF Suc.prems(2) pool_parents_delete])
    from Suc.IH [OF e(5) this, of "result @ [?t]"] obtain ts s' where
      ts: "remove_n_loop n strategy (result @ [?t]) s1 = Ok (result @ ?t # ts, s')" "pool_ok s'" "length ts = min n (length (po_by_hash s1))"
        "distinct (map it_hash ts)" "\<forall>t\<in>set ts. map_option en_transaction (map_of (po_by_hash s1) (it_hash t)) = Some (it_raw t)"
        "po_by_hash s' = filter (\<lambda>(hash, _). hash \<notin> it_hash ` set ts) (po_by_hash s1)" "ancestors_first (fst ` set (po_by_hash s1)) ts"
      by auto
    have other: "it_hash t \<noteq> en_hash e \<and> map_option en_transaction (map_of (po_by_hash s) (it_hash t)) = Some (it_raw t)" if "t \<in> set ts" for t
      using ts(5) that by (auto simp: e(4) delete_conv' split: if_splits)
    then have "\<forall>t\<in>set ts. map_option en_transaction (map_of (po_by_hash s) (it_hash t)) = Some (it_raw t)" by blast
    moreover have "en_hash e \<notin> it_hash ` set ts" by (rule notI, erule imageE) (metis other)
    moreover have "Suc (length (po_by_hash s1)) = length (po_by_hash s)"
      using length_delete [OF _ e(3)] keyed by (simp add: keyed_def e(4))
    moreover have "fst ` set (po_by_hash s1) = fst ` set (po_by_hash s) - {en_hash e}" by (auto simp: e(4) AList.delete_eq image_iff)
    moreover have "list_all (\<lambda>i. op_hash (ti_previous_output i) \<notin> fst ` set (po_by_hash s)) (tx_inputs (en_transaction e))"
      using e(2) by (auto simp: free_entries_def has_in_pool_ancestors_eq prevouts_def list_all_iff map_of_eq_None_iff)
    moreover have "po_by_hash s' = filter (\<lambda>(hash, _). hash \<notin> it_hash ` set (?t # ts)) (po_by_hash s)"
      unfolding ts(6) e(4) AList.delete_eq filter_filter by (rule filter_cong) auto
    ultimately show ?thesis using ts e(1,3) by (intro exI [of _ "?t # ts"] exI [of _ s']) auto
  qed
qed (simp add: filter_id_conv case_prod_beta)

end
