(* ===== verification/Pool_Insert.thy ===== *)
theory Pool_Insert
  imports Memory_Pool_Props
begin

text \<open>
  Inserting an entry into the memory pool keeps its invariant; the search for the descendants of a
  transaction returns; and the properties of the pool: its operations keep the invariant, taking
  transactions from it returns parents before children, and the references to children that left the
  pool make it panic when their parent comes back.
\<close>

section \<open>Inserting an entry\<close>

text \<open>An ancestor with the entry added to its package.\<close>

definition joined :: "entry \<Rightarrow> entry \<Rightarrow> entry" where
  "joined e a = a\<lparr>en_package_size := en_package_size a + en_size e, en_package_miner_fee := en_package_miner_fee a + en_package_miner_fee e,
     en_package_miner_virtual_fee := en_package_miner_virtual_fee a + en_package_miner_virtual_fee e\<rparr>"

lemma joined_simps [simp]:
  "en_hash (joined e a) = en_hash a" "en_transaction (joined e a) = en_transaction a" "en_size (joined e a) = en_size a"
  "prevouts (joined e a) = prevouts a" "timestamp_entry (joined e a) = timestamp_entry a"
  "transaction_score_entry (joined e a) = transaction_score_entry a"
  by (simp_all add: joined_def prevouts_def timestamp_entry_def transaction_score_entry_def)

lemma update_fresh: "k \<notin> fst ` set xs \<Longrightarrow> AList.update k v xs = xs @ [(k, v)]"
  by (induction xs) auto

lemma map_update_same: "map_of xs k = Some v \<Longrightarrow> f w = f v \<Longrightarrow> map (f \<circ> snd) (AList.update k w xs) = map (f \<circ> snd) xs"
  by (induction xs) (auto split: if_splits)

text \<open>Replacing an entry by its joined one in a set of entries.\<close>

definition replaced :: "entry \<Rightarrow> entry \<Rightarrow> entry \<Rightarrow> entry" where
  "replaced e a x = (if x = a then joined e a else x)"

lemma replaced_simps [simp]:
  "en_hash (replaced e a x) = en_hash x" "en_transaction (replaced e a x) = en_transaction x" "prevouts (replaced e a x) = prevouts x"
  "timestamp_entry (replaced e a x) = timestamp_entry x" "transaction_score_entry (replaced e a x) = transaction_score_entry x"
  by (simp_all add: replaced_def)

lemma entries_replaced:
  assumes "keyed by_hash" and "map_of by_hash hash = Some a" and "entry_ok (joined e a)"
  defines "by_hash' \<equiv> AList.update hash (joined e a) by_hash"
  shows "keyed by_hash'" and "ran (map_of by_hash') = replaced e a ` ran (map_of by_hash)"
    and "free_entries None by_hash' = replaced e a ` free_entries None by_hash"
proof -
  have hash: "en_hash a = hash" using keyedD(1) [OF assms(1,2)] .
  have at: "map_of by_hash' h = map_option (replaced e a) (map_of by_hash h)" for h
    using assms(2) hash keyedD(1) [OF assms(1), of h] by (cases "map_of by_hash h") (auto simp: by_hash'_def update_conv' replaced_def)
  show keyed: "keyed by_hash'"
  proof -
    have "distinct (map fst by_hash')" using assms(1) by (simp add: by_hash'_def distinct_update keyed_def)
    moreover have "en_hash x = h \<and> entry_ok x \<and> distinct (prevouts x)" if "map_of by_hash' h = Some x" for h x
      using that keyedD [OF assms(1), of h] assms(3) by (auto simp: at replaced_def)
    ultimately show ?thesis by (rule keyedI)
  qed
  show ran: "ran (map_of by_hash') = replaced e a ` ran (map_of by_hash)" by (auto simp: ran_def at)
  have "has_in_pool_ancestors None by_hash' (en_transaction x) \<longleftrightarrow> has_in_pool_ancestors None by_hash (en_transaction x)" for x :: entry
    by (simp add: has_in_pool_ancestors_eq at)
  then show "free_entries None by_hash' = replaced e a ` free_entries None by_hash"
    unfolding free_entries_def ran by auto
qed

lemma orderings_replaced:
  assumes "orderings_hold F r" and "identified U" and "F \<subseteq> U" and "a \<in> U" and "entry_ok (joined e a)"
  shows "\<exists>removed scores scores'. set_remove cmp_score (package_score_entry a) (or_by_package_score r) = Ok (removed, scores)
    \<and> (if removed then set_insert cmp_score (package_score_entry (joined e a)) scores else Ok scores) = Ok scores'
    \<and> orderings_hold (replaced e a ` F) (r\<lparr>or_by_package_score := scores'\<rparr>)"
proof -
  let ?f = package_score_entry
  have inj: "inj_on en_hash U" and ok: "\<And>x. x \<in> U \<Longrightarrow> entry_ok x" using assms(2) by (auto simp: identified_def)
  note key = image_key_inj(1) [of bs_hash ?f, OF entry_keys(3) inj] and inj' = image_key_inj(2) [of bs_hash ?f, OF entry_keys(3) inj]
  have pkg: "set (or_by_package_score r) = ?f ` F" "distinct (or_by_package_score r)" using assms(1) by (simp_all add: orderings_hold_def)
  have removal: "set_remove cmp_score (?f a) (or_by_package_score r) = Ok (?f a \<in> ?f ` F, remove1 (?f a) (or_by_package_score r))"
  proof -
    have sub: "Set.insert (?f a) (set (or_by_package_score r)) \<subseteq> ?f ` U" using assms(3,4) pkg(1) by auto
    show ?thesis unfolding pkg(1) [symmetric]
      using assms(3,4) ok pkg(1) by (intro scores.set_remove_eq inj_on_subset [OF key sub]) (auto simp: entry_ok_def)
  qed
  have mem: "?f a \<in> ?f ` F \<longleftrightarrow> a \<in> F" using inj_on_image_mem_iff [OF inj' assms(4,3)] .
  have same: "replaced e a ` F = F" if "a \<notin> F" using that by (auto simp: replaced_def image_iff)
  have images: "timestamp_entry ` replaced e a ` F = timestamp_entry ` F" "transaction_score_entry ` replaced e a ` F = transaction_score_entry ` F"
    by (simp_all add: image_image)
  show ?thesis
  proof (cases "a \<in> F")
    case False
    then have "remove1 (?f a) (or_by_package_score r) = or_by_package_score r" using mem pkg(1) by (simp add: remove1_idem)
    then show ?thesis using removal mem False same assms(1)
      by (intro exI [of _ False] exI [of _ "or_by_package_score r"]) simp
  next
    case True
    let ?rest = "remove1 (?f a) (or_by_package_score r)"
    have rest: "set ?rest = ?f ` (F - {a})" using pkg inj_on_image_set_diff [OF inj', of F "{a}"] assms(3,4) by auto
    have fresh: "en_hash x \<noteq> en_hash a" if "x \<in> F - {a}" for x using inj that assms(3,4) by (auto simp: inj_on_def)
    then have new: "?f (joined e a) \<notin> set ?rest" using rest entry_keys(3) [of "joined e a"] by (metis entry_keys(3) imageE joined_simps(1))
    have "inj_on bs_hash (Set.insert (?f (joined e a)) (set ?rest))"
      unfolding inj_on_insert using rest fresh inj_on_subset [OF key, of "set ?rest"] assms(3) by fastforce
    then have insertion: "set_insert cmp_score (?f (joined e a)) ?rest = Ok (?rest @ [?f (joined e a)])"
      using new rest assms(3,5) ok by (subst scores.set_insert_eq) (auto simp: entry_ok_def)
    have "replaced e a ` F = Set.insert (joined e a) (F - {a})" using True by (auto simp: replaced_def)
    then have "?f ` replaced e a ` F = Set.insert (?f (joined e a)) (?f ` (F - {a}))" by simp
    then show ?thesis using removal mem True insertion assms(1) images new rest pkg(2)
      by (intro exI [of _ True] exI [of _ ?rest] exI [of _ "?rest @ [?f (joined e a)]"]) (simp add: orderings_hold_def)
  qed
qed

lemma join_fits:
  assumes "entry_ok a" and "entry_ok e"
  shows "u64_add (en_package_miner_fee a) (en_package_miner_fee e) = Ok (en_package_miner_fee a + en_package_miner_fee e)"
    and "i64_checked (en_package_miner_virtual_fee a + en_package_miner_virtual_fee e) = Ok (en_package_miner_virtual_fee a + en_package_miner_virtual_fee e)"
  using assms by (auto simp: entry_ok_def score_ok_def package_score_entry_def u64_add_def i64_checked_def i64_range_def)

lemma join_package_Ok:
  assumes "pool_ok (s\<lparr>po_transactions_size_in_bytes := n\<rparr>)" and "entry_ok e" and "\<And>a. map_of (po_by_hash s) hash = Some a \<Longrightarrow> entry_ok (joined e a)"
  shows "\<exists>s'. join_package e hash s = Ok s' \<and> pool_ok (s'\<lparr>po_transactions_size_in_bytes := n\<rparr>)
    \<and> (\<forall>h. map_of (po_by_hash s') h = (if h = hash then map_option (joined e) (map_of (po_by_hash s) h) else map_of (po_by_hash s) h))
    \<and> po_transactions_size_in_bytes s' = po_transactions_size_in_bytes s
    \<and> po_by_previous_output s' = po_by_previous_output s \<and> rs_by_input (po_references s') = rs_by_input (po_references s)"
proof (cases "map_of (po_by_hash s) hash")
  case None
  then show ?thesis using assms(1) by (simp add: join_package_def)
next
  case (Some a)
  note ok = pool_okD [OF assms(1), simplified] and spent = pool_ok_spent [OF assms(1), simplified] and refs = pool_ok_references [OF assms(1), simplified]
  note joined = assms(3) [OF Some] and replaced = entries_replaced [OF ok(1) Some assms(3) [OF Some]]
  let ?U = "ran (map_of (po_by_hash s))" and ?F = "free_entries None (po_by_hash s)" and ?by_hash = "AList.update hash (joined e a) (po_by_hash s)"
  have U: "identified ?U" "?F \<subseteq> ?U" "a \<in> ?U" using keyed_identified [OF ok(1)] Some by (auto simp: free_entries_def ran_def)
  obtain removed scores scores' where scores:
      "set_remove cmp_score (package_score_entry a) (or_by_package_score (rs_ordered (po_references s))) = Ok (removed, scores)"
      "(if removed then set_insert cmp_score (package_score_entry (joined e a)) scores else Ok scores) = Ok scores'"
      "orderings_hold (replaced e a ` ?F) ((rs_ordered (po_references s))\<lparr>or_by_package_score := scores'\<rparr>)"
    using orderings_replaced [OF ok(5) U joined] by blast
  let ?s' = "s\<lparr>po_by_hash := ?by_hash, po_references := (po_references s)\<lparr>rs_ordered := (rs_ordered (po_references s))\<lparr>or_by_package_score := scores'\<rparr>\<rparr>\<rparr>"
  have "join_package e hash s = Ok ?s'"
    using scores(1,2) join_fits [OF keyedD(2) [OF ok(1) Some] assms(2)] by (cases removed) (simp_all add: join_package_def Some Let_def joined_def)
  moreover have at: "map_of ?by_hash h = (if h = hash then map_option (joined e) (map_of (po_by_hash s) h) else map_of (po_by_hash s) h)" for h
    using Some by (simp add: update_conv')
  moreover have "pool_ok (?s'\<lparr>po_transactions_size_in_bytes := n\<rparr>)"
  proof -
    have inj: "inj_on (replaced e a) ?U" using U(1) by (auto simp: identified_def inj_on_def) (metis replaced_simps(1))
    have "replaced e a ` ?U - replaced e a ` ?F = replaced e a ` (?U - ?F)" using inj_on_image_set_diff [OF inj, of ?U ?F] U(2) by blast
    then have "en_hash ` (replaced e a ` ?U - replaced e a ` ?F) = en_hash ` (?U - ?F)" by (simp only: image_image replaced_simps(1))
    then have pending: "set (rs_pending (po_references s)) = en_hash ` (ran (map_of ?by_hash) - free_entries None ?by_hash)"
      using ok(4) replaced(2,3) by simp
    have "(\<exists>x. map_of ?by_hash h = Some x \<and> p \<in> set (prevouts x)) \<longleftrightarrow> (\<exists>x. map_of (po_by_hash s) h = Some x \<and> p \<in> set (prevouts x))" for h p
      by (auto simp: at)
    moreover have "\<exists>ds. map_of (rs_by_input (po_references s)) (op_hash p) = Some ds \<and> h \<in> set ds"
      if "map_of ?by_hash h = Some x" "p \<in> set (prevouts x)" "map_of ?by_hash (op_hash p) \<noteq> None" for h x p
      using that refs [of h _ p] by (auto simp: at split: if_splits)
    moreover have "sum_list (map (en_size \<circ> snd) ?by_hash) = sum_list (map (en_size \<circ> snd) (po_by_hash s))"
      by (rule arg_cong [of _ _ sum_list], rule map_update_same [OF Some]) simp
    ultimately show ?thesis unfolding pool_ok_def using replaced(1,3) ok(2,3) spent pending scores(3) by simp
  qed
  ultimately show ?thesis by (intro exI [of _ ?s']) simp
qed

lemma join_packages_Ok:
  assumes "pool_ok (s\<lparr>po_transactions_size_in_bytes := n\<rparr>)" and "entry_ok e" and "distinct hashes"
    and "\<And>hash a. hash \<in> set hashes \<Longrightarrow> map_of (po_by_hash s) hash = Some a \<Longrightarrow> entry_ok (joined e a)"
  shows "\<exists>s'. join_packages e hashes s = Ok s' \<and> pool_ok (s'\<lparr>po_transactions_size_in_bytes := n\<rparr>)
    \<and> (\<forall>h. map_of (po_by_hash s') h = (if h \<in> set hashes then map_option (joined e) (map_of (po_by_hash s) h) else map_of (po_by_hash s) h))
    \<and> po_transactions_size_in_bytes s' = po_transactions_size_in_bytes s
    \<and> po_by_previous_output s' = po_by_previous_output s \<and> rs_by_input (po_references s') = rs_by_input (po_references s)"
  using assms(1,3,4)
proof (induction hashes arbitrary: s)
  case (Cons hash hashes)
  obtain s1 where s1: "join_package e hash s = Ok s1" "pool_ok (s1\<lparr>po_transactions_size_in_bytes := n\<rparr>)"
      "\<And>h. map_of (po_by_hash s1) h = (if h = hash then map_option (joined e) (map_of (po_by_hash s) h) else map_of (po_by_hash s) h)"
      "po_transactions_size_in_bytes s1 = po_transactions_size_in_bytes s"
      "po_by_previous_output s1 = po_by_previous_output s" "rs_by_input (po_references s1) = rs_by_input (po_references s)"
    using join_package_Ok [OF Cons.prems(1) assms(2), of hash] Cons.prems(3) by auto
  have fits: "entry_ok (joined e a)" if "h \<in> set hashes" "map_of (po_by_hash s1) h = Some a" for h a
    using that Cons.prems(2,3) by (auto simp: s1(3) split: if_splits)
  have "\<exists>s'. join_packages e hashes s1 = Ok s' \<and> pool_ok (s'\<lparr>po_transactions_size_in_bytes := n\<rparr>)
      \<and> (\<forall>h. map_of (po_by_hash s') h = (if h \<in> set hashes then map_option (joined e) (map_of (po_by_hash s1) h) else map_of (po_by_hash s1) h))
      \<and> po_transactions_size_in_bytes s' = po_transactions_size_in_bytes s1
      \<and> po_by_previous_output s' = po_by_previous_output s1 \<and> rs_by_input (po_references s') = rs_by_input (po_references s1)"
    by (rule Cons.IH [OF s1(2)], use Cons.prems(2) in simp, erule (1) fits)
  then obtain s' where s': "join_packages e hashes s1 = Ok s'" "pool_ok (s'\<lparr>po_transactions_size_in_bytes := n\<rparr>)"
      "\<And>h. map_of (po_by_hash s') h = (if h \<in> set hashes then map_option (joined e) (map_of (po_by_hash s1) h) else map_of (po_by_hash s1) h)"
      "po_transactions_size_in_bytes s' = po_transactions_size_in_bytes s1"
      "po_by_previous_output s' = po_by_previous_output s1" "rs_by_input (po_references s') = rs_by_input (po_references s1)"
    by blast
  then show ?case using Cons.prems(2) by (intro exI [of _ s']) (auto simp: s1)
qed simp

lemma spend_inputs_Ok:
  assumes "distinct (map ti_previous_output is)" and "\<And>p. p \<in> ti_previous_output ` set is \<Longrightarrow> map_of spent p = None"
  shows "\<exists>spent'. spend_inputs hash is spent = Ok spent'
    \<and> (\<forall>p. map_of spent' p = (if p \<in> ti_previous_output ` set is then Some hash else map_of spent p))"
  using assms
proof (induction "is" arbitrary: spent)
  case (Cons i "is")
  have fresh: "ti_previous_output i \<notin> ti_previous_output ` set is" using Cons.prems(1) by simp
  have "map_of (AList.update (ti_previous_output i) hash spent) p = None" if "p \<in> ti_previous_output ` set is" for p
  proof -
    have "p \<noteq> ti_previous_output i" using fresh that by blast
    then show ?thesis using Cons.prems(2) [of p] that by (simp add: update_conv')
  qed
  then have "\<exists>spent'. spend_inputs hash is (AList.update (ti_previous_output i) hash spent) = Ok spent'
      \<and> (\<forall>p. map_of spent' p = (if p \<in> ti_previous_output ` set is then Some hash else map_of (AList.update (ti_previous_output i) hash spent) p))"
    using Cons.prems(1) by (intro Cons.IH) simp_all
  then show ?case using Cons.prems(2) by (auto simp: update_conv')
qed simp

lemma add_references_keep:
  assumes "map_of by_input k = Some ds"
  shows "\<exists>ds'. map_of (fold (\<lambda>i. add_input_reference hash (op_hash (ti_previous_output i))) is by_input) k = Some ds' \<and> set ds \<subseteq> set ds'"
  using assms
proof (induction "is" arbitrary: by_input ds)
  case (Cons i "is")
  let ?by_input = "add_input_reference hash (op_hash (ti_previous_output i)) by_input"
  obtain ds1 where ds1: "map_of ?by_input k = Some ds1" "set ds \<subseteq> set ds1"
    using Cons.prems by (cases "k = op_hash (ti_previous_output i)") (auto simp: add_input_reference_def update_conv')
  from Cons.IH [OF ds1(1)] ds1(2) show ?case by auto
qed simp

lemma add_references_new:
  assumes "i \<in> set is"
  shows "\<exists>ds. map_of (fold (\<lambda>i. add_input_reference hash (op_hash (ti_previous_output i))) is by_input) (op_hash (ti_previous_output i)) = Some ds \<and> hash \<in> set ds"
  using assms
proof (induction "is" arbitrary: by_input)
  case (Cons j "is")
  show ?case
  proof (cases "i \<in> set is")
    case False
    let ?by_input = "add_input_reference hash (op_hash (ti_previous_output j)) by_input"
    have "\<exists>ds. map_of ?by_input (op_hash (ti_previous_output i)) = Some ds \<and> hash \<in> set ds"
      using False Cons.prems by (auto simp: add_input_reference_def update_conv')
    then obtain ds where ds: "map_of ?by_input (op_hash (ti_previous_output i)) = Some ds" "hash \<in> set ds" by blast
    from add_references_keep [OF ds(1), of hash "is"] ds(2) show ?thesis by auto
  qed (use Cons.IH in simp)
qed simp

text \<open>
  An entry that may be inserted: it is not in the pool and spends outputs that no entry of the pool
  spends, no entry of the pool is its child, and it is not its own parent; the scores that it changes stay within bounds.
\<close>

definition insertable :: "entry \<Rightarrow> pool_storage \<Rightarrow> bool" where
  "insertable e s \<longleftrightarrow> entry_ok e \<and> distinct (prevouts e) \<and> distinct (en_ancestors e) \<and> map_of (po_by_hash s) (en_hash e) = None
     \<and> list_all (\<lambda>p. map_of (po_by_previous_output s) p = None \<and> op_hash p \<noteq> en_hash e) (prevouts e)
     \<and> list_all (\<lambda>(_, x). list_all (\<lambda>p. op_hash p \<noteq> en_hash e) (prevouts x)) (po_by_hash s)
     \<and> list_all (\<lambda>hash. case map_of (po_by_hash s) hash of Some a \<Rightarrow> entry_ok (joined e a) | None \<Rightarrow> True) (en_ancestors e)"

lemma free_entries_insert:
  assumes "keyed by_hash" and "map_of by_hash (en_hash e) = None" and "\<And>p. p \<in> set (prevouts e) \<Longrightarrow> op_hash p \<noteq> en_hash e"
    and "\<And>x p. x \<in> ran (map_of by_hash) \<Longrightarrow> p \<in> set (prevouts x) \<Longrightarrow> op_hash p \<noteq> en_hash e"
  shows "ran (map_of (AList.update (en_hash e) e by_hash)) = Set.insert e (ran (map_of by_hash))"
    and "free_entries None (AList.update (en_hash e) e by_hash)
      = (if has_in_pool_ancestors None by_hash (en_transaction e) then free_entries None by_hash else Set.insert e (free_entries None by_hash))"
proof -
  show ran: "ran (map_of (AList.update (en_hash e) e by_hash)) = Set.insert e (ran (map_of by_hash))"
    using assms(2) by (simp add: update_conv')
  have "has_in_pool_ancestors None (AList.update (en_hash e) e by_hash) (en_transaction x) \<longleftrightarrow> has_in_pool_ancestors None by_hash (en_transaction x)"
    if "x \<in> Set.insert e (ran (map_of by_hash))" for x :: entry
    using that assms(3,4) by (auto simp: has_in_pool_ancestors_eq update_conv')
  then show "free_entries None (AList.update (en_hash e) e by_hash)
      = (if has_in_pool_ancestors None by_hash (en_transaction e) then free_entries None by_hash else Set.insert e (free_entries None by_hash))"
    unfolding free_entries_def ran by auto
qed

lemma waiting_or_ordered:
  assumes "keyed by_hash" and "map_of by_hash (en_hash e) = None" and "entry_ok e"
    and "distinct (rs_pending r)" and "set (rs_pending r) = en_hash ` (ran (map_of by_hash) - free_entries None by_hash)"
    and "orderings_hold (free_entries None by_hash) (rs_ordered r)"
  defines "U \<equiv> Set.insert e (ran (map_of by_hash))"
    and "F \<equiv> (if has_in_pool_ancestors None by_hash (en_transaction e) then free_entries None by_hash else Set.insert e (free_entries None by_hash))"
  shows "\<exists>r'. (if has_in_pool_ancestors None by_hash (en_transaction e)
      then Ok (r\<lparr>rs_pending := List.insert (en_hash e) (rs_pending r)\<rparr>)
      else and_then (insert_to_orderings e (rs_ordered r)) (\<lambda>ordered. Ok (r\<lparr>rs_ordered := ordered\<rparr>))) = Ok r'
    \<and> rs_by_input r' = rs_by_input r \<and> distinct (rs_pending r') \<and> set (rs_pending r') = en_hash ` (U - F) \<and> orderings_hold F (rs_ordered r')"
proof -
  have new: "e \<notin> ran (map_of by_hash)" using assms(2) by (simp add: keyed_ran [OF assms(1)])
  have sub: "free_entries None by_hash \<subseteq> ran (map_of by_hash)" by (auto simp: free_entries_def)
  show ?thesis
  proof (cases "has_in_pool_ancestors None by_hash (en_transaction e)")
    case True
    have "U - F = Set.insert e (ran (map_of by_hash) - free_entries None by_hash)" using True new sub by (auto simp: U_def F_def)
    then show ?thesis using True assms(4-6) by (simp add: F_def)
  next
    case False
    have "U - F = ran (map_of by_hash) - free_entries None by_hash" using False new by (auto simp: U_def F_def)
    moreover have "identified (Set.insert e (free_entries None by_hash))"
      using identified_subset [OF keyed_identified [OF assms(1)] sub] assms(1-3) sub
      by (auto simp: identified_def keyed_ran subset_iff)
    ultimately show ?thesis using False insert_to_orderings_Ok [OF assms(6)] assms(4,5) by (fastforce simp: F_def)
  qed
qed

lemma insertableD:
  assumes "insertable e s"
  shows "entry_ok e" "distinct (prevouts e)" "distinct (en_ancestors e)" "map_of (po_by_hash s) (en_hash e) = None"
    and "\<And>p. p \<in> set (prevouts e) \<Longrightarrow> map_of (po_by_previous_output s) p = None"
    and "\<And>p. p \<in> set (prevouts e) \<Longrightarrow> op_hash p \<noteq> en_hash e"
    and "\<And>x hash p. map_of (po_by_hash s) hash = Some x \<Longrightarrow> p \<in> set (prevouts x) \<Longrightarrow> op_hash p \<noteq> en_hash e"
    and "\<And>hash a. hash \<in> set (en_ancestors e) \<Longrightarrow> map_of (po_by_hash s) hash = Some a \<Longrightarrow> entry_ok (joined e a)"
  using assms by (fastforce simp: insertable_def list_all_iff dest: map_of_SomeD)+

text \<open>More references and another size do not matter to the rest of the invariant.\<close>

lemma pool_ok_more_references:
  assumes "pool_ok s" and "\<And>k ds. map_of (rs_by_input (po_references s)) k = Some ds \<Longrightarrow> \<exists>ds'. map_of by_input k = Some ds' \<and> set ds \<subseteq> set ds'"
  shows "pool_ok (s\<lparr>po_references := (po_references s)\<lparr>rs_by_input := by_input\<rparr>\<rparr>)"
proof -
  have "\<exists>ds. map_of by_input (op_hash p) = Some ds \<and> hash \<in> set ds"
    if "map_of (po_by_hash s) hash = Some e" "p \<in> set (prevouts e)" "map_of (po_by_hash s) (op_hash p) \<noteq> None" for hash e p
    using pool_ok_references [OF assms(1) that] assms(2) by blast
  then show ?thesis unfolding pool_ok_def using pool_okD [OF assms(1)] pool_ok_spent [OF assms(1)] by simp
qed

lemma pool_ok_insert:
  assumes "pool_ok s" and "map_of (po_by_hash s) (en_hash e) = None" and "entry_ok e" and "distinct (prevouts e)"
    and self: "\<And>p. p \<in> set (prevouts e) \<Longrightarrow> op_hash p \<noteq> en_hash e"
    and children: "\<And>x hash p. map_of (po_by_hash s) hash = Some x \<Longrightarrow> p \<in> set (prevouts x) \<Longrightarrow> op_hash p \<noteq> en_hash e"
    and unspent: "\<And>p. p \<in> set (prevouts e) \<Longrightarrow> map_of (po_by_previous_output s) p = None"
    and spent': "\<And>p. map_of spent' p = (if p \<in> set (prevouts e) then Some (en_hash e) else map_of (po_by_previous_output s) p)"
    and refs': "\<And>p. p \<in> set (prevouts e) \<Longrightarrow> \<exists>ds. map_of (rs_by_input r') (op_hash p) = Some ds \<and> en_hash e \<in> set ds"
    and r': "rs_by_input r' = rs_by_input (po_references s)" "distinct (rs_pending r')"
      "set (rs_pending r') = en_hash ` (ran (map_of (AList.update (en_hash e) e (po_by_hash s))) - free_entries None (AList.update (en_hash e) e (po_by_hash s)))"
      "orderings_hold (free_entries None (AList.update (en_hash e) e (po_by_hash s))) (rs_ordered r')"
    and size: "size' = po_transactions_size_in_bytes s + en_size e"
  shows "pool_ok (s\<lparr>po_by_hash := AList.update (en_hash e) e (po_by_hash s), po_by_previous_output := spent', po_references := r',
    po_transactions_size_in_bytes := size'\<rparr>)"
proof -
  note ok = pool_okD [OF assms(1)]
  let ?by_hash = "AList.update (en_hash e) e (po_by_hash s)"
  have at: "map_of ?by_hash h = (if h = en_hash e then Some e else map_of (po_by_hash s) h)" for h by (simp add: update_conv')
  have "keyed ?by_hash"
  proof -
    have "distinct (map fst ?by_hash)" using ok(1) by (simp add: distinct_update keyed_def)
    moreover have "en_hash x = h \<and> entry_ok x \<and> distinct (prevouts x)" if "map_of ?by_hash h = Some x" for h x
      using that keyedD [OF ok(1), of h x] assms(3,4) by (auto simp: at split: if_splits)
    ultimately show ?thesis by (rule keyedI)
  qed
  moreover have "sum_list (map (en_size \<circ> snd) ?by_hash) = size'"
    using update_fresh [of "en_hash e" "po_by_hash s" e] assms(2) ok(2) size by (simp add: map_of_eq_None_iff)
  moreover have "map_of spent' p = Some h \<longleftrightarrow> (\<exists>x. map_of ?by_hash h = Some x \<and> p \<in> set (prevouts x))" for p h
    using unspent [of p] assms(2) pool_ok_spent [OF assms(1), of p h] by (auto simp: spent' at)
  moreover have "\<exists>ds. map_of (rs_by_input r') (op_hash p) = Some ds \<and> h \<in> set ds"
    if "map_of ?by_hash h = Some x" "p \<in> set (prevouts x)" "map_of ?by_hash (op_hash p) \<noteq> None" for h x p
  proof (cases "h = en_hash e")
    case True
    then show ?thesis using that(1,2) refs' by (simp add: at)
  next
    case False
    then have x: "map_of (po_by_hash s) h = Some x" using that(1) by (simp add: at)
    then show ?thesis using pool_ok_references [OF assms(1) x that(2)] children [OF x that(2)] that(3) r'(1) by (simp add: at)
  qed
  ultimately show ?thesis unfolding pool_ok_def using r'(2-4) by simp
qed

lemma storage_insert_Ok:
  assumes "pool_ok s" and "insertable e s"
  shows "\<exists>s'. storage_insert e s = Ok s' \<and> pool_ok s'
    \<and> (\<forall>hash. map_of (po_by_hash s') hash =
         (if hash = en_hash e then Some e
          else if hash \<in> set (en_ancestors e) then map_option (joined e) (map_of (po_by_hash s) hash)
          else map_of (po_by_hash s) hash))
    \<and> rs_by_input (po_references s') = fold (\<lambda>i. add_input_reference (en_hash e) (op_hash (ti_previous_output i))) (tx_inputs (en_transaction e)) (rs_by_input (po_references s))"
proof -
  note new = insertableD [OF assms(2)]
  let ?inputs = "tx_inputs (en_transaction e)" and ?n = "po_transactions_size_in_bytes s"
  let ?by_input = "fold (\<lambda>i. add_input_reference (en_hash e) (op_hash (ti_previous_output i))) ?inputs (rs_by_input (po_references s))"
  let ?s1 = "s\<lparr>po_transactions_size_in_bytes := ?n + en_size e, po_references := (po_references s)\<lparr>rs_by_input := ?by_input\<rparr>\<rparr>"
  have "?s1\<lparr>po_transactions_size_in_bytes := ?n\<rparr> = s\<lparr>po_references := (po_references s)\<lparr>rs_by_input := ?by_input\<rparr>\<rparr>" by simp
  then have "pool_ok (?s1\<lparr>po_transactions_size_in_bytes := ?n\<rparr>)" using pool_ok_more_references [OF assms(1) add_references_keep] by (simp only:)
  from join_packages_Ok [OF this new(1,3)] new(8)
  obtain s2 where s2: "join_packages e (en_ancestors e) ?s1 = Ok s2" "pool_ok (s2\<lparr>po_transactions_size_in_bytes := ?n\<rparr>)"
      "\<And>h. map_of (po_by_hash s2) h = (if h \<in> set (en_ancestors e) then map_option (joined e) (map_of (po_by_hash s) h) else map_of (po_by_hash s) h)"
      "po_transactions_size_in_bytes s2 = ?n + en_size e" "po_by_previous_output s2 = po_by_previous_output s" "rs_by_input (po_references s2) = ?by_input"
    by auto
  note ok = pool_okD [OF s2(2), simplified]
  have fresh: "map_of (po_by_hash s2) (en_hash e) = None" using new(4) by (simp add: s2(3))
  have children: "op_hash p \<noteq> en_hash e" if "map_of (po_by_hash s2) h = Some x" "p \<in> set (prevouts x)" for x h p
    using that new(7) [of h _ p] by (auto simp: s2(3) split: if_splits)
  have entries: "ran (map_of (AList.update (en_hash e) e (po_by_hash s2))) = Set.insert e (ran (map_of (po_by_hash s2)))"
      "free_entries None (AList.update (en_hash e) e (po_by_hash s2))
        = (if has_in_pool_ancestors None (po_by_hash s2) (en_transaction e) then free_entries None (po_by_hash s2) else Set.insert e (free_entries None (po_by_hash s2)))"
    using children by (intro free_entries_insert [OF ok(1) fresh new(6)]; force simp: ran_def)+
  obtain r' where r': "(if has_in_pool_ancestors None (po_by_hash s2) (en_transaction e)
        then Ok ((po_references s2)\<lparr>rs_pending := List.insert (en_hash e) (rs_pending (po_references s2))\<rparr>)
        else and_then (insert_to_orderings e (rs_ordered (po_references s2))) (\<lambda>ordered. Ok ((po_references s2)\<lparr>rs_ordered := ordered\<rparr>))) = Ok r'"
      "rs_by_input r' = rs_by_input (po_references s2)" "distinct (rs_pending r')"
      "set (rs_pending r') = en_hash ` (ran (map_of (AList.update (en_hash e) e (po_by_hash s2))) - free_entries None (AList.update (en_hash e) e (po_by_hash s2)))"
      "orderings_hold (free_entries None (AList.update (en_hash e) e (po_by_hash s2))) (rs_ordered r')"
    using waiting_or_ordered [OF ok(1) fresh new(1) ok(3-5)] unfolding entries by blast
  obtain spent' where spent': "spend_inputs (en_hash e) ?inputs (po_by_previous_output s2) = Ok spent'"
      "\<And>p. map_of spent' p = (if p \<in> set (prevouts e) then Some (en_hash e) else map_of (po_by_previous_output s2) p)"
    using spend_inputs_Ok [of ?inputs "po_by_previous_output s2" "en_hash e"] new(2,5) by (auto simp: prevouts_def s2(5))
  have refs: "\<exists>ds. map_of (rs_by_input r') (op_hash p) = Some ds \<and> en_hash e \<in> set ds" if "p \<in> set (prevouts e)" for p
    using that add_references_new [of _ ?inputs "en_hash e" "rs_by_input (po_references s)"] by (auto simp: prevouts_def r'(2) s2(6))
  let ?s' = "s2\<lparr>po_references := r', po_by_previous_output := spent', po_by_hash := AList.update (en_hash e) e (po_by_hash s2)\<rparr>"
  have "storage_insert e s = Ok ?s'" unfolding storage_insert_def Let_def s2(1) and_then.simps r'(1) spent'(1) ..
  moreover have "pool_ok ?s'"
  proof -
    have "?s' = s2\<lparr>po_by_hash := AList.update (en_hash e) e (po_by_hash s2),
        po_by_previous_output := spent', po_references := r', po_transactions_size_in_bytes := ?n + en_size e\<rparr>"
      by (simp add: s2(4) [symmetric])
    moreover have "pool_ok \<dots>"
      by (rule pool_ok_insert [OF s2(2), simplified];
        (rule fresh new(1,2) r'(2-5) refl | erule new(6) refs | erule (1) children | erule new(5) [folded s2(5)] | simp add: spent'(2)))
    ultimately show ?thesis by (simp only:)
  qed
  ultimately show ?thesis using s2(3,6) r'(2) by (intro exI [of _ ?s']) (auto simp: update_conv')
qed

lemma pool_ok_new: "pool_ok storage_new"
proof -
  have "free_entries None [] = {}" by (simp add: free_entries_def)
  then show ?thesis by (simp add: pool_ok_def storage_new_def keyed_def orderings_hold_def)
qed


section \<open>Descendants by reference\<close>

lemma descendants_step_smaller:
  assumes "set st \<union> set all \<subseteq> U" and "finite U" and "st \<noteq> []"
  shows "((descendants_step by_input (st, all)), (st, all)) \<in> measures [\<lambda>(st, all). card (U - set all), \<lambda>(st, all). length st]"
proof (cases "last st \<in> set all")
  case False
  have "last st \<in> U - set all" using assms(1,3) False by auto
  then have "card (U - set (all @ [last st])) < card (U - set all)" using assms(2) by (intro psubset_card_mono) auto
  then show ?thesis using False by (simp add: descendants_step_def Let_def)
qed (use assms(3) in \<open>simp add: descendants_step_def Let_def\<close>)

text \<open>The search for all descendants returns, and what it was started from is among them.\<close>

lemma all_descendants_Some: "\<exists>all. all_descendants by_input ds = Some all \<and> set ds \<subseteq> set all"
proof -
  define U where "U = set ds \<union> (\<Union>(k, hs) \<in> set by_input. set hs)"
  let ?I = "\<lambda>(st, all). set st \<union> set all \<subseteq> U \<and> set ds \<subseteq> set st \<union> set all"
  let ?b = "\<lambda>(st, all). st \<noteq> ([] :: bytes list)" and ?c = "descendants_step by_input"
  have fin: "finite U" by (auto simp: U_def)
  have step: "?I (?c x)" if inv: "?I x" and more: "?b x" for x
  proof -
    obtain st all where x: "x = (st, all)" by (cases x)
    then obtain front d where st: "st = front @ [d]" using more by (cases st rule: rev_cases) auto
    have "set (case map_of by_input d of Some hs \<Rightarrow> hs | None \<Rightarrow> []) \<subseteq> U"
      by (cases "map_of by_input d") (auto simp: U_def dest: map_of_SomeD)
    then show ?thesis using inv by (auto simp: x st descendants_step_def Let_def)
  qed
  have "wf {(t, x). (?I x \<and> ?b x) \<and> t = ?c x}"
    by (rule wf_subset [OF wf_measures [of "[\<lambda>(st, all). card (U - set all), \<lambda>(st, all). length st]"]])
      (use fin in \<open>auto simp del: in_measures intro!: descendants_step_smaller\<close>)
  moreover have start: "?I (ds, [])" by (simp add: U_def)
  ultimately obtain x where x: "while_option ?b ?c (ds, []) = Some x" using wf_while_option_Some [of ?I ?b ?c "(ds, [])"] step by blast
  have "?I x" by (rule while_option_rule [of ?I ?b ?c, OF step x start])
  moreover have "\<not> ?b x" using while_option_stop [OF x] .
  ultimately show ?thesis using x by (auto simp: all_descendants_def)
qed

lemma insert_verified_stale:
  assumes "map_of (rs_by_input (po_references (mp_storage p))) (it_hash t) = Some ds" and "{child, sibling} \<subseteq> set ds" and "child \<noteq> sibling"
    and "map_of (po_by_hash (mp_storage p)) child = None" and "make_entry fc t p = Ok (Some e, p')"
  shows "insert_verified sort_by fc t p = Some Panic"
proof -
  obtain all where all: "all_descendants (rs_by_input (po_references (mp_storage p))) ds = Some all" "set ds \<subseteq> set all"
    using all_descendants_Some by blast
  have "card {child, sibling} \<le> card (set all)" using assms(2) all(2) by (intro card_mono) auto
  then have "2 \<le> length all" using assms(3) card_length [of all] by simp
  moreover have "list_ex (\<lambda>d. map_of (po_by_hash (mp_storage p)) d = None) all" using assms(2,4) all(2) by (auto simp: list_ex_iff)
  moreover have "en_hash e = it_hash t" "po_references (mp_storage p') = po_references (mp_storage p)" "po_by_hash (mp_storage p') = po_by_hash (mp_storage p)"
    using assms(5) by (auto simp: make_entry_def Let_def and_then_eq_Ok split: if_splits)
  ultimately show ?thesis by (simp add: insert_verified_def assms(5) remove_by_parent_hash_def assms(1) all(1))
qed


section \<open>Properties of the pool\<close>

definition sample_entry :: "u8 \<Rightarrow> u8 \<Rightarrow> u32 \<Rightarrow> bytes list \<Rightarrow> u64 \<Rightarrow> entry" where
  "sample_entry hash parent idx ancestors stamp =
     \<lparr> en_transaction = \<lparr> tx_version = 1, tx_inputs = [\<lparr> ti_previous_output = \<lparr> op_hash = [parent], op_index = idx \<rparr>,
         ti_script_sig = [], ti_sequence = 0, ti_script_witness = [] \<rparr>], tx_outputs = [], tx_lock_time = 0 \<rparr>,
       en_ancestors = ancestors, en_hash = [hash], en_size = 100, en_storage_index = stamp, en_miner_fee = 5, en_miner_virtual_fee = 0,
       en_package_size = 100, en_package_miner_fee = 5, en_package_miner_virtual_fee = 0 \<rparr>"

lemmas sample_simps =
  storage_insert_def storage_new_def sample_entry_def add_input_reference_def has_in_pool_ancestors_def insert_to_orderings_def
  set_insert_def timestamp_entry_def transaction_score_entry_def package_score_entry_def cmp_timestamp_def cmp_of_def cmp_score_def
  cross_score_def i64_checked_def i64_range_def cmp_bytes_def join_package_def u64_add_def insertable_def entry_ok_def score_ok_def
  prevouts_def joined_def

definition sample_pool :: "entry \<Rightarrow> entry \<Rightarrow> pool_storage" where
  "sample_pool a b = (case and_then (storage_insert a storage_new) (storage_insert b) of Ok s \<Rightarrow> s | _ \<Rightarrow> storage_new)"

lemma sample_pool_ok:
  assumes "insertable a storage_new" and "\<And>s. storage_insert a storage_new = Ok s \<Longrightarrow> insertable b s"
  shows "pool_ok (sample_pool a b)"
proof -
  obtain s1 where s1: "storage_insert a storage_new = Ok s1" "pool_ok s1" using storage_insert_Ok [OF pool_ok_new assms(1)] by blast
  then obtain s2 where "storage_insert b s1 = Ok s2" "pool_ok s2" using storage_insert_Ok [OF s1(2) assms(2) [OF s1(1)]] by blast
  then show ?thesis using s1(1) by (simp add: sample_pool_def)
qed

lemma parent_and_child_ok: "pool_ok (sample_pool (sample_entry 1 9 0 [] 1) (sample_entry 2 1 0 [[1]] 2))"
  by (rule sample_pool_ok) (auto simp: sample_simps)

lemma siblings_ok: "pool_ok (sample_pool (sample_entry 1 9 0 [] 1) (sample_entry 2 9 1 [] 2))"
  by (rule sample_pool_ok) (auto simp: sample_simps)

text \<open>
  C14. The pool keeps its invariant.  The empty pool has it.  Inserting a transaction that spends unspent
  outputs neither panics nor breaks it: the new entry is found under its hash, its ancestors have it
  added to their packages, and the other entries stay as they are.  Removing an entry neither panics nor
  breaks it, and leaves the other entries.
\<close>

theorem pool_operations_keep_invariant:
  assumes "pool_ok s"
  shows "pool_ok storage_new
    \<and> (insertable e s \<longrightarrow> (\<exists>s'. storage_insert e s = Ok s' \<and> pool_ok s'
        \<and> (\<forall>hash. get_by_hash s' hash =
             (if hash = en_hash e then Some e
              else if hash \<in> set (en_ancestors e) then map_option (joined e) (get_by_hash s hash)
              else get_by_hash s hash))))
    \<and> (\<forall>x. get_by_hash s hash = Some x \<longrightarrow> (\<exists>s'. storage_remove_by_hash hash s = Ok (Some x, s') \<and> pool_ok s'
        \<and> get_by_hash s' = (get_by_hash s)(hash := None)))"
proof (intro conjI impI allI)
  assume "insertable e s"
  from storage_insert_Ok [OF assms this] show "\<exists>s'. storage_insert e s = Ok s' \<and> pool_ok s' \<and> (\<forall>hash. get_by_hash s' hash =
      (if hash = en_hash e then Some e else if hash \<in> set (en_ancestors e) then map_option (joined e) (get_by_hash s hash) else get_by_hash s hash))"
    by (auto simp: get_by_hash_def)
next
  fix x assume "get_by_hash s hash = Some x"
  then obtain s' where "storage_remove_by_hash hash s = Ok (Some x, s')" "po_by_hash s' = AList.delete hash (po_by_hash s)" "pool_ok s'"
    using storage_remove_Ok [OF assms, of hash x] by (auto simp: get_by_hash_def)
  then show "\<exists>s'. storage_remove_by_hash hash s = Ok (Some x, s') \<and> pool_ok s' \<and> get_by_hash s' = (get_by_hash s)(hash := None)"
    by (auto simp: get_by_hash_def delete_conv' fun_eq_iff)
qed (rule pool_ok_new)

theorem pool_operations_keep_invariant_witness:
  "let s = sample_pool (sample_entry 1 9 0 [] 1) (sample_entry 2 1 0 [[1]] 2); e = sample_entry 3 2 0 [[2], [1]] 3 in
   pool_ok s \<and> insertable e s \<and> (\<exists>s'. storage_insert e s = Ok s' \<and> pool_ok s' \<and> get_by_hash s' [3] = Some e)
   \<and> (\<exists>x s'. storage_remove_by_hash [1] s = Ok (Some x, s') \<and> pool_ok s' \<and> get_by_hash s' [1] = None)"
proof -
  let ?s = "sample_pool (sample_entry 1 9 0 [] 1) (sample_entry 2 1 0 [[1]] 2)" and ?e = "sample_entry 3 2 0 [[2], [1]] 3"
  have new: "insertable ?e ?s" by (simp add: sample_pool_def sample_simps)
  have found: "\<exists>x. get_by_hash ?s [1] = Some x" by (simp add: sample_pool_def sample_simps get_by_hash_def)
  have hash: "en_hash ?e = [3]" by (simp add: sample_entry_def)
  note keeps = pool_operations_keep_invariant [OF parent_and_child_ok, of ?e "[1]"]
  have "\<exists>s'. storage_insert ?e ?s = Ok s' \<and> pool_ok s' \<and> get_by_hash s' [3] = Some ?e" using keeps new hash by auto
  moreover have "\<exists>x s'. storage_remove_by_hash [1] ?s = Ok (Some x, s') \<and> pool_ok s' \<and> get_by_hash s' [1] = None" using keeps found by fastforce
  ultimately show ?thesis using new parent_and_child_ok by (simp add: Let_def)
qed

text \<open>
  C15. Taking any number of transactions by any strategy from a well-formed pool whose transactions do not
  depend on each other in a cycle returns that many transactions of the pool, or all of them, once
  each, none of them while a parent of it is still in the pool.  It leaves a well-formed pool with
  exactly the others.
\<close>

theorem pool_drains_ancestors_first:
  assumes "pool_ok s" and "acyclic (pool_parents (po_by_hash s))"
  shows "\<exists>ts s'. remove_n_with_strategy n strategy s = Ok (ts, s') \<and> pool_ok s'
    \<and> length ts = min n (length (po_by_hash s)) \<and> distinct (map it_hash ts)
    \<and> (\<forall>t\<in>set ts. map_option en_transaction (map_of (po_by_hash s) (it_hash t)) = Some (it_raw t))
    \<and> po_by_hash s' = filter (\<lambda>(hash, _). hash \<notin> it_hash ` set ts) (po_by_hash s)
    \<and> ancestors_first (fst ` set (po_by_hash s)) ts"
  using remove_n_loop_Ok [OF assms, of n strategy "[]"] by (simp add: remove_n_with_strategy_def)

theorem pool_drains_ancestors_first_witness:
  "let s = sample_pool (sample_entry 1 9 0 [] 1) (sample_entry 2 1 0 [[1]] 2) in
   pool_ok s \<and> acyclic (pool_parents (po_by_hash s))
   \<and> (\<exists>ts s'. remove_n_with_strategy 2 ByPackageScore s = Ok (ts, s') \<and> length ts = 2 \<and> ancestors_first {[1], [2]} ts)"
proof -
  let ?s = "sample_pool (sample_entry 1 9 0 [] 1) (sample_entry 2 1 0 [[1]] 2)"
  have keys: "map fst (po_by_hash ?s) = [[1], [2]]" by (simp add: sample_pool_def sample_simps)
  have "pool_parents (po_by_hash ?s) \<subseteq> {([1], [2])}" by (auto simp: pool_parents_def sample_pool_def sample_simps split: if_splits)
  moreover have "acyclic {([1] :: bytes, [2] :: bytes)}" by (rule acyclicI_order [of _ "\<lambda>h. if h = [1] then 1 else (0 :: nat)"]) auto
  ultimately have acyclic: "acyclic (pool_parents (po_by_hash ?s))" by (blast intro: acyclic_subset)
  have "length (po_by_hash ?s) = 2" "fst ` set (po_by_hash ?s) = {[1], [2]}"
    using keys by (metis length_map length_Cons list.size(3) numeral_2_eq_2) (metis keys list.set(1,2) set_map)
  then show ?thesis
    using pool_drains_ancestors_first [OF parent_and_child_ok acyclic, of 2 ByPackageScore] acyclic parent_and_child_ok by (auto simp: Let_def)
qed

text \<open>
  C33. A reference from a parent to a child stays when the child leaves the pool.  If two transactions of a
  pool were recorded as children of a parent that is not in it, and one of them is removed, for example
  because it was mined, then inserting the parent panics, for any order of sorting and any fee: the
  comparison of the children expects both to be in the pool.
\<close>

theorem returning_parent_panics:
  assumes "pool_ok s" and "map_of (rs_by_input (po_references s)) (it_hash t) = Some ds"
    and "{child, sibling} \<subseteq> set ds" and "child \<noteq> sibling" and "child \<noteq> it_hash t" and "get_by_hash s child = Some x"
  shows "\<exists>s'. storage_remove_by_hash child s = Ok (Some x, s') \<and> pool_ok s'
    \<and> (\<forall>p fc e p'. mp_storage p = s' \<longrightarrow> make_entry fc t p = Ok (Some e, p') \<longrightarrow> insert_verified sort_by fc t p = Some Panic)"
proof -
  obtain s' where s': "storage_remove_by_hash child s = Ok (Some x, s')" "po_by_hash s' = AList.delete child (po_by_hash s)"
      "rs_by_input (po_references s') = AList.delete child (rs_by_input (po_references s))" "pool_ok s'"
    using storage_remove_Ok [OF assms(1), of child x] assms(6) by (auto simp: get_by_hash_def)
  have "map_of (rs_by_input (po_references s')) (it_hash t) = Some ds" "map_of (po_by_hash s') child = None"
    using assms(2,5) by (simp_all add: s'(2,3) delete_conv')
  then show ?thesis using s'(1,4) insert_verified_stale [OF _ assms(3,4)] by blast
qed

theorem returning_parent_panics_witness:
  "let s = sample_pool (sample_entry 1 9 0 [] 1) (sample_entry 2 9 1 [] 2);
       t = \<lparr> it_hash = [9], it_raw = en_transaction (sample_entry 9 8 0 [] 3) \<rparr> in
   \<exists>x s'. storage_remove_by_hash [1] s = Ok (Some x, s') \<and> pool_ok s'
     \<and> insert_verified (\<lambda>_ hashes. hashes) (\<lambda>_ _. Ok 1) t \<lparr> mp_storage = s', mp_accept_zero_fee_transactions = False \<rparr> = Some Panic"
proof -
  let ?s = "sample_pool (sample_entry 1 9 0 [] 1) (sample_entry 2 9 1 [] 2)"
  let ?t = "\<lparr> it_hash = [9], it_raw = en_transaction (sample_entry 9 8 0 [] 3) \<rparr>"
  have refs: "map_of (rs_by_input (po_references ?s)) (it_hash ?t) = Some [[2], [1]]" by (simp add: sample_pool_def sample_simps)
  obtain x where x: "get_by_hash ?s [1] = Some x" by (simp add: sample_pool_def sample_simps get_by_hash_def)
  have "po_counter ?s = 0" by (simp add: sample_pool_def sample_simps)
  moreover obtain s' where s': "storage_remove_by_hash [1] ?s = Ok (Some x, s')" "pool_ok s'"
      "\<And>p fc e p'. mp_storage p = s' \<Longrightarrow> make_entry fc ?t p = Ok (Some e, p') \<Longrightarrow> insert_verified (\<lambda>_ hashes. hashes) fc ?t p = Some Panic"
    using returning_parent_panics [OF siblings_ok refs, of "[1]" "[2]" x "\<lambda>_ hashes. hashes"] x by auto
  moreover have "po_counter s' = po_counter ?s"
    using s'(1) by (auto simp: storage_remove_by_hash_def Let_def and_then_eq_Ok split: option.splits if_splits)
  ultimately have "\<exists>e p'. make_entry (\<lambda>_ _. Ok 1) ?t \<lparr> mp_storage = s', mp_accept_zero_fee_transactions = False \<rparr> = Ok (Some e, p')"
    by (simp add: make_entry_def u64_add_def Let_def)
  then show ?thesis using s' by (auto simp: Let_def)
qed

end
