(* ===== verification/Spec2Isabelle.thy ===== *)
theory Spec2Isabelle
  imports Der Accept_Props Disk Reorg Hash_Queue_Props Partial_Merkle Pool_Insert
begin

text \<open>
  A verification development for parity-bitcoin, a Bitcoin and Bitcoin Cash node in Rust.

  \<^bold>\<open>The program.\<close>  The node is a workspace of crates.  \<open>serialization\<close>, \<open>primitives\<close> and \<open>chain\<close> hold the
  data of the protocol and its byte formats; \<open>keys\<close> and \<open>crypto\<close> wrap the cryptographic libraries;
  \<open>script\<close> is the interpreter of the spending conditions; \<open>network\<close> holds the consensus parameters;
  \<open>verification\<close> decides whether a header, a block or an unconfirmed transaction is valid; \<open>storage\<close>
  defines the interfaces of the block database and \<open>db\<close> implements them over a key-value store;
  \<open>miner\<close> holds the memory pool; \<open>sync\<close>, \<open>p2p\<close> and \<open>message\<close> talk to peers; \<open>rpc\<close>, \<open>import\<close> and \<open>pbtc\<close> are
  the surface.  A block that arrives is deserialized (\<open>chain\<close>), checked without context
  (\<open>verify_*.rs\<close>), placed with respect to the main chain (\<open>block_origin\<close>), checked in the context of
  the chain it extends (\<open>accept_*.rs\<close>, which run its scripts), inserted and, if it extends the best
  chain, canonized; a side chain that becomes the best one is switched to by a fork.  The development
  follows that path from the bytes to the database.

  \<^bold>\<open>Conventions\<close> (theory \<open>Prelude\<close>).  A fallible call returns an \<open>outcome\<close>: \<open>Ok\<close>, \<open>Err\<close> with the error of
  the source, or \<open>Panic\<close>; \<open>and_then\<close> is the \<open>?\<close> operator.  Every \<open>expect\<close>, \<open>unwrap\<close>, slice access,
  assertion (debug assertions included) and arithmetic overflow that the source can reach is a \<open>Panic\<close>
  of the model.  Integers of fixed width are words; \<open>usize\<close> is \<open>nat\<close>.  A struct is a record, an enum a
  datatype, a trait object a record of its methods.  State is passed explicitly; an operation that can
  fail after changing its state returns both.  A \<open>HashMap\<close> is an association list with distinct keys
  whose order stands for the unspecified iteration order.

  \<^bold>\<open>Code outside the sources\<close> is a parameter: the digests (typedef \<open>hasher\<close>: total functions with results
  of the right size), \<open>secp256k1\<close>, the overflow behaviour of \<open>U256\<close> (\<open>ov\<close>), \<open>BitVec\<close> (\<open>bit_vec_pads\<close>:
  bytes are padded with zero bits), RocksDB (\<open>rocks_laws\<close>: what is read after a batch) and the LRU cache
  (\<open>lru_laws\<close>: an entry is either what was last inserted or absent).  Every theorem with such a
  hypothesis has a witness with a concrete function in its place.

  \<^bold>\<open>Script\<close> (\<open>script/src\<close>).  \<open>Opcodes\<close> (\<open>opcode.rs\<close>, \<open>flags.rs\<close>, \<open>error.rs\<close>), \<open>Script_Num\<close> (\<open>num.rs\<close>),
  \<open>Script_Stack\<close> (\<open>stack.rs\<close>), \<open>Script\<close> (\<open>script.rs\<close>, \<open>builder.rs\<close>), \<open>Keys\<close> (\<open>keys/src\<close>, \<open>crypto/src\<close>),
  \<open>Sighash\<close> and \<open>Signer\<close> (\<open>sign.rs\<close>, \<open>verify.rs\<close>), \<open>Interpreter\<close> (\<open>interpreter.rs\<close>: one definition per arm
  of the opcode match, the loop \<open>eval_loop\<close>, \<open>verify_script\<close> and \<open>verify_witness_program\<close>).  Shown:
  verification of an input never panics, for all scripts and witnesses (\<open>verify_script_never_panics\<close>),
  the loop keeps its limits (\<open>eval_script_keeps_limits\<close>), pay-to-public-key-hash means what it says
  (\<open>eval_p2pkh\<close>), strict DER is accepted exactly (\<open>Der\<close>), lock times are the rules of BIP 65, 68 and 112,
  a witness signature commits to its transaction up to hash collisions, script numbers have a canonical
  codec, and what the counters, builders and recognisers of scripts compute (\<open>Script_Props\<close>).
  The interpreter's loop is total: each round advances the position.

  \<^bold>\<open>Data\<close>.  \<open>Serialization\<close> (\<open>serialization/src\<close>; the locales \<open>codec\<close> and \<open>exact_codec\<close> are the contract of
  a type with its readers), \<open>Chain\<close> and \<open>Chain_Props\<close> (\<open>chain/src\<close>), \<open>Compact\<close> (\<open>primitives/src/compact.rs\<close>),
  \<open>Network\<close> (\<open>network/src\<close>).  Shown: round trips and uniqueness of encodings, panics of the reader,
  the merkle root is defined exactly on non-empty lists and binds its list up to collisions (the
  recursion is a \<open>partial_function\<close>, so that not returning is a value), compact targets are
  read back within their precision.

  \<^bold>\<open>Verification\<close> (\<open>verification/src\<close>).  \<open>Work\<close> (\<open>work.rs\<close>, \<open>work_bch.rs\<close>, \<open>timestamp.rs\<close>), \<open>Deployments\<close>
  (\<open>deployments.rs\<close>), \<open>Verify\<close> (\<open>verify_*.rs\<close>, \<open>sigops.rs\<close>), \<open>Accept\<close> (\<open>accept_*.rs\<close>, \<open>chain_verifier.rs\<close>).
  Shown: an accepted block creates no value beyond the subsidy and spends every output once; a
  duplicated tail is refused although it has the same merkle root; median time does not go back;
  retargeting stays within a factor of four and does not overflow; the loop over block work returns;
  the cached deployment state refines the state machine of BIP 9 for queries in order, and does not
  for queries out of order.

  \<^bold>\<open>Database\<close>.  \<open>Storage\<close> (\<open>storage/src\<close>), \<open>Kv\<close> and \<open>Kv_Props\<close> (\<open>db/src/kv\<close>; the locales \<open>key_value_database\<close>
  and \<open>reliable_database\<close> are the contract of a store, interpreted by the memory database and both
  overlays), \<open>Disk\<close> (the raw format), \<open>Block_Chain_Db\<close>, \<open>Block_Chain_Props\<close> and \<open>Reorg\<close>
  (\<open>db/src/block_chain_db.rs\<close>).  Shown: overlays refine the map that transactions describe, the header
  cache is transparent, what is written to disk is read back up to witnesses and padding, the database
  refines the list of its main-chain hashes, \<open>decanonize\<close> undoes \<open>canonize\<close>, and switching to a fork
  replaces the tail of the chain.  The route of a fork is bounded by the constant
  \<open>MAX_FORK_ROUTE_PRESET\<close> of the source, which is the fuel of \<open>origin_of\<close>.

  \<^bold>\<open>Around the chain\<close>.  \<open>Hash_Queue\<close> and \<open>Hash_Queue_Props\<close> (\<open>sync/src/utils/hash_queue.rs\<close>,
  \<open>best_headers_chain.rs\<close>: the queues of requested blocks and the headers held in memory; the locale
  \<open>distinct_queue\<close> is the contract of a queue), \<open>Partial_Merkle\<close> (\<open>sync/src/utils/partial_merkle_tree.rs\<close>),
  \<open>Memory_Pool\<close>, \<open>Memory_Pool_Props\<close> and \<open>Pool_Insert\<close> (\<open>miner/src/memory_pool.rs\<close>, \<open>fee.rs\<close>; the locale
  \<open>ordered_set\<close> is the contract of its sorted sets).  Shown: a queue is a list without repetitions, the
  headers in memory form one chain, a partial merkle tree is parsed into the root and the matches it was
  built from, insertion and removal keep the indexes of the memory pool in agreement with its entries, and
  taking transactions from it by any strategy returns parents before children.  The bounds of \<open>score_ok\<close>
  on sizes and fees are those under which comparing two scores does not overflow 64 bits.  The order of
  \<open>sort_by\<close> with a comparison that is not total is a parameter.

  \<^bold>\<open>Defects\<close> that the model exhibits are stated as theorems about the code as it is, among them
  \<open>p2sh_sigops_panics\<close>, \<open>mempool_acceptor_panics\<close>, \<open>find_and_delete_misses_end\<close>, \<open>fully_spent_lost\<close>,
  \<open>threshold_state_out_of_order\<close>, \<open>failed_flush_stops_flushing\<close>, \<open>canonize_refuses_canonical_order\<close>,
  \<open>indexed_transaction_hashes_witness\<close>, \<open>returning_parent_panics\<close>, \<open>queues_back_ignores_first\<close> and \<open>read_huge_length_panics\<close>.

  \<^bold>\<open>Not modelled.\<close>  Threads and locks: every operation is modelled as the sequential code of its body, and
  parallel iterators as sequential ones.  Opening and tuning database files, the genesis blocks
  (hexadecimal literals), the \<open>f64\<close> difficulty, \<open>Display\<close> and hexadecimal text, signing and key
  generation (calls of secp256k1 and of the random generator), heap sizes.  Of the node around the
  consensus code: the rest of \<open>sync\<close> (tasks, timers and connections of peers), block templates and the
  processor miner of \<open>miner\<close>, \<open>p2p\<close> (asynchronous input and output), \<open>message\<close> (its codecs are generated by
  the derive macro), \<open>rpc\<close>, \<open>import\<close>, \<open>logs\<close>, \<open>pbtc\<close>, \<open>bencher\<close> and \<open>test-data\<close>.
\<close>

end
